(* ===== verification/P2_Prelude.thy ===== *)
theory P2_Prelude
  imports Main
begin

text \<open>
  Shared vocabulary of the development. A Go function that can return an error or panic
  is modelled by the result type \<open>go\<close>; a method that talks to the API server is a
  \<open>proc\<close>, a function from a state to a result and a state, where the state survives an
  error (the requests already sent are not undone). The theory defines the sequencing
  and loop combinators of both, a weakest precondition for \<open>proc\<close>, and the contract
  of a first-match search, which half a dozen lookups of the program implement.
\<close>

section \<open>Results of Go functions\<close>

text \<open>
  \<open>Ok x\<close> is a normal return, \<open>Fail e\<close> a return with a non-nil error, \<open>Panic\<close> a run-time
  panic (index or slice out of range, nil dereference).
\<close>

datatype ('e, 'a) go = Ok 'a | Fail 'e | Panic

fun bind_go :: "('e, 'a) go \<Rightarrow> ('a \<Rightarrow> ('e, 'b) go) \<Rightarrow> ('e, 'b) go" where
  "bind_go (Ok x) f = f x"
| "bind_go (Fail e) f = Fail e"
| "bind_go Panic f = Panic"

text \<open>A \<open>for range\<close> loop over a list with an accumulator; an error leaves the loop.\<close>

fun fold_go :: "('a \<Rightarrow> 'b \<Rightarrow> ('e, 'b) go) \<Rightarrow> 'a list \<Rightarrow> 'b \<Rightarrow> ('e, 'b) go" where
  "fold_go f [] acc = Ok acc"
| "fold_go f (x # xs) acc = bind_go (f x acc) (fold_go f xs)"

lemma bind_go_Ok_iff:
  "bind_go m f = Ok y \<longleftrightarrow> (\<exists>x. m = Ok x \<and> f x = Ok y)"
  by (cases m) auto

lemma bind_go_Fail_iff:
  "bind_go m f = Fail e \<longleftrightarrow> m = Fail e \<or> (\<exists>x. m = Ok x \<and> f x = Fail e)"
  by (cases m) auto

lemma bind_go_Panic_iff:
  "bind_go m f = Panic \<longleftrightarrow> m = Panic \<or> (\<exists>x. m = Ok x \<and> f x = Panic)"
  by (cases m) auto

lemmas bind_go_iffs = bind_go_Ok_iff bind_go_Fail_iff bind_go_Panic_iff

lemma bind_go_assoc: "bind_go (bind_go m f) g = bind_go m (\<lambda>x. bind_go (f x) g)"
  by (cases m) auto

lemma fold_go_append:
  "fold_go f (xs @ ys) acc = bind_go (fold_go f xs acc) (fold_go f ys)"
proof (induction xs arbitrary: acc)
  case Nil
  then show ?case by simp
next
  case (Cons x xs)
  then show ?case by (cases "f x acc") auto
qed

text \<open>The loop rule: what the body keeps, the loop keeps.\<close>

lemma fold_go_invariant:
  assumes "fold_go f xs acc = Ok acc'" and "I acc"
    and "\<And>x a a'. x \<in> set xs \<Longrightarrow> I a \<Longrightarrow> f x a = Ok a' \<Longrightarrow> I a'"
  shows "I acc'"
  using assms
proof (induction xs arbitrary: acc)
  case Nil
  then show ?case by simp
next
  case (Cons x xs)
  from Cons.prems(1) obtain a where a: "f x acc = Ok a" "fold_go f xs a = Ok acc'"
    by (auto simp: bind_go_Ok_iff)
  have "I a" by (rule Cons.prems(3) [OF _ Cons.prems(2) a(1)]) simp
  then show ?case
    by (rule Cons.IH [OF a(2)]) (rule Cons.prems(3), simp_all)
qed

lemma fold_go_total:
  assumes "\<And>x a. x \<in> set xs \<Longrightarrow> f x a = Ok (g x a)"
  shows "fold_go f xs acc = Ok (fold g xs acc)"
  using assms by (induction xs arbitrary: acc) auto

lemma fold_go_no_panic:
  assumes "\<And>x a. x \<in> set xs \<Longrightarrow> f x a \<noteq> Panic"
  shows "fold_go f xs acc \<noteq> Panic"
  using assms by (induction xs arbitrary: acc) (auto simp: bind_go_Panic_iff)

text \<open>Indexing a slice panics out of range.\<close>

definition index_go :: "'a list \<Rightarrow> nat \<Rightarrow> ('e, 'a) go" where
  "index_go xs i = (if i < length xs then Ok (xs ! i) else Panic)"

lemma index_go_0 [simp]: "index_go (x # xs) 0 = Ok x"
  by (simp add: index_go_def)

section \<open>Procedures: state, errors and panics\<close>

type_synonym ('s, 'e, 'a) proc = "'s \<Rightarrow> ('e, 'a) go \<times> 's"

definition retP :: "'a \<Rightarrow> ('s, 'e, 'a) proc" where
  "retP x = (\<lambda>s. (Ok x, s))"

definition failP :: "'e \<Rightarrow> ('s, 'e, 'a) proc" where
  "failP e = (\<lambda>s. (Fail e, s))"

definition liftP :: "('e, 'a) go \<Rightarrow> ('s, 'e, 'a) proc" where
  "liftP r = (\<lambda>s. (r, s))"

definition getP :: "('s \<Rightarrow> 'a) \<Rightarrow> ('s, 'e, 'a) proc" where
  "getP f = (\<lambda>s. (Ok (f s), s))"

definition modifyP :: "('s \<Rightarrow> 's) \<Rightarrow> ('s, 'e, unit) proc" where
  "modifyP f = (\<lambda>s. (Ok (), f s))"

definition bindP :: "('s, 'e, 'a) proc \<Rightarrow> ('a \<Rightarrow> ('s, 'e, 'b) proc) \<Rightarrow> ('s, 'e, 'b) proc" where
  "bindP m f = (\<lambda>s. case m s of
     (Ok x, s') \<Rightarrow> f x s'
   | (Fail e, s') \<Rightarrow> (Fail e, s')
   | (Panic, s') \<Rightarrow> (Panic, s'))"

text \<open>\<open>handleP m h\<close> runs the error branch \<open>h\<close> when \<open>m\<close> returns an error.\<close>

definition handleP :: "('s, 'e, 'a) proc \<Rightarrow> ('e \<Rightarrow> ('s, 'f, 'a) proc) \<Rightarrow> ('s, 'f, 'a) proc" where
  "handleP m h = (\<lambda>s. case m s of
     (Ok x, s') \<Rightarrow> (Ok x, s')
   | (Fail e, s') \<Rightarrow> h e s'
   | (Panic, s') \<Rightarrow> (Panic, s'))"

text \<open>\<open>attemptP m\<close> hands the error to the caller as a value.\<close>

definition attemptP :: "('s, 'e, 'a) proc \<Rightarrow> ('s, 'f, 'e + 'a) proc" where
  "attemptP m = (\<lambda>s. case m s of
     (Ok x, s') \<Rightarrow> (Ok (Inr x), s')
   | (Fail e, s') \<Rightarrow> (Ok (Inl e), s')
   | (Panic, s') \<Rightarrow> (Panic, s'))"

fun loopP :: "('a \<Rightarrow> 'b \<Rightarrow> ('s, 'e, 'b) proc) \<Rightarrow> 'a list \<Rightarrow> 'b \<Rightarrow> ('s, 'e, 'b) proc" where
  "loopP f [] acc = retP acc"
| "loopP f (x # xs) acc = bindP (f x acc) (loopP f xs)"

section \<open>Weakest preconditions\<close>

definition wp :: "('s, 'e, 'a) proc \<Rightarrow> (('e, 'a) go \<Rightarrow> 's \<Rightarrow> bool) \<Rightarrow> 's \<Rightarrow> bool" where
  "wp m Q s \<longleftrightarrow> (case m s of (r, s') \<Rightarrow> Q r s')"

named_theorems wp_simps \<open>how the weakest precondition passes a combinator\<close>

lemma wp_ret [wp_simps]: "wp (retP x) Q s = Q (Ok x) s"
  by (simp add: wp_def retP_def)

lemma wp_fail [wp_simps]: "wp (failP e) Q s = Q (Fail e) s"
  by (simp add: wp_def failP_def)

lemma wp_lift [wp_simps]: "wp (liftP r) Q s = Q r s"
  by (simp add: wp_def liftP_def)

lemma wp_get [wp_simps]: "wp (getP f) Q s = Q (Ok (f s)) s"
  by (simp add: wp_def getP_def)

lemma wp_modify [wp_simps]: "wp (modifyP f) Q s = Q (Ok ()) (f s)"
  by (simp add: wp_def modifyP_def)

lemma wp_bind [wp_simps]:
  "wp (bindP m f) Q s = wp m (\<lambda>r s'. case r of
     Ok x \<Rightarrow> wp (f x) Q s' | Fail e \<Rightarrow> Q (Fail e) s' | Panic \<Rightarrow> Q Panic s') s"
  by (simp add: wp_def bindP_def split: prod.splits go.splits)

lemma wp_handle [wp_simps]:
  "wp (handleP m h) Q s = wp m (\<lambda>r s'. case r of
     Ok x \<Rightarrow> Q (Ok x) s' | Fail e \<Rightarrow> wp (h e) Q s' | Panic \<Rightarrow> Q Panic s') s"
  by (simp add: wp_def handleP_def split: prod.splits go.splits)

lemma wp_attempt [wp_simps]:
  "wp (attemptP m) Q s = wp m (\<lambda>r s'. case r of
     Ok x \<Rightarrow> Q (Ok (Inr x)) s' | Fail e \<Rightarrow> Q (Ok (Inl e)) s' | Panic \<Rightarrow> Q Panic s') s"
  by (simp add: wp_def attemptP_def split: prod.splits go.splits)

lemma wp_if [wp_simps]: "wp (if b then m else n) Q s = (if b then wp m Q s else wp n Q s)"
  by simp

lemma wp_mono:
  assumes "wp m Q s" and "\<And>r s'. Q r s' \<Longrightarrow> Q' r s'"
  shows "wp m Q' s"
  using assms by (auto simp: wp_def)

lemma wp_conj: "wp m P s \<Longrightarrow> wp m Q s \<Longrightarrow> wp m (\<lambda>r s'. P r s' \<and> Q r s') s"
  by (auto simp: wp_def)

lemma wpD: "wp m Q s \<Longrightarrow> m s = (r, s') \<Longrightarrow> Q r s'"
  by (simp add: wp_def)

lemma wpI: "(\<And>r s'. m s = (r, s') \<Longrightarrow> Q r s') \<Longrightarrow> wp m Q s"
  by (auto simp: wp_def split: prod.splits)

text \<open>
  A loop keeps an invariant of accumulator and state; an error or a panic in the body
  must establish the postcondition at once.
\<close>

lemma wp_loop:
  assumes "I acc s"
    and step: "\<And>x a s. x \<in> set xs \<Longrightarrow> I a s \<Longrightarrow>
      wp (f x a) (\<lambda>r s'. case r of Ok a' \<Rightarrow> I a' s' | Fail e \<Rightarrow> E e s' | Panic \<Rightarrow> N s') s"
  shows "wp (loopP f xs acc) (\<lambda>r s'. case r of Ok a' \<Rightarrow> I a' s' | Fail e \<Rightarrow> E e s' | Panic \<Rightarrow> N s') s"
  using assms
proof (induction xs arbitrary: acc s)
  case Nil
  then show ?case by (simp add: wp_simps)
next
  case (Cons x xs)
  have "wp (f x acc) (\<lambda>r s'. case r of Ok a' \<Rightarrow> I a' s' | Fail e \<Rightarrow> E e s' | Panic \<Rightarrow> N s') s"
    using Cons.prems by simp
  then show ?case
    unfolding loopP.simps wp_bind
  proof (rule wp_mono)
    fix r s'
    assume *: "case r of Ok a' \<Rightarrow> I a' s' | Fail e \<Rightarrow> E e s' | Panic \<Rightarrow> N s'"
    show "case r of
        Ok y \<Rightarrow> wp (loopP f xs y) (\<lambda>r s'. case r of Ok a' \<Rightarrow> I a' s' | Fail e \<Rightarrow> E e s' | Panic \<Rightarrow> N s') s'
      | Fail e \<Rightarrow> (case Fail e of Ok a' \<Rightarrow> I a' s' | Fail e \<Rightarrow> E e s' | Panic \<Rightarrow> N s')
      | Panic \<Rightarrow> (case Panic of Ok a' \<Rightarrow> I a' s' | Fail e \<Rightarrow> E e s' | Panic \<Rightarrow> N s')"
    proof (cases r)
      case (Ok y)
      with * have "I y s'" by simp
      then show ?thesis
        unfolding Ok go.case by (rule Cons.IH) (rule Cons.prems(2), simp_all)
    qed (use * in simp_all)
  qed
qed

section \<open>First-match search\<close>

text \<open>
  The contract of a loop that returns the first element satisfying a test, or nothing.
  \<open>search\<close> is the operation, \<open>matches\<close> the test for a key.
\<close>

locale first_match =
  fixes search :: "'x list \<Rightarrow> 'k \<Rightarrow> 'x option"
    and matches :: "'k \<Rightarrow> 'x \<Rightarrow> bool"
  assumes search_Nil: "search [] k = None"
    and search_Cons: "search (x # xs) k = (if matches k x then Some x else search xs k)"
begin

lemma search_eq_find: "search xs k = List.find (matches k) xs"
  by (induction xs) (auto simp: search_Nil search_Cons)

lemma search_SomeD: "search xs k = Some x \<Longrightarrow> x \<in> set xs \<and> matches k x"
  by (induction xs) (auto simp: search_Nil search_Cons split: if_splits)

lemma search_None_iff: "search xs k = None \<longleftrightarrow> (\<forall>x \<in> set xs. \<not> matches k x)"
  by (induction xs) (auto simp: search_Nil search_Cons)

lemma search_append:
  "search (xs @ ys) k = (case search xs k of None \<Rightarrow> search ys k | Some x \<Rightarrow> Some x)"
  by (induction xs) (auto simp: search_Nil search_Cons)

lemma search_first:
  assumes "search xs k = Some x"
  shows "\<exists>ys zs. xs = ys @ x # zs \<and> (\<forall>y \<in> set ys. \<not> matches k y)"
  using assms
proof (induction xs)
  case Nil
  then show ?case by (simp add: search_Nil)
next
  case (Cons y xs)
  show ?case
  proof (cases "matches k y")
    case True
    with Cons.prems show ?thesis by (auto simp: search_Cons intro: exI [of _ "[]"])
  next
    case False
    with Cons obtain ys zs where "xs = ys @ x # zs" "\<forall>y \<in> set ys. \<not> matches k y"
      by (auto simp: search_Cons)
    with False have "y # xs = (y # ys) @ x # zs" "\<forall>z \<in> set (y # ys). \<not> matches k z"
      by auto
    then show ?thesis by blast
  qed
qed

lemma search_unique:
  assumes "x \<in> set xs" and "matches k x" and "\<And>y. y \<in> set xs \<Longrightarrow> matches k y \<Longrightarrow> y = x"
  shows "search xs k = Some x"
proof (cases "search xs k")
  case None
  with assms(1,2) show ?thesis by (auto simp: search_None_iff)
next
  case (Some y)
  from search_SomeD [OF Some] assms(3) Some show ?thesis by blast
qed

end

section \<open>Lists\<close>

lemma list_all_snoc: "list_all P (xs @ [x]) \<longleftrightarrow> list_all P xs \<and> P x"
  by simp

lemma append_not_member:
  "xs @ ys = pre @ x # post \<Longrightarrow> x \<notin> set xs \<Longrightarrow> \<exists>mid. pre = xs @ mid \<and> ys = mid @ x # post"
proof (induction xs arbitrary: pre)
  case (Cons z xs)
  then show ?case by (cases pre) auto
qed simp

lemma take_append_same: "take (length xs) (xs @ ys) = xs"
  by simp

end
