(* ===== verification/P2_Strings.thy ===== *)
theory P2_Strings
  imports P2_Prelude
begin

text \<open>
  The parts of Go's \<open>strings\<close>, \<open>strconv\<close> and \<open>regexp\<close> packages the program uses. A Go
  string is a byte sequence, here a list of the 8-bit characters of HOL. Letter case is
  ASCII case, which is what the program applies it to (kinds of Kubernetes objects and
  its own error messages); the upper-casing of a single non-ASCII byte gives the UTF-8
  replacement character, as \<open>strings.ToUpper\<close> does on an invalid sequence.
\<close>

section \<open>Splitting and prefixes\<close>

text \<open>\<open>strings.Split s sep\<close> for a one-byte separator: never empty, parts without the separator.\<close>

fun split_on :: "char \<Rightarrow> string \<Rightarrow> string list" where
  "split_on c [] = [[]]"
| "split_on c (x # xs) =
     (if x = c then [] # split_on c xs
      else (case split_on c xs of [] \<Rightarrow> [[x]] | p # ps \<Rightarrow> (x # p) # ps))"

definition has_prefix :: "string \<Rightarrow> string \<Rightarrow> bool" where
  "has_prefix s p \<longleftrightarrow> take (length p) s = p"

lemma split_on_not_Nil [simp]: "split_on c s \<noteq> []"
  by (induction s) (auto split: list.splits)

lemma split_on_no_sep: "c \<notin> set s \<Longrightarrow> split_on c s = [s]"
  by (induction s) auto

lemma split_on_parts: "p \<in> set (split_on c s) \<Longrightarrow> c \<notin> set p"
proof (induction s arbitrary: p)
  case Nil
  then show ?case by simp
next
  case (Cons x xs)
  then show ?case by (cases "split_on c xs") (auto split: if_splits)
qed

lemma split_on_sep:
  "c \<notin> set k \<Longrightarrow> split_on c (k @ c # v) = k # split_on c v"
  by (induction k) auto

lemma split_on_pair:
  "c \<notin> set k \<Longrightarrow> c \<notin> set v \<Longrightarrow> split_on c (k @ c # v) = [k, v]"
  by (simp add: split_on_sep split_on_no_sep)

lemma split_on_hd: "hd (split_on c s) = takeWhile (\<lambda>x. x \<noteq> c) s"
  by (induction s) (auto split: list.splits simp: hd_def)

lemma length_split_on: "length (split_on c s) = Suc (count_list s c)"
proof (induction s)
  case Nil
  then show ?case by simp
next
  case (Cons x xs)
  then show ?case by (cases "split_on c xs") auto
qed

lemma split_on_single_iff: "length (split_on c s) = 1 \<longleftrightarrow> c \<notin> set s"
  by (simp add: length_split_on count_list_0_iff)

lemma has_prefix_append [simp]: "has_prefix (p @ s) p"
  by (simp add: has_prefix_def)

lemma has_prefix_iff: "has_prefix s p \<longleftrightarrow> (\<exists>r. s = p @ r)"
  by (metis append_take_drop_id has_prefix_append has_prefix_def)

section \<open>Trimming and letter case\<close>

definition trim_right :: "char \<Rightarrow> string \<Rightarrow> string" where
  "trim_right c s = rev (dropWhile (\<lambda>x. x = c) (rev s))"

definition ascii_lower_char :: "char \<Rightarrow> char" where
  "ascii_lower_char c =
     (let n = of_char c :: nat in if 65 \<le> n \<and> n \<le> 90 then char_of (n + 32) else c)"

definition ascii_upper_char :: "char \<Rightarrow> char" where
  "ascii_upper_char c =
     (let n = of_char c :: nat in if 97 \<le> n \<and> n \<le> 122 then char_of (n - 32) else c)"

definition to_lower :: "string \<Rightarrow> string" where
  "to_lower s = map ascii_lower_char s"

text \<open>\<open>strings.ToUpper\<close> of a one-byte string.\<close>

definition to_upper_byte :: "char \<Rightarrow> string" where
  "to_upper_byte c =
     (if (of_char c :: nat) < 128 then [ascii_upper_char c]
      else [char_of (239 :: nat), char_of (191 :: nat), char_of (189 :: nat)])"

lemma trim_right_prefix: "\<exists>r. s = trim_right c s @ r \<and> set r \<subseteq> {c}"
proof -
  have "rev s = takeWhile (\<lambda>x. x = c) (rev s) @ dropWhile (\<lambda>x. x = c) (rev s)"
    by simp
  then have "s = trim_right c s @ rev (takeWhile (\<lambda>x. x = c) (rev s))"
    unfolding trim_right_def by (metis rev_append rev_rev_ident)
  moreover have "set (rev (takeWhile (\<lambda>x. x = c) (rev s))) \<subseteq> {c}"
    by (auto dest: set_takeWhileD)
  ultimately show ?thesis by blast
qed

lemma length_trim_right: "length (trim_right c s) \<le> length s"
  unfolding trim_right_def by (metis length_dropWhile_le length_rev)

lemma trim_right_last: "trim_right c s \<noteq> [] \<Longrightarrow> last (trim_right c s) \<noteq> c"
  by (metis (mono_tags, lifting) Nil_is_rev_conv hd_dropWhile last_rev trim_right_def)

section \<open>Numbers\<close>

definition is_digit :: "char \<Rightarrow> bool" where
  "is_digit c \<longleftrightarrow> 48 \<le> (of_char c :: nat) \<and> (of_char c :: nat) \<le> 57"

definition digit_val :: "char \<Rightarrow> int" where
  "digit_val c = int (of_char c) - 48"

definition digits_val :: "string \<Rightarrow> int" where
  "digits_val ds = fold (\<lambda>c n. 10 * n + digit_val c) ds 0"

definition max_int64 :: int where
  "max_int64 = 9223372036854775807"

text \<open>
  \<open>strconv.Atoi\<close> on a 64-bit platform: an optional sign, at least one decimal digit, and a
  range check on the value; \<open>None\<close> is the returned error.
\<close>

definition atoi :: "string \<Rightarrow> int option" where
  "atoi s =
     (let neg = (s \<noteq> [] \<and> hd s = CHR ''-'');
          ds = (if s \<noteq> [] \<and> (hd s = CHR ''-'' \<or> hd s = CHR ''+'') then tl s else s)
      in if ds = [] \<or> \<not> list_all is_digit ds then None
         else if neg then (if digits_val ds \<le> max_int64 + 1 then Some (- digits_val ds) else None)
         else (if digits_val ds \<le> max_int64 then Some (digits_val ds) else None))"

lemma atoi_digits:
  assumes "ds \<noteq> []" and "list_all is_digit ds"
  shows "atoi ds = (if digits_val ds \<le> max_int64 then Some (digits_val ds) else None)"
proof -
  have "is_digit (hd ds)" using assms by (cases ds) auto
  then have "hd ds \<noteq> CHR ''-''" "hd ds \<noteq> CHR ''+''" by (auto simp: is_digit_def)
  with assms show ?thesis by (simp add: atoi_def Let_def)
qed

lemma digits_val_step: "fold (\<lambda>c n. 10 * n + digit_val c) ds a = a * 10 ^ length ds + digits_val ds"
proof (induction ds arbitrary: a)
  case Nil
  then show ?case by (simp add: digits_val_def)
next
  case (Cons d ds)
  show ?case
    using Cons [of "10 * a + digit_val d"] Cons [of "digit_val d"]
    by (simp add: digits_val_def algebra_simps)
qed

lemma digits_val_bounds:
  assumes "list_all is_digit ds"
  shows "0 \<le> digits_val ds \<and> digits_val ds < 10 ^ length ds"
  using assms
proof (induction ds)
  case Nil
  then show ?case by (simp add: digits_val_def)
next
  case (Cons d ds)
  have d: "0 \<le> digit_val d" "digit_val d \<le> 9"
    using Cons.prems by (auto simp: is_digit_def digit_val_def)
  have eq: "digits_val (d # ds) = digit_val d * 10 ^ length ds + digits_val ds"
    using digits_val_step [of ds "digit_val d"] by (simp add: digits_val_def)
  have IH: "0 \<le> digits_val ds" "digits_val ds < 10 ^ length ds"
    using Cons by auto
  have "digit_val d * 10 ^ length ds \<le> 9 * 10 ^ length ds"
    using d(2) by (simp add: mult_right_mono)
  then have "digits_val (d # ds) < 10 * 10 ^ length ds" using eq IH by linarith
  moreover have "0 \<le> digits_val (d # ds)" using eq IH d(1) by simp
  ultimately show ?case by simp
qed

text \<open>Decimal rendering of a natural number, as \<open>fmt\<close>'s \<open>%d\<close> prints it.\<close>

fun show_nat :: "nat \<Rightarrow> string" where
  "show_nat n =
     (if n < 10 then [char_of (n + 48)] else show_nat (n div 10) @ [char_of (n mod 10 + 48)])"

declare show_nat.simps [simp del]

section \<open>The regular expression of a service reference\<close>

text \<open>The class \<open>[a-z0-9/-]\<close>.\<close>

definition is_service_char :: "char \<Rightarrow> bool" where
  "is_service_char c \<longleftrightarrow>
     (let n = of_char c :: nat in
        (97 \<le> n \<and> n \<le> 122) \<or> (48 \<le> n \<and> n \<le> 57) \<or> c = CHR ''/'' \<or> c = CHR ''-'')"

text \<open>
  \<open>^[a-z0-9/-]+:[0-9]+$\<close>. The class does not hold the colon, so the longest run of the
  class is the only candidate for the first part.
\<close>

definition match_service_port :: "string \<Rightarrow> bool" where
  "match_service_port s =
     (takeWhile is_service_char s \<noteq> [] \<and>
      (case dropWhile is_service_char s of
         [] \<Rightarrow> False
       | c # ds \<Rightarrow> c = CHR '':'' \<and> ds \<noteq> [] \<and> list_all is_digit ds))"

lemma match_service_port_iff:
  "match_service_port s \<longleftrightarrow>
     (\<exists>h ds. s = h @ CHR '':'' # ds \<and> h \<noteq> [] \<and> ds \<noteq> [] \<and>
             list_all is_service_char h \<and> list_all is_digit ds)"
proof
  assume L: "match_service_port s"
  then obtain ds where ds: "dropWhile is_service_char s = CHR '':'' # ds" "ds \<noteq> []" "list_all is_digit ds"
    by (auto simp: match_service_port_def split: list.splits)
  let ?h = "takeWhile is_service_char s"
  have "s = ?h @ CHR '':'' # ds" using ds(1) by (metis takeWhile_dropWhile_id)
  moreover have "list_all is_service_char ?h" by (auto simp: list_all_iff dest: set_takeWhileD)
  moreover have "?h \<noteq> []" using L by (simp add: match_service_port_def)
  ultimately show "\<exists>h ds. s = h @ CHR '':'' # ds \<and> h \<noteq> [] \<and> ds \<noteq> [] \<and>
      list_all is_service_char h \<and> list_all is_digit ds"
    using ds by blast
next
  assume "\<exists>h ds. s = h @ CHR '':'' # ds \<and> h \<noteq> [] \<and> ds \<noteq> [] \<and>
      list_all is_service_char h \<and> list_all is_digit ds"
  then obtain h ds where s: "s = h @ CHR '':'' # ds" "h \<noteq> []" "ds \<noteq> []"
      "list_all is_service_char h" "list_all is_digit ds" by blast
  have "\<not> is_service_char (CHR '':'')" by (simp add: is_service_char_def)
  with s show "match_service_port s"
    by (simp add: match_service_port_def list_all_iff takeWhile_append2 dropWhile_append2)
qed

lemma service_char_not_colon: "list_all is_service_char h \<Longrightarrow> CHR '':'' \<notin> set h"
  by (auto simp: list_all_iff is_service_char_def)

lemma digits_not_colon: "list_all is_digit ds \<Longrightarrow> CHR '':'' \<notin> set ds"
  by (auto simp: list_all_iff is_digit_def)

lemma match_service_port_split:
  assumes "match_service_port s"
  shows "\<exists>h ds. split_on (CHR '':'') s = [h, ds] \<and> h \<noteq> [] \<and> ds \<noteq> [] \<and>
           list_all is_service_char h \<and> list_all is_digit ds"
  using assms unfolding match_service_port_iff
  by (metis digits_not_colon service_char_not_colon split_on_pair)

end
