(* ===== verification/P2_Types.thy ===== *)
theory P2_Types
  imports P2_Strings
begin

text \<open>
  The data of the program: the custom resource of
  \<^verbatim>\<open>api/v1alpha1/p2codeschedulingmanifest_types.go\<close>, the error types of
  \<^verbatim>\<open>internal/controller/errors.go\<close>, the resources and bundles the controller
  computes with, the fields of the Kubernetes, OCM and MultiClusterNetwork objects the
  controller reads or writes, and the two records of library functions it calls (JSON
  decoding and the Kubernetes helper packages). Those functions are not part of the
  repository, so they are parameters of the model.
\<close>

section \<open>Errors\<close>

text \<open>
  An API call fails with an error that \<open>apierrors.IsNotFound\<close> recognises, one that
  \<open>meta.IsNoMatchError\<close> recognises, or another one. \<open>fmt.Errorf("%w", err)\<close> adds nothing to an error, neither to its text nor to what
  \<open>errors.As\<close> finds in it, and is the identity here; a wrap with a text is \<open>Wrapped\<close>.
\<close>

datatype api_error = NotFound string | NoMatch string | ApiError string

datatype go_error =
    MisconfiguredManifestError string
  | ManifestWorkFailedError string
  | ManifestWorkNotReadyError string
  | ResourceNotFoundError string
  | PlainError string
  | Api api_error
  | Wrapped string go_error

fun error_text :: "go_error \<Rightarrow> string" where
  "error_text (MisconfiguredManifestError m) = m"
| "error_text (ManifestWorkFailedError m) = m"
| "error_text (ManifestWorkNotReadyError m) = m"
| "error_text (ResourceNotFoundError m) = m"
| "error_text (PlainError m) = m"
| "error_text (Api (NotFound m)) = m"
| "error_text (Api (NoMatch m)) = m"
| "error_text (Api (ApiError m)) = m"
| "error_text (Wrapped t e) = t @ error_text e"

text \<open>\<open>errors.As(err, &misconfiguredManifestErr)\<close> and its two siblings.\<close>

fun as_misconfigured :: "go_error \<Rightarrow> bool" where
  "as_misconfigured (MisconfiguredManifestError m) = True"
| "as_misconfigured (Wrapped t e) = as_misconfigured e"
| "as_misconfigured e = False"

fun as_work_failed :: "go_error \<Rightarrow> bool" where
  "as_work_failed (ManifestWorkFailedError m) = True"
| "as_work_failed (Wrapped t e) = as_work_failed e"
| "as_work_failed e = False"

fun as_work_not_ready :: "go_error \<Rightarrow> bool" where
  "as_work_not_ready (ManifestWorkNotReadyError m) = True"
| "as_work_not_ready (Wrapped t e) = as_work_not_ready e"
| "as_work_not_ready e = False"

fun is_no_match :: "api_error \<Rightarrow> bool" where
  "is_no_match (NoMatch m) = True"
| "is_no_match e = False"

section \<open>The custom resource\<close>

record workload_annotation =
  wa_name :: string
  wa_annotations :: "string list"

text \<open>
  A manifest (\<open>runtime.RawExtension\<close>) is raw JSON; its type is a parameter \<open>'r\<close> of the
  model and only the decoders below look into it.
\<close>

record 'r p2m_spec =
  global_annotations :: "string list"
  workload_annotations :: "workload_annotation list"
  manifests :: "'r list"

record scheduling_decision =
  workload_name :: string
  cluster_selected :: string

text \<open>\<open>metav1.Condition\<close>; the status is \<open>ConditionTrue\<close> (True), \<open>ConditionFalse\<close> or unknown.\<close>

datatype cond_status = CondTrue | CondFalse | CondUnknown

record condition =
  cond_type :: string
  cond_status :: cond_status
  cond_reason :: string
  cond_message :: string

record p2m_status =
  conditions :: "condition list"
  decisions :: "scheduling_decision list"
  state :: string

record 'r p2m =
  p2m_name :: string
  p2m_namespace :: string
  p2m_deleting :: bool
  p2m_finalizers :: "string list"
  p2m_spec :: "'r p2m_spec"
  p2m_status :: p2m_status

record namespaced_name =
  nn_namespace :: string
  nn_name :: string

section \<open>Resources and bundles\<close>

record group_version_kind =
  gvk_group :: string
  gvk_version :: string
  gvk_kind :: string

record basic_resource_info =
  bri_name :: string
  bri_kind :: string

record manifest_metadata =
  md_name :: string
  md_namespace :: string
  md_gvk :: group_version_kind
  md_labels :: "string \<rightharpoonup> string"

record 'r resource =
  res_metadata :: manifest_metadata
  res_annotations :: "string list"
  res_manifest :: 'r

type_synonym 'r resource_set = "'r resource list"
type_synonym absent_resource_set = "basic_resource_info list"

abbreviation res_name :: "'r resource \<Rightarrow> string" where
  "res_name r \<equiv> md_name (res_metadata r)"

abbreviation res_namespace :: "'r resource \<Rightarrow> string" where
  "res_namespace r \<equiv> md_namespace (res_metadata r)"

abbreviation res_gvk :: "'r resource \<Rightarrow> group_version_kind" where
  "res_gvk r \<equiv> md_gvk (res_metadata r)"

abbreviation res_kind :: "'r resource \<Rightarrow> string" where
  "res_kind r \<equiv> gvk_kind (res_gvk r)"

record service_port_pair =
  spp_service :: string
  spp_port :: int

text \<open>\<open>metav1.LabelSelectorRequirement\<close>; a slice of them can be nil (\<open>None\<close>) or not.\<close>

record requirement =
  req_key :: string
  req_operator :: string
  req_values :: "string list"

type_synonym requirements = "requirement list option"

record scheduling_details =
  placement_requests :: requirements
  cluster_name :: string
  resource_name :: string

record 'r workload_bundle =
  bundle_name :: string
  bundle_resources :: "'r resource_set"
  absent_resources :: absent_resource_set
  external_connections :: "service_port_pair list"
  scheduling_details :: scheduling_details

type_synonym 'r bundle_list = "'r workload_bundle list"

section \<open>Network links\<close>

record location =
  loc_cluster :: string
  loc_namespace :: string

record network_connection =
  nc_service :: service_port_pair
  nc_source :: location
  nc_target :: location

text \<open>\<open>MultiClusterLink\<close> and \<open>MultiClusterNetwork\<close> of the AC3 network operator.\<close>

record link_service =
  svc_name :: string
  svc_port :: int

record multi_cluster_link =
  source_cluster :: string
  source_namespace :: string
  target_cluster :: string
  target_namespace :: string
  link_services :: "link_service list"

record multi_cluster_network =
  mcn_name :: string
  mcn_namespace :: string
  mcn_links :: "multi_cluster_link list"

section \<open>Open Cluster Management objects\<close>

record placement =
  pl_name :: string
  pl_namespace :: string
  pl_owners :: "string list"
  pl_number_of_clusters :: "nat option"
  pl_cluster_sets :: "string list"
  pl_predicates :: "requirement list list"
  pl_conditions :: "condition list"
  pl_decision_groups :: "string list list"

record placement_decision =
  pd_name :: string
  pd_cluster_names :: "string list"

record manifest_config =
  mc_group :: string
  mc_resource :: string
  mc_name :: string
  mc_namespace :: string
  mc_strategy :: string

record 'r work_spec =
  work_manifests :: "'r list"
  work_configs :: "manifest_config list"

record 'r manifest_work =
  work_name :: string
  work_namespace :: string
  work_labels :: "(string \<times> string) list"
  work_spec :: "'r work_spec"
  work_status :: "condition list list"

record managed_cluster =
  mcl_name :: string

record cluster_set_binding =
  csb_cluster_set :: string

text \<open>The zero values a failed read leaves behind.\<close>

definition zero_placement :: placement where
  "zero_placement = \<lparr>pl_name = [], pl_namespace = [], pl_owners = [],
     pl_number_of_clusters = None, pl_cluster_sets = [], pl_predicates = [],
     pl_conditions = [], pl_decision_groups = []\<rparr>"

definition zero_work :: "'r manifest_work" where
  "zero_work = \<lparr>work_name = [], work_namespace = [], work_labels = [],
     work_spec = \<lparr>work_manifests = [], work_configs = []\<rparr>, work_status = []\<rparr>"

section \<open>Kubernetes objects, as far as the analysis reads them\<close>

record env_from_source =
  ef_config_map :: "string option"
  ef_secret :: "string option"

record env_var_source =
  vf_config_map :: "string option"
  vf_secret :: "string option"

record env_var =
  ev_value :: string
  ev_value_from :: "env_var_source option"

record container =
  c_env_from :: "env_from_source list"
  c_env :: "env_var list"

record volume =
  vol_pvc :: "string option"
  vol_config_map :: "string option"
  vol_secret :: "string option"

record pod_spec =
  image_pull_secrets :: "string list"
  volumes :: "volume list"
  service_account_name :: string
  containers :: "container list"
  init_containers :: "container list"

record pod_template_spec =
  pt_labels :: "string \<rightharpoonup> string"
  pt_spec :: pod_spec

record subject =
  sub_kind :: string
  sub_name :: string
  sub_namespace :: string

record role_binding =
  rb_subjects :: "subject list"
  rb_role_kind :: string
  rb_role_name :: string

text \<open>An ingress rule: \<open>None\<close> for a nil \<open>HTTP\<close>, else each path's backend service, if any.\<close>

type_synonym ingress_rule = "string option list option"

record object_ref =
  ref_kind :: string
  ref_name :: string
  ref_api_version :: string

record selector_expression =
  se_key :: string
  se_operator :: string
  se_values :: "string list"

record label_selector =
  match_labels :: "(string \<times> string) list"
  match_expressions :: "selector_expression list"

section \<open>Library functions the code calls\<close>

text \<open>
  The JSON decoders, one for each type the code unmarshals into; \<open>Inl\<close> is the error. A
  Go map read by \<open>range\<close> (a service selector, \<open>matchLabels\<close>) is the list of its entries
  in the order of that iteration.
\<close>

record 'r codec =
  dec_unstructured :: "'r \<Rightarrow> string + manifest_metadata"
  dec_pod :: "'r \<Rightarrow> string + pod_template_spec"
  dec_deployment :: "'r \<Rightarrow> string + pod_template_spec"
  dec_stateful_set :: "'r \<Rightarrow> string + (string \<times> pod_template_spec)"
  dec_daemon_set :: "'r \<Rightarrow> string + pod_template_spec"
  dec_job :: "'r \<Rightarrow> string + pod_template_spec"
  dec_cron_job :: "'r \<Rightarrow> string + pod_template_spec"
  dec_service :: "'r \<Rightarrow> string + (string \<times> string) list"
  dec_cluster_role_binding :: "'r \<Rightarrow> string + role_binding"
  dec_role_binding :: "'r \<Rightarrow> string + role_binding"
  dec_ingress :: "'r \<Rightarrow> string + ingress_rule list"
  dec_route :: "'r \<Rightarrow> string + object_ref"
  dec_service_monitor :: "'r \<Rightarrow> string + label_selector"
  dec_hpa :: "'r \<Rightarrow> string + object_ref"

text \<open>
  Functions of the Kubernetes, controller-runtime, strcase and AC3 packages:
  \<open>validation.IsQualifiedName\<close> (its list of errors), \<open>GroupVersion.String\<close>,
  \<open>labels.Parse\<close> of a selector text (the one requirement parsed, or the error), the
  constant \<open>clusterv1beta2.ClusterSetLabel\<close>, \<open>strcase.ToCamel\<close>, the finalizer helpers of
  \<open>controllerutil\<close> (\<open>None\<close> when they report no change), \<open>ctrl.SetControllerReference\<close>,
  \<open>meta.SetStatusCondition\<close>, \<open>meta.FindStatusCondition\<close>, and the methods \<open>GetService\<close>
  and \<open>AddService\<close> of a MultiClusterLink.
\<close>

record lib =
  is_qualified_name :: "string \<Rightarrow> string list"
  group_version_string :: "string \<Rightarrow> string \<Rightarrow> string"
  parse_selector :: "string \<Rightarrow> string + (string \<times> string)"
  cluster_set_label :: string
  to_camel :: "string \<Rightarrow> string"
  contains_finalizer :: "string list \<Rightarrow> string \<Rightarrow> bool"
  add_finalizer :: "string list \<Rightarrow> string \<Rightarrow> string list option"
  remove_finalizer :: "string list \<Rightarrow> string \<Rightarrow> string list option"
  set_controller_reference :: "string \<Rightarrow> placement \<Rightarrow> string + placement"
  set_status_condition :: "condition list \<Rightarrow> condition \<Rightarrow> condition list"
  find_status_condition :: "condition list \<Rightarrow> string \<Rightarrow> condition option"
  get_service :: "multi_cluster_link \<Rightarrow> string \<Rightarrow> int \<times> link_service option"
  add_service :: "multi_cluster_link \<Rightarrow> link_service \<Rightarrow> multi_cluster_link"

text \<open>The Go idiom \<open>if err := json.Unmarshal(...); err != nil { return ..., err }\<close>.\<close>

definition unmarshal :: "(string + 'a) \<Rightarrow> (go_error, 'a) go" where
  "unmarshal r = (case r of Inl e \<Rightarrow> Fail (PlainError e) | Inr x \<Rightarrow> Ok x)"

lemma unmarshal_simps [simp]:
  "unmarshal (Inl e) = Fail (PlainError e)"
  "unmarshal (Inr x) = Ok x"
  by (simp_all add: unmarshal_def)

lemma unmarshal_not_Panic [simp]: "unmarshal r \<noteq> Panic"
  by (cases r) auto

lemma unmarshal_Ok_iff [simp]: "unmarshal r = Ok x \<longleftrightarrow> r = Inr x"
  by (cases r) auto

end
