(* ===== verification/P2_ResourceSet.thy ===== *)
theory P2_ResourceSet
  imports P2_Types "HOL-Library.List_Lexorder" "HOL-Library.Char_ord"
begin

text \<open>
  \<^verbatim>\<open>internal/controller/resourceset.go\<close>: resources, the resource set with its
  de-duplicating \<open>Add\<close>, the lookups, and the conversion of the manifests of the custom
  resource with the checks on each manifest's metadata. A \<open>ResourceSet\<close> is a slice of
  pointers that are pairwise distinct, so it is modelled by the list of the resources.
  The two contracts other components rely on are locales: \<open>keyed_collection\<close> for \<open>Add\<close>
  and \<open>first_match\<close> for the lookups.
\<close>

section \<open>Keys of resources\<close>

datatype resource_key = RKey (rk_name: string) (rk_namespace: string) (rk_kind: string)

instantiation resource_key :: linorder
begin

definition less_eq_resource_key :: "resource_key \<Rightarrow> resource_key \<Rightarrow> bool" where
  "less_eq_resource_key a b \<longleftrightarrow>
     rk_name a < rk_name b \<or>
     (rk_name a = rk_name b \<and>
      (rk_namespace a < rk_namespace b \<or>
       (rk_namespace a = rk_namespace b \<and> rk_kind a \<le> rk_kind b)))"

definition less_resource_key :: "resource_key \<Rightarrow> resource_key \<Rightarrow> bool" where
  "less_resource_key a b \<longleftrightarrow> a \<le> b \<and> \<not> b \<le> (a :: resource_key)"

instance
proof
  fix x y z :: resource_key
  show "x < y \<longleftrightarrow> x \<le> y \<and> \<not> y \<le> x" by (rule less_resource_key_def)
  show "x \<le> x" by (simp add: less_eq_resource_key_def)
  show "x \<le> y \<Longrightarrow> y \<le> z \<Longrightarrow> x \<le> z" by (auto simp: less_eq_resource_key_def)
  show "x \<le> y \<Longrightarrow> y \<le> x \<Longrightarrow> x = y"
    by (cases x; cases y) (auto simp: less_eq_resource_key_def)
  show "x \<le> y \<or> y \<le> x" by (auto simp: less_eq_resource_key_def)
qed

end

definition metadata_key :: "manifest_metadata \<Rightarrow> resource_key" where
  "metadata_key m = RKey (md_name m) (md_namespace m) (gvk_kind (md_gvk m))"

definition resource_key :: "'r resource \<Rightarrow> resource_key" where
  "resource_key r = metadata_key (res_metadata r)"

section \<open>Resources\<close>

definition is_workload :: "'r resource \<Rightarrow> bool" where
  "is_workload r =
     (let group = gvk_group (res_gvk r); kind = gvk_kind (res_gvk r)
      in if group = ''apps'' then True
         else if group = '''' \<and> kind = ''Pod'' then True
         else if group = ''batch'' then True
         else False)"

definition resource_equals :: "'r resource \<Rightarrow> 'r resource \<Rightarrow> bool" where
  "resource_equals r1 r2 \<longleftrightarrow>
     res_name r1 = res_name r2 \<and> res_namespace r1 = res_namespace r2 \<and> res_kind r1 = res_kind r2"

lemma resource_equals_key: "resource_equals r1 r2 \<longleftrightarrow> resource_key r1 = resource_key r2"
  by (simp add: resource_equals_def resource_key_def metadata_key_def)

section \<open>The resource set\<close>

fun rs_add :: "'r resource_set \<Rightarrow> 'r resource \<Rightarrow> 'r resource_set" where
  "rs_add rs r = (if list_ex (\<lambda>x. resource_equals x r) rs then rs else rs @ [r])"

fun rs_merge :: "'r resource_set \<Rightarrow> 'r resource_set \<Rightarrow> 'r resource_set" where
  "rs_merge rs [] = rs"
| "rs_merge rs (r # others) = rs_merge (rs_add rs r) others"

fun filter_by_kind :: "'r resource_set \<Rightarrow> string \<Rightarrow> 'r resource_set" where
  "filter_by_kind [] kind = []"
| "filter_by_kind (r # rs) kind =
     (if res_kind r = kind then r # filter_by_kind rs kind else filter_by_kind rs kind)"

fun first_named :: "'r resource_set \<Rightarrow> string \<Rightarrow> 'r resource option" where
  "first_named [] name = None"
| "first_named (r # rs) name = (if res_name r = name then Some r else first_named rs name)"

definition rs_find :: "'r resource_set \<Rightarrow> string \<Rightarrow> string \<Rightarrow> (go_error, 'r resource) go" where
  "rs_find rs name kind = (case first_named (filter_by_kind rs kind) name of
     Some r \<Rightarrow> Ok r
   | None \<Rightarrow> Fail (ResourceNotFoundError
       (''cannot find a resource of type '' @ kind @ '' with the name '' @ name)))"

fun workload_search :: "'r resource_set \<Rightarrow> string \<Rightarrow> 'r resource option" where
  "workload_search [] name = None"
| "workload_search (r # rs) name =
     (if res_name r = name \<and> is_workload r then Some r else workload_search rs name)"

definition find_workload :: "'r resource_set \<Rightarrow> string \<Rightarrow> (go_error, 'r resource) go" where
  "find_workload rs name = (case workload_search rs name of
     Some r \<Rightarrow> Ok r
   | None \<Rightarrow> Fail (ResourceNotFoundError (''cannot find a workload resource with the name '' @ name)))"

definition categorise :: "'r resource_set \<Rightarrow> 'r resource_set \<times> 'r resource_set" where
  "categorise rs = (filter is_workload rs, filter (\<lambda>r. \<not> is_workload r) rs)"

definition absent_register :: "absent_resource_set \<Rightarrow> string \<Rightarrow> string \<Rightarrow> absent_resource_set" where
  "absent_register rs name kind = rs @ [\<lparr>bri_name = name, bri_kind = kind\<rparr>]"

definition absent_merge :: "absent_resource_set \<Rightarrow> absent_resource_set \<Rightarrow> absent_resource_set" where
  "absent_merge rs others = rs @ others"

section \<open>Which manifests are accepted\<close>

record supported_api_group =
  sag_api_version :: string
  sag_allowed :: "string list"
  sag_blocked :: "string list"

definition is_resource_allowed :: "supported_api_group \<Rightarrow> group_version_kind \<Rightarrow> bool" where
  "is_resource_allowed g gvk =
     (if sag_allowed g = [] \<and> sag_blocked g = [] then True
      else if sag_allowed g \<noteq> [] \<and> sag_blocked g \<noteq> []
      then gvk_kind gvk \<in> set (sag_allowed g) \<or> gvk_kind gvk \<notin> set (sag_blocked g)
      else if sag_allowed g \<noteq> [] \<and> sag_blocked g = []
      then gvk_kind gvk \<in> set (sag_allowed g)
      else if sag_allowed g = [] \<and> sag_blocked g \<noteq> []
      then gvk_kind gvk \<notin> set (sag_blocked g)
      else False)"

definition supported_api_groups :: "supported_api_group list" where
  "supported_api_groups =
     [\<lparr>sag_api_version = ''v1'', sag_allowed = [], sag_blocked = [''PersistentVolume'']\<rparr>,
      \<lparr>sag_api_version = ''apps/v1'', sag_allowed = [], sag_blocked = []\<rparr>,
      \<lparr>sag_api_version = ''batch/v1'', sag_allowed = [], sag_blocked = []\<rparr>,
      \<lparr>sag_api_version = ''rbac.authorization.k8s.io/v1'', sag_allowed = [], sag_blocked = []\<rparr>,
      \<lparr>sag_api_version = ''authorization.openshift.io/v1'', sag_allowed = [], sag_blocked = []\<rparr>,
      \<lparr>sag_api_version = ''route.openshift.io/v1'', sag_allowed = [], sag_blocked = []\<rparr>,
      \<lparr>sag_api_version = ''networking.k8s.io/v1'', sag_allowed = [], sag_blocked = []\<rparr>,
      \<lparr>sag_api_version = ''autoscaling/v2'', sag_allowed = [], sag_blocked = []\<rparr>,
      \<lparr>sag_api_version = ''monitoring.coreos.com/v1'', sag_allowed = [''ServiceMonitor''],
        sag_blocked = []\<rparr>]"

definition is_supported_resource :: "lib \<Rightarrow> manifest_metadata \<Rightarrow> bool" where
  "is_supported_resource L m =
     (let gvk = md_gvk m; version = group_version_string L (gvk_group gvk) (gvk_version gvk)
      in list_ex (\<lambda>g. sag_api_version g = version \<and> is_resource_allowed g gvk) supported_api_groups)"

definition has_namespace :: "manifest_metadata \<Rightarrow> bool" where
  "has_namespace m =
     (if md_namespace m = '''' \<and>
         gvk_kind (md_gvk m) \<in> set [''Namespace'', ''ClusterRole'', ''ClusterRoleBinding'']
      then True
      else md_namespace m \<noteq> '''')"

definition metadata_is_valid :: "lib \<Rightarrow> manifest_metadata \<Rightarrow> (go_error, unit) go" where
  "metadata_is_valid L m =
     (if \<not> is_supported_resource L m
      then Fail (MisconfiguredManifestError
        (''unsupported manifest: the cluster admin is responsible for managing ''
         @ to_lower (gvk_kind (md_gvk m)) @ '' resources''))
      else if \<not> has_namespace m
      then Fail (MisconfiguredManifestError
        (''invalid manifest: missing namespace for '' @ to_lower (gvk_kind (md_gvk m))
         @ '' with the name '' @ md_name m))
      else Ok ())"

definition bulk_convert_step ::
    "'r codec \<Rightarrow> lib \<Rightarrow> 'r \<Rightarrow> 'r resource_set \<Rightarrow> (go_error, 'r resource_set) go" where
  "bulk_convert_step C L manifest resources =
     bind_go (unmarshal (dec_unstructured C manifest)) (\<lambda>metadata.
     bind_go (metadata_is_valid L metadata) (\<lambda>_.
     Ok (rs_add resources
       \<lparr>res_metadata = metadata, res_annotations = [], res_manifest = manifest\<rparr>)))"

definition bulk_convert_to_resource_set ::
    "'r codec \<Rightarrow> lib \<Rightarrow> 'r list \<Rightarrow> (go_error, 'r resource_set) go" where
  "bulk_convert_to_resource_set C L ms = fold_go (bulk_convert_step C L) ms []"

section \<open>The contract of \<open>Add\<close>\<close>

text \<open>
  A collection that keeps at most one element per key: adding an element whose key is
  present changes nothing, adding another one appends it. \<open>merge\<close> is a sequence of
  additions.
\<close>

locale keyed_collection =
  fixes add :: "'x list \<Rightarrow> 'x \<Rightarrow> 'x list"
    and merge :: "'x list \<Rightarrow> 'x list \<Rightarrow> 'x list"
    and key :: "'x \<Rightarrow> 'k"
  assumes add_present: "key x \<in> key ` set xs \<Longrightarrow> add xs x = xs"
    and add_absent: "key x \<notin> key ` set xs \<Longrightarrow> add xs x = xs @ [x]"
    and merge_Nil: "merge xs [] = xs"
    and merge_Cons: "merge xs (y # ys) = merge (add xs y) ys"
begin

lemma keys_add: "key ` set (add xs x) = insert (key x) (key ` set xs)"
  by (cases "key x \<in> key ` set xs") (auto simp: add_present add_absent)

lemma set_add: "set (add xs x) \<subseteq> insert x (set xs)"
  by (cases "key x \<in> key ` set xs") (auto simp: add_present add_absent)

lemma set_add_mono: "set xs \<subseteq> set (add xs x)"
  by (cases "key x \<in> key ` set xs") (auto simp: add_present add_absent)

lemma distinct_add: "distinct (map key xs) \<Longrightarrow> distinct (map key (add xs x))"
  by (cases "key x \<in> key ` set xs") (auto simp: add_present add_absent)

lemma add_idem: "add (add xs x) x = add xs x"
  by (rule add_present) (simp add: keys_add)

lemma keys_merge: "key ` set (merge xs ys) = key ` set xs \<union> key ` set ys"
  by (induction ys arbitrary: xs) (auto simp: merge_Nil merge_Cons keys_add)

lemma set_merge: "set (merge xs ys) \<subseteq> set xs \<union> set ys"
proof (induction ys arbitrary: xs)
  case (Cons y ys)
  then show ?case using set_add [of xs y] by (fastforce simp: merge_Cons)
qed (simp add: merge_Nil)

lemma set_merge_mono: "set xs \<subseteq> set (merge xs ys)"
proof (induction ys arbitrary: xs)
  case (Cons y ys)
  then show ?case using set_add_mono [of xs y] by (fastforce simp: merge_Cons)
qed (simp add: merge_Nil)

lemma distinct_merge: "distinct (map key xs) \<Longrightarrow> distinct (map key (merge xs ys))"
  by (induction ys arbitrary: xs) (auto simp: merge_Nil merge_Cons distinct_add)

lemma merge_absorb: "key ` set ys \<subseteq> key ` set xs \<Longrightarrow> merge xs ys = xs"
  by (induction ys) (auto simp: merge_Nil merge_Cons add_present)

lemma merge_append: "merge xs (ys @ zs) = merge (merge xs ys) zs"
  by (induction ys arbitrary: xs) (auto simp: merge_Nil merge_Cons)

lemma merge_fresh:
  "distinct (map key ys) \<Longrightarrow> key ` set ys \<inter> key ` set xs = {} \<Longrightarrow> merge xs ys = xs @ ys"
proof (induction ys arbitrary: xs)
  case (Cons y ys)
  then have "add xs y = xs @ [y]" by (intro add_absent) auto
  moreover have "key ` set ys \<inter> key ` set (xs @ [y]) = {}" using Cons.prems by auto
  ultimately show ?case using Cons by (simp add: merge_Cons)
qed (simp add: merge_Nil)

end

lemma rs_add_list_ex: "list_ex (\<lambda>x. resource_equals x r) rs \<longleftrightarrow> resource_key r \<in> resource_key ` set rs"
  by (auto simp: list_ex_iff resource_equals_key image_iff eq_commute)

interpretation rset: keyed_collection rs_add rs_merge resource_key
  by unfold_locales (simp_all add: rs_add_list_ex)

declare rs_add.simps [simp del]

interpretation named: first_match first_named "\<lambda>name r. res_name r = name"
  by unfold_locales simp_all

interpretation workload: first_match workload_search "\<lambda>name r. res_name r = name \<and> is_workload r"
  by unfold_locales simp_all

section \<open>Lookups\<close>

lemma filter_by_kind_filter: "filter_by_kind rs kind = filter (\<lambda>r. res_kind r = kind) rs"
  by (induction rs) auto

lemma set_filter_by_kind [simp]:
  "set (filter_by_kind rs kind) = {r \<in> set rs. res_kind r = kind}"
  by (auto simp: filter_by_kind_filter)

lemma rs_find_OkD: "rs_find rs name kind = Ok r \<Longrightarrow> r \<in> set rs \<and> res_name r = name \<and> res_kind r = kind"
  by (auto simp: rs_find_def split: option.splits dest: named.search_SomeD)

lemma rs_find_not_Panic [simp]: "rs_find rs name kind \<noteq> Panic"
  by (auto simp: rs_find_def split: option.splits)

lemma rs_find_Ok_iff:
  "(\<exists>r. rs_find rs name kind = Ok r) \<longleftrightarrow> (\<exists>r \<in> set rs. res_name r = name \<and> res_kind r = kind)"
proof -
  have "(\<exists>r. rs_find rs name kind = Ok r) \<longleftrightarrow> first_named (filter_by_kind rs kind) name \<noteq> None"
    by (auto simp: rs_find_def split: option.splits)
  also have "\<dots> \<longleftrightarrow> (\<exists>r \<in> set rs. res_name r = name \<and> res_kind r = kind)"
    by (auto simp: named.search_None_iff)
  finally show ?thesis .
qed

lemma rs_find_Fail_iff:
  "(\<exists>e. rs_find rs name kind = Fail e) \<longleftrightarrow> \<not> (\<exists>r \<in> set rs. res_name r = name \<and> res_kind r = kind)"
proof -
  have "(\<exists>e. rs_find rs name kind = Fail e) \<longleftrightarrow> \<not> (\<exists>r. rs_find rs name kind = Ok r)"
    by (cases "rs_find rs name kind") auto
  then show ?thesis by (simp add: rs_find_Ok_iff)
qed

lemma find_workload_OkD:
  "find_workload rs name = Ok r \<Longrightarrow> r \<in> set rs \<and> res_name r = name \<and> is_workload r"
  by (auto simp: find_workload_def split: option.splits dest: workload.search_SomeD)

lemma find_workload_not_Panic [simp]: "find_workload rs name \<noteq> Panic"
  by (auto simp: find_workload_def split: option.splits)

section \<open>Conversion of the manifests\<close>

lemma metadata_is_valid_not_Panic [simp]: "metadata_is_valid L m \<noteq> Panic"
  by (simp add: metadata_is_valid_def)

lemma metadata_is_valid_Ok_iff:
  "metadata_is_valid L m = Ok () \<longleftrightarrow> is_supported_resource L m \<and> has_namespace m"
  by (simp add: metadata_is_valid_def)

lemma metadata_is_valid_misconfigured: "metadata_is_valid L m = Fail e \<Longrightarrow> as_misconfigured e"
  by (auto simp: metadata_is_valid_def split: if_splits)

lemma bulk_convert_step_Ok_iff:
  "bulk_convert_step C L m rs = Ok rs' \<longleftrightarrow>
     (\<exists>md. dec_unstructured C m = Inr md \<and> metadata_is_valid L md = Ok () \<and>
           rs' = rs_add rs \<lparr>res_metadata = md, res_annotations = [], res_manifest = m\<rparr>)"
  by (auto simp: bulk_convert_step_def bind_go_Ok_iff)

lemma bulk_convert_not_Panic [simp]: "bulk_convert_to_resource_set C L ms \<noteq> Panic"
  unfolding bulk_convert_to_resource_set_def
  by (rule fold_go_no_panic) (auto simp: bulk_convert_step_def bind_go_Panic_iff)

text \<open>What every converted resource is, and that no two have the same key.\<close>

lemma bulk_convert_sound:
  assumes "bulk_convert_to_resource_set C L ms = Ok rs"
  shows "distinct (map resource_key rs) \<and>
    (\<forall>r \<in> set rs. res_manifest r \<in> set ms \<and> res_annotations r = [] \<and>
       dec_unstructured C (res_manifest r) = Inr (res_metadata r) \<and>
       metadata_is_valid L (res_metadata r) = Ok ())"
proof -
  let ?I = "\<lambda>rs. distinct (map resource_key rs) \<and>
    (\<forall>r \<in> set rs. res_manifest r \<in> set ms \<and> res_annotations r = [] \<and>
       dec_unstructured C (res_manifest r) = Inr (res_metadata r) \<and>
       metadata_is_valid L (res_metadata r) = Ok ())"
  show ?thesis
  proof (rule fold_go_invariant [OF assms [unfolded bulk_convert_to_resource_set_def], of ?I])
    fix m acc acc'
    assume m: "m \<in> set ms" and I: "?I acc" and step: "bulk_convert_step C L m acc = Ok acc'"
    from step obtain md where md: "dec_unstructured C m = Inr md" "metadata_is_valid L md = Ok ()"
      and acc': "acc' = rs_add acc \<lparr>res_metadata = md, res_annotations = [], res_manifest = m\<rparr>"
      by (auto simp: bulk_convert_step_Ok_iff)
    have "set acc' \<subseteq> insert \<lparr>res_metadata = md, res_annotations = [], res_manifest = m\<rparr> (set acc)"
      unfolding acc' by (rule rset.set_add)
    with I m md show "?I acc'"
      using rset.distinct_add [of acc] by (auto simp: acc')
  qed simp
qed

text \<open>No manifest is lost: the key of each is the key of a converted resource.\<close>

lemma bulk_convert_complete_from:
  assumes "fold_go (bulk_convert_step C L) ms acc = Ok rs"
  shows "resource_key ` set rs = resource_key ` set acc \<union>
    {metadata_key md | md. \<exists>m \<in> set ms. dec_unstructured C m = Inr md}"
  using assms
proof (induction ms arbitrary: acc)
  case Nil
  then show ?case by simp
next
  case (Cons m ms)
  from Cons.prems obtain md acc' where md: "dec_unstructured C m = Inr md"
    and acc': "acc' = rs_add acc \<lparr>res_metadata = md, res_annotations = [], res_manifest = m\<rparr>"
    and rest: "fold_go (bulk_convert_step C L) ms acc' = Ok rs"
    by (auto simp: bind_go_Ok_iff bulk_convert_step_Ok_iff)
  have "resource_key ` set acc' = insert (metadata_key md) (resource_key ` set acc)"
    unfolding acc' rset.keys_add by (simp add: resource_key_def)
  with Cons.IH [OF rest] md show ?case by auto
qed

lemma bulk_convert_complete:
  assumes "bulk_convert_to_resource_set C L ms = Ok rs" and "m \<in> set ms"
  shows "\<exists>md. dec_unstructured C m = Inr md \<and>
    metadata_key md \<in> resource_key ` set rs"
proof -
  have all: "\<exists>md. dec_unstructured C m = Inr md"
    using assms unfolding bulk_convert_to_resource_set_def
  proof (induction ms arbitrary: rs rule: rev_induct)
    case (snoc x xs)
    then show ?case
      by (auto simp: fold_go_append bind_go_Ok_iff bulk_convert_step_Ok_iff)
  qed simp
  with assms(2) bulk_convert_complete_from [OF assms(1) [unfolded bulk_convert_to_resource_set_def]]
  show ?thesis by auto
qed

end
