(* ===== verification/P2_Annotations.thy ===== *)
theory P2_Annotations
  imports P2_ResourceSet
begin

text \<open>
  \<^verbatim>\<open>internal/controller/annotations.go\<close>: which annotations are supported, the target
  annotations, and the placement rules of the filter annotations. \<open>splitAnnotation[1]\<close> of
  an annotation without an equals sign is an index out of range, a panic.
\<close>

definition filter_prefix :: string where
  "filter_prefix = ''p2code.filter''"

definition target_cluster_set_key :: string where
  "target_cluster_set_key = ''p2code.target.managedClusterSet''"

definition target_cluster_key :: string where
  "target_cluster_key = ''p2code.target.cluster''"

lemmas annotation_keys = filter_prefix_def target_cluster_set_key_def target_cluster_key_def

definition is_annotation_supported :: "string \<Rightarrow> bool" where
  "is_annotation_supported s =
     (let key = hd (split_on (CHR ''='') s)
      in key = target_cluster_key \<or> key = target_cluster_set_key \<or> has_prefix key filter_prefix)"

fun first_unsupported :: "string list \<Rightarrow> string option" where
  "first_unsupported [] = None"
| "first_unsupported (a # as) = (if \<not> is_annotation_supported a then Some a else first_unsupported as)"

fun first_unsupported_workload :: "workload_annotation list \<Rightarrow> string option" where
  "first_unsupported_workload [] = None"
| "first_unsupported_workload (w # ws) = (case first_unsupported (wa_annotations w) of
     Some a \<Rightarrow> Some a
   | None \<Rightarrow> first_unsupported_workload ws)"

definition validate_annotations_supported :: "'r p2m \<Rightarrow> (go_error, unit) go" where
  "validate_annotations_supported m =
     (case first_unsupported (global_annotations (p2m_spec m)) of
        Some a \<Rightarrow> Fail (PlainError (a @ '' is an unsupported annotation''))
      | None \<Rightarrow>
        (case first_unsupported_workload (workload_annotations (p2m_spec m)) of
           Some a \<Rightarrow> Fail (PlainError (a @ '' is an unsupported annotation''))
         | None \<Rightarrow> Ok ()))"

definition placement_rule_step ::
    "string \<Rightarrow> requirement list \<Rightarrow> (go_error, requirement list) go" where
  "placement_rule_step annotation rules =
     (let parts = split_on (CHR ''='') annotation
      in if has_prefix (hd parts) filter_prefix
         then bind_go (index_go parts 1) (\<lambda>value.
           Ok (rules @ [\<lparr>req_key = hd parts, req_operator = ''In'', req_values = [value]\<rparr>]))
         else Ok rules)"

definition extract_placement_rules :: "string list \<Rightarrow> (go_error, requirement list) go" where
  "extract_placement_rules annotations = fold_go placement_rule_step annotations []"

definition target_step ::
    "string \<Rightarrow> string \<times> string \<Rightarrow> (go_error, string \<times> string) go" where
  "target_step annotation t =
     (let parts = split_on (CHR ''='') annotation
      in if hd parts = target_cluster_set_key
         then bind_go (index_go parts 1) (\<lambda>v. Ok (v, snd t))
         else if hd parts = target_cluster_key
         then bind_go (index_go parts 1) (\<lambda>v. Ok (fst t, v))
         else Ok t)"

definition extract_target :: "string list \<Rightarrow> (go_error, string \<times> string) go" where
  "extract_target annotations =
     bind_go (fold_go target_step annotations ('''', '''')) (\<lambda>t.
       if fst t = '''' then Fail (PlainError ''no target managed cluster set provided'') else Ok t)"

text \<open>
  The assignment \<open>workload.p2codeSchedulingAnnotations = ...\<close> goes through the pointer
  \<open>FindWorkload\<close> returned: it changes the first matching element of \<open>workloads\<close>.
\<close>

fun set_annotations :: "'r resource_set \<Rightarrow> string \<Rightarrow> string list \<Rightarrow> 'r resource_set" where
  "set_annotations [] name as = []"
| "set_annotations (r # rs) name as =
     (if res_name r = name \<and> is_workload r then r\<lparr>res_annotations := as\<rparr> # rs
      else r # set_annotations rs name as)"

definition assign_step ::
    "nat \<times> workload_annotation \<Rightarrow> 'r resource_set \<Rightarrow> (go_error, 'r resource_set) go" where
  "assign_step iw workloads =
     bind_go (extract_placement_rules (wa_annotations (snd iw))) (\<lambda>rules.
     if length rules \<noteq> length (wa_annotations (snd iw))
     then Fail (PlainError ''invalid workload annotations provided, all workload annotations must be of the form p2code.filter.feature=value'')
     else case find_workload workloads (wa_name (snd iw)) of
         Ok w \<Rightarrow> Ok (set_annotations workloads (wa_name (snd iw)) (wa_annotations (snd iw)))
       | Fail e \<Rightarrow> Fail (Wrapped (''invalid workload name for workload annotation ''
                     @ show_nat (fst iw + 1) @ '': '') e)
       | Panic \<Rightarrow> Panic)"

definition assign_workload_annotations ::
    "'r resource_set \<Rightarrow> workload_annotation list \<Rightarrow> (go_error, 'r resource_set) go" where
  "assign_workload_annotations workloads was = fold_go assign_step (List.enumerate 0 was) workloads"

section \<open>Supported annotations\<close>

lemma first_unsupported_None_iff: "first_unsupported as = None \<longleftrightarrow> list_all is_annotation_supported as"
  by (induction as) auto

lemma first_unsupported_workload_None_iff:
  "first_unsupported_workload ws = None \<longleftrightarrow>
     list_all (\<lambda>w. list_all is_annotation_supported (wa_annotations w)) ws"
proof (induction ws)
  case (Cons w ws)
  then show ?case
    using first_unsupported_None_iff [of "wa_annotations w"] by (auto split: option.splits)
qed simp

lemma validate_Ok_iff:
  "validate_annotations_supported m = Ok () \<longleftrightarrow>
     list_all is_annotation_supported (global_annotations (p2m_spec m)) \<and>
     list_all (\<lambda>w. list_all is_annotation_supported (wa_annotations w)) (workload_annotations (p2m_spec m))"
proof -
  have "validate_annotations_supported m = Ok () \<longleftrightarrow>
      first_unsupported (global_annotations (p2m_spec m)) = None \<and>
      first_unsupported_workload (workload_annotations (p2m_spec m)) = None"
    by (simp add: validate_annotations_supported_def split: option.splits)
  then show ?thesis by (simp only: first_unsupported_None_iff first_unsupported_workload_None_iff)
qed

text \<open>The same, with the key spelled out and the error of the first annotation not supported.\<close>

lemma is_annotation_supported_iff:
  "is_annotation_supported a \<longleftrightarrow>
     (let key = takeWhile (\<lambda>c. c \<noteq> CHR ''='') a
      in key = ''p2code.target.managedClusterSet'' \<or> key = ''p2code.target.cluster'' \<or>
         take 13 key = ''p2code.filter'')"
proof -
  have "length ''p2code.filter'' = 13" by simp
  then show ?thesis
    unfolding is_annotation_supported_def Let_def split_on_hd has_prefix_def annotation_keys by (simp only:) blast
qed

lemma first_unsupported_find: "first_unsupported as = List.find (\<lambda>a. \<not> is_annotation_supported a) as"
  by (induction as) auto

lemma first_unsupported_workload_find:
  "first_unsupported_workload ws = first_unsupported (concat (map wa_annotations ws))"
proof (induction ws)
  case (Cons w ws)
  have "first_unsupported (as @ bs) = (case first_unsupported as of None \<Rightarrow> first_unsupported bs | Some a \<Rightarrow> Some a)" for as bs
    by (induction as) auto
  with Cons show ?case by (simp split: option.splits)
qed simp

lemma validate_annotations_eq:
  "validate_annotations_supported m =
     (case List.find (\<lambda>a. let key = takeWhile (\<lambda>c. c \<noteq> CHR ''='') a
          in key \<noteq> ''p2code.target.managedClusterSet'' \<and> key \<noteq> ''p2code.target.cluster'' \<and>
             take 13 key \<noteq> ''p2code.filter'')
        (global_annotations (p2m_spec m) @ concat (map wa_annotations (workload_annotations (p2m_spec m)))) of
        None \<Rightarrow> Ok ()
      | Some a \<Rightarrow> Fail (PlainError (a @ '' is an unsupported annotation'')))"
proof -
  have find: "List.find P (xs @ ys) = (case List.find P xs of None \<Rightarrow> List.find P ys | Some x \<Rightarrow> Some x)"
    for P and xs ys :: "string list"
    by (induction xs) auto
  have "(\<lambda>a. let key = takeWhile (\<lambda>c. c \<noteq> CHR ''='') a
          in key \<noteq> ''p2code.target.managedClusterSet'' \<and> key \<noteq> ''p2code.target.cluster'' \<and>
             take 13 key \<noteq> ''p2code.filter'') = (\<lambda>a. \<not> is_annotation_supported a)"
    by (simp only: is_annotation_supported_iff Let_def de_Morgan_disj)
  then show ?thesis
    by (simp only: validate_annotations_supported_def first_unsupported_workload_find first_unsupported_find find
        split: option.splits) simp
qed

lemma validate_not_Panic [simp]: "validate_annotations_supported m \<noteq> Panic"
  by (simp add: validate_annotations_supported_def split: option.splits)

section \<open>Placement rules\<close>

text \<open>The key of an annotation is the text before the first equals sign.\<close>

definition annotation_key :: "string \<Rightarrow> string" where
  "annotation_key a = hd (split_on (CHR ''='') a)"

definition is_filter_annotation :: "string \<Rightarrow> bool" where
  "is_filter_annotation a \<longleftrightarrow> has_prefix (annotation_key a) filter_prefix"

definition rule_of :: "string \<Rightarrow> requirement" where
  "rule_of a = \<lparr>req_key = annotation_key a, req_operator = ''In'',
                req_values = [split_on (CHR ''='') a ! 1]\<rparr>"

lemma placement_rule_step_eq:
  "placement_rule_step a rules =
     (if is_filter_annotation a
      then if CHR ''='' \<in> set a then Ok (rules @ [rule_of a]) else Panic
      else Ok rules)"
proof -
  have len: "1 < length (split_on (CHR ''='') a) \<longleftrightarrow> CHR ''='' \<in> set a"
    by (simp add: length_split_on) (metis count_list_0_iff gr0I less_numeral_extra(3))
  show ?thesis
    using len by (simp add: placement_rule_step_def is_filter_annotation_def annotation_key_def
        rule_of_def index_go_def Let_def)
qed

lemma extract_from:
  "fold_go placement_rule_step as rules =
     (if \<exists>a \<in> set as. is_filter_annotation a \<and> CHR ''='' \<notin> set a then Panic
      else Ok (rules @ map rule_of (filter is_filter_annotation as)))"
  by (induction as arbitrary: rules) (auto simp: placement_rule_step_eq)

lemma extract_placement_rules_eq:
  "extract_placement_rules as =
     (if \<exists>a \<in> set as. is_filter_annotation a \<and> CHR ''='' \<notin> set a then Panic
      else Ok (map rule_of (filter is_filter_annotation as)))"
  by (simp add: extract_placement_rules_def extract_from)

lemma extract_no_Fail [simp]: "extract_placement_rules as \<noteq> Fail e"
  by (simp add: extract_placement_rules_eq)

lemma rule_of_pair:
  assumes "CHR ''='' \<notin> set k" and "CHR ''='' \<notin> set v"
  shows "rule_of (k @ CHR ''='' # v) = \<lparr>req_key = k, req_operator = ''In'', req_values = [v]\<rparr>"
  by (simp add: rule_of_def annotation_key_def split_on_pair assms)

section \<open>Assignment to workloads\<close>

lemma set_annotations_metadata:
  "map res_metadata (set_annotations rs name as) = map res_metadata rs"
  "map res_manifest (set_annotations rs name as) = map res_manifest rs"
  by (induction rs) auto

lemma res_key_metadata: "map resource_key rs = map metadata_key (map res_metadata rs)"
  by (simp add: resource_key_def)

lemma set_annotations_keys: "map resource_key (set_annotations rs name as) = map resource_key rs"
  unfolding res_key_metadata set_annotations_metadata ..

lemma assign_step_OkD:
  assumes "assign_step iw ws = Ok ws'"
  shows "ws' = set_annotations ws (wa_name (snd iw)) (wa_annotations (snd iw)) \<and>
    (\<exists>w \<in> set ws. res_name w = wa_name (snd iw) \<and> is_workload w) \<and>
    list_all is_filter_annotation (wa_annotations (snd iw))"
proof -
  from assms have rules: "length (filter is_filter_annotation (wa_annotations (snd iw))) = length (wa_annotations (snd iw))"
    and find: "\<exists>w. find_workload ws (wa_name (snd iw)) = Ok w"
    and ws': "ws' = set_annotations ws (wa_name (snd iw)) (wa_annotations (snd iw))"
    by (auto simp: assign_step_def bind_go_Ok_iff extract_placement_rules_eq split: if_splits go.splits)
  from rules have "list_all is_filter_annotation (wa_annotations (snd iw))"
    by (metis filter_id_conv length_filter_less list_all_iff nat_less_le)
  with find ws' show ?thesis by (auto dest: find_workload_OkD)
qed

lemma assign_keeps_metadata:
  assumes "assign_workload_annotations ws was = Ok ws'"
  shows "map res_metadata ws' = map res_metadata ws \<and> map res_manifest ws' = map res_manifest ws"
  by (rule fold_go_invariant [OF assms [unfolded assign_workload_annotations_def],
        of "\<lambda>x. map res_metadata x = map res_metadata ws \<and> map res_manifest x = map res_manifest ws"])
     (auto dest!: assign_step_OkD simp: set_annotations_metadata)

lemma assign_keeps_keys:
  assumes "assign_workload_annotations ws was = Ok ws'"
  shows "map resource_key ws' = map resource_key ws"
  using assign_keeps_metadata [OF assms] unfolding res_key_metadata by simp

lemma map_is_workload_metadata:
  "map res_metadata ws = map res_metadata ws' \<Longrightarrow> map is_workload ws = map is_workload ws'"
proof (induction ws arbitrary: ws')
  case (Cons w ws)
  then show ?case by (cases ws') (auto simp: is_workload_def)
qed simp

lemma list_all_workload_metadata:
  assumes "map res_metadata ws = map res_metadata ws'"
  shows "list_all is_workload ws = list_all is_workload ws'"
proof -
  have *: "list_all is_workload xs \<longleftrightarrow> False \<notin> set (map is_workload xs)" for xs :: "'x resource list"
    by (auto simp: list_all_iff)
  show ?thesis unfolding * map_is_workload_metadata [OF assms] ..
qed

section \<open>Targets\<close>

text \<open>The value of the last annotation of a key, empty when there is none.\<close>

definition last_value :: "string \<Rightarrow> string list \<Rightarrow> string" where
  "last_value key as = (case filter (\<lambda>a. annotation_key a = key) (rev as) of
     [] \<Rightarrow> '''' | a # _ \<Rightarrow> split_on (CHR ''='') a ! 1)"

definition is_target_annotation :: "string \<Rightarrow> bool" where
  "is_target_annotation a \<longleftrightarrow> annotation_key a = target_cluster_set_key \<or> annotation_key a = target_cluster_key"

lemma target_keys_differ: "target_cluster_set_key \<noteq> target_cluster_key"
  by (simp add: annotation_keys)

lemma target_step_eq:
  "target_step a t =
     (if is_target_annotation a
      then if CHR ''='' \<in> set a
           then Ok (if annotation_key a = target_cluster_set_key then (split_on (CHR ''='') a ! 1, snd t)
                    else (fst t, split_on (CHR ''='') a ! 1))
           else Panic
      else Ok t)"
proof -
  have "1 < length (split_on (CHR ''='') a) \<longleftrightarrow> CHR ''='' \<in> set a"
    by (simp add: length_split_on) (metis count_list_0_iff gr0I less_numeral_extra(3))
  then show ?thesis
    by (auto simp: target_step_def is_target_annotation_def annotation_key_def index_go_def Let_def)
qed

lemma last_value_snoc:
  "last_value key (as @ [a]) = (if annotation_key a = key then split_on (CHR ''='') a ! 1 else last_value key as)"
  by (simp add: last_value_def)

lemma target_fold:
  "fold_go target_step as ('''', '''') =
     (if \<exists>a \<in> set as. is_target_annotation a \<and> CHR ''='' \<notin> set a then Panic
      else Ok (last_value target_cluster_set_key as, last_value target_cluster_key as))"
proof (induction as rule: rev_induct)
  case Nil
  show ?case by (simp add: last_value_def)
next
  case (snoc a as)
  have right: "bind_go r (fold_go target_step []) = r" for r :: "(go_error, string \<times> string) go"
    by (cases r) simp_all
  have fold: "fold_go target_step (as @ [a]) ('''', '''') =
      (if \<exists>b \<in> set as. is_target_annotation b \<and> CHR ''='' \<notin> set b then Panic
       else target_step a (last_value target_cluster_set_key as, last_value target_cluster_key as))"
    by (auto simp: fold_go_append snoc.IH right)
  show ?case
    unfolding fold using target_keys_differ
    by (auto simp: target_step_eq last_value_snoc is_target_annotation_def)
qed

lemma extract_target_eq:
  "extract_target as =
     (if \<exists>a \<in> set as. is_target_annotation a \<and> CHR ''='' \<notin> set a then Panic
      else if last_value target_cluster_set_key as = ''''
      then Fail (PlainError ''no target managed cluster set provided'')
      else Ok (last_value target_cluster_set_key as, last_value target_cluster_key as))"
  by (simp add: extract_target_def target_fold)

end
