(* ===== verification/P2_Analyse.thy ===== *)
theory P2_Analyse
  imports P2_ResourceSet
begin

text \<open>
  \<^verbatim>\<open>internal/controller/analyse.go\<close>: which ancillary resources a workload needs. Every
  function returns the resources found, the references that could not be resolved and
  the external connections of the workload. The specification \<open>resolved\<close> says that the
  two lists together are exactly the references the workload makes.
\<close>

section \<open>Containers\<close>

text \<open>
  The pattern the Go code repeats for each reference: \<open>Find\<close>, then \<open>Register\<close> the name
  on an error and \<open>Add\<close> the resource otherwise.
\<close>

fun add_or_register ::
    "'r resource_set \<Rightarrow> string \<Rightarrow> string \<Rightarrow> 'r resource_set \<times> absent_resource_set
       \<Rightarrow> 'r resource_set \<times> absent_resource_set" where
  "add_or_register anc name kind (resources, absent) =
     (case rs_find anc name kind of
        Ok r \<Rightarrow> (rs_add resources r, absent)
      | _ \<Rightarrow> (resources, absent_register absent name kind))"

definition optional_ref ::
    "'r resource_set \<Rightarrow> string option \<Rightarrow> string \<Rightarrow> 'r resource_set \<times> absent_resource_set
       \<Rightarrow> 'r resource_set \<times> absent_resource_set" where
  "optional_ref anc ref kind acc =
     (case ref of None \<Rightarrow> acc | Some name \<Rightarrow> add_or_register anc name kind acc)"

definition env_from_step ::
    "'r resource_set \<Rightarrow> env_from_source \<Rightarrow> 'r resource_set \<times> absent_resource_set
       \<Rightarrow> 'r resource_set \<times> absent_resource_set" where
  "env_from_step anc src acc =
     optional_ref anc (ef_secret src) ''Secret'' (optional_ref anc (ef_config_map src) ''ConfigMap'' acc)"

definition env_value_from ::
    "'r resource_set \<Rightarrow> env_var \<Rightarrow> 'r resource_set \<times> absent_resource_set
       \<Rightarrow> 'r resource_set \<times> absent_resource_set" where
  "env_value_from anc ev acc = (case ev_value_from ev of
     None \<Rightarrow> acc
   | Some src \<Rightarrow> optional_ref anc (vf_secret src) ''Secret''
                  (optional_ref anc (vf_config_map src) ''ConfigMap'' acc))"

text \<open>
  An environment variable of the form \<open>service:port\<close>. The two parts of the split exist,
  because the regular expression matched; the port may be too large for an \<open>int\<close>.
\<close>

definition is_service_name_port_reference :: "string \<Rightarrow> bool" where
  "is_service_name_port_reference s = match_service_port s"

definition service_connection :: "env_var \<Rightarrow> (go_error, service_port_pair list) go" where
  "service_connection ev =
     (if ev_value ev \<noteq> '''' \<and> is_service_name_port_reference (ev_value ev)
      then let parts = split_on (CHR '':'') (ev_value ev)
           in case atoi (parts ! 1) of
                None \<Rightarrow> Fail (PlainError ''value out of range'')
              | Some port \<Rightarrow> Ok [\<lparr>spp_service = parts ! 0, spp_port = port\<rparr>]
      else Ok [])"

type_synonym 'r analysis =
  "'r resource_set \<times> absent_resource_set \<times> service_port_pair list"

definition env_step :: "'r resource_set \<Rightarrow> env_var \<Rightarrow> 'r analysis \<Rightarrow> (go_error, 'r analysis) go" where
  "env_step anc ev acc = (case acc of (resources, absent, conns) \<Rightarrow>
     case env_value_from anc ev (resources, absent) of (resources', absent') \<Rightarrow>
       bind_go (service_connection ev) (\<lambda>new. Ok (resources', absent', conns @ new)))"

definition container_step ::
    "'r resource_set \<Rightarrow> container \<Rightarrow> 'r analysis \<Rightarrow> (go_error, 'r analysis) go" where
  "container_step anc c acc = (case acc of (resources, absent, conns) \<Rightarrow>
     case fold (env_from_step anc) (c_env_from c) (resources, absent) of (resources', absent') \<Rightarrow>
       fold_go (env_step anc) (c_env c) (resources', absent', conns))"

definition analyse_containers ::
    "container list \<Rightarrow> 'r resource_set \<Rightarrow> (go_error, 'r analysis) go" where
  "analyse_containers cs anc = fold_go (container_step anc) cs ([], [], [])"

section \<open>Service accounts\<close>

definition subject_step ::
    "'r resource \<Rightarrow> 'r resource_set \<Rightarrow> 'r resource \<Rightarrow> role_binding \<Rightarrow> subject
       \<Rightarrow> 'r resource_set \<times> absent_resource_set \<Rightarrow> 'r resource_set \<times> absent_resource_set" where
  "subject_step sa anc binding_res binding sub acc = (case acc of (resources, absent) \<Rightarrow>
     if sub_kind sub = ''ServiceAccount'' \<and> sub_name sub = res_name sa \<and> sub_namespace sub = res_namespace sa
     then if has_prefix (rb_role_name binding) ''system:'' then (rs_add resources binding_res, absent)
          else case rs_find anc (rb_role_name binding) (rb_role_kind binding) of
              Ok role \<Rightarrow> (rs_add (rs_add resources role) binding_res, absent)
            | _ \<Rightarrow> (resources, absent_register absent (rb_role_name binding) (rb_role_kind binding))
     else (resources, absent))"

definition binding_step ::
    "('r \<Rightarrow> string + role_binding) \<Rightarrow> 'r resource \<Rightarrow> 'r resource_set \<Rightarrow> 'r resource
       \<Rightarrow> 'r resource_set \<times> absent_resource_set \<Rightarrow> (go_error, 'r resource_set \<times> absent_resource_set) go" where
  "binding_step decode sa anc binding_res acc =
     bind_go (unmarshal (decode (res_manifest binding_res))) (\<lambda>binding.
       Ok (fold (subject_step sa anc binding_res binding) (rb_subjects binding) acc))"

definition analyse_service_account ::
    "'r codec \<Rightarrow> 'r resource \<Rightarrow> 'r resource_set \<Rightarrow> (go_error, 'r resource_set \<times> absent_resource_set) go" where
  "analyse_service_account C sa anc =
     bind_go (fold_go (binding_step (dec_cluster_role_binding C) sa anc)
                (filter_by_kind anc ''ClusterRoleBinding'') ([], [])) (\<lambda>acc.
       fold_go (binding_step (dec_role_binding C) sa anc) (filter_by_kind anc ''RoleBinding'') acc)"

section \<open>Pods\<close>

definition extract_pod_template_spec ::
    "'r codec \<Rightarrow> 'r resource \<Rightarrow> (go_error, pod_template_spec) go" where
  "extract_pod_template_spec C w =
     (let kind = res_kind w; raw = res_manifest w
      in if kind = ''Pod'' then unmarshal (dec_pod C raw)
         else if kind = ''Deployment'' then unmarshal (dec_deployment C raw)
         else if kind = ''StatefulSet'' then bind_go (unmarshal (dec_stateful_set C raw)) (\<lambda>s. Ok (snd s))
         else if kind = ''DaemonSet'' then unmarshal (dec_daemon_set C raw)
         else if kind = ''Job'' then unmarshal (dec_job C raw)
         else if kind = ''CronJob'' then unmarshal (dec_cron_job C raw)
         else Fail (PlainError (''unable to extract the pod spec for workload '' @ res_name w
                     @ '' of type '' @ kind)))"

definition volume_step ::
    "'r resource_set \<Rightarrow> volume \<Rightarrow> 'r resource_set \<times> absent_resource_set
       \<Rightarrow> 'r resource_set \<times> absent_resource_set" where
  "volume_step anc v acc =
     optional_ref anc (vol_secret v) ''Secret''
       (optional_ref anc (vol_config_map v) ''ConfigMap''
         (optional_ref anc (vol_pvc v) ''PersistentVolumeClaim'' acc))"

definition service_account_part ::
    "'r codec \<Rightarrow> 'r resource_set \<Rightarrow> string \<Rightarrow> 'r resource_set \<times> absent_resource_set
       \<Rightarrow> (go_error, 'r resource_set \<times> absent_resource_set) go" where
  "service_account_part C anc name acc = (case acc of (resources, absent) \<Rightarrow>
     if name \<noteq> '''' then
       (case rs_find anc name ''ServiceAccount'' of
          Ok sa \<Rightarrow> bind_go (analyse_service_account C sa anc) (\<lambda>roles.
            Ok (rs_merge (rs_add resources sa) (fst roles), absent_merge absent (snd roles)))
        | _ \<Rightarrow> Ok (resources, absent_register absent name ''ServiceAccount''))
     else Ok (resources, absent))"

definition analyse_pod_spec ::
    "'r codec \<Rightarrow> 'r resource \<Rightarrow> 'r resource_set \<Rightarrow> (go_error, 'r analysis) go" where
  "analyse_pod_spec C w anc =
     bind_go (extract_pod_template_spec C w) (\<lambda>template. let pod = pt_spec template in
     bind_go (service_account_part C anc (service_account_name pod)
       (fold (volume_step anc) (volumes pod)
         (fold (\<lambda>name. add_or_register anc name ''Secret'') (image_pull_secrets pod) ([], [])))) (\<lambda>acc.
     bind_go (analyse_containers (containers pod @ init_containers pod) anc) (\<lambda>(rs, missing, conns).
       Ok (rs_merge (fst acc) rs, absent_merge (snd acc) missing, conns))))"

section \<open>Network resources\<close>

definition ingress_path_step :: "'r resource \<Rightarrow> 'r resource \<Rightarrow> string option \<Rightarrow> 'r resource_set \<Rightarrow> 'r resource_set" where
  "ingress_path_step service ingress backend resources =
     (if backend = Some (res_name service) then rs_add resources ingress else resources)"

definition ingress_rule_step ::
    "'r resource \<Rightarrow> 'r resource \<Rightarrow> ingress_rule \<Rightarrow> 'r resource_set \<Rightarrow> (go_error, 'r resource_set) go" where
  "ingress_rule_step service ingress rule resources =
     (case rule of
        None \<Rightarrow> Panic
      | Some paths \<Rightarrow> Ok (fold (ingress_path_step service ingress) paths resources))"

definition ingress_step ::
    "'r codec \<Rightarrow> 'r resource \<Rightarrow> 'r resource \<Rightarrow> 'r resource_set \<Rightarrow> (go_error, 'r resource_set) go" where
  "ingress_step C service ingress resources =
     bind_go (unmarshal (dec_ingress C (res_manifest ingress))) (\<lambda>rules.
       fold_go (ingress_rule_step service ingress) rules resources)"

definition route_step ::
    "'r codec \<Rightarrow> 'r resource \<Rightarrow> 'r resource \<Rightarrow> 'r resource_set \<Rightarrow> (go_error, 'r resource_set) go" where
  "route_step C service route resources =
     bind_go (unmarshal (dec_route C (res_manifest route))) (\<lambda>to.
       if ref_kind to = ''Service'' \<and> ref_name to = res_name service
       then Ok (rs_add resources route) else Ok resources)"

definition find_external_network_access_resources ::
    "'r codec \<Rightarrow> 'r resource \<Rightarrow> 'r resource_set \<Rightarrow> (go_error, 'r resource_set) go" where
  "find_external_network_access_resources C service anc =
     bind_go (fold_go (ingress_step C service) (filter_by_kind anc ''Ingress'') []) (\<lambda>resources.
       fold_go (route_step C service) (filter_by_kind anc ''Route'') resources)"

definition monitor_label_step :: "string \<Rightarrow> string \<Rightarrow> 'r resource \<Rightarrow> string \<times> string \<Rightarrow> 'r resource_set \<Rightarrow> 'r resource_set" where
  "monitor_label_step key val monitor kv resources =
     (if fst kv = key \<and> snd kv = val then rs_add resources monitor else resources)"

definition monitor_expression_step ::
    "string \<Rightarrow> string \<Rightarrow> 'r resource \<Rightarrow> selector_expression \<Rightarrow> 'r resource_set \<Rightarrow> 'r resource_set" where
  "monitor_expression_step key val monitor e resources =
     (if se_operator e = ''In'' \<and> se_key e = key \<and> val \<in> set (se_values e)
      then rs_add resources monitor else resources)"

definition monitor_step ::
    "'r codec \<Rightarrow> string \<Rightarrow> string \<Rightarrow> 'r resource \<Rightarrow> 'r resource_set \<Rightarrow> (go_error, 'r resource_set) go" where
  "monitor_step C key val monitor resources =
     bind_go (unmarshal (dec_service_monitor C (res_manifest monitor))) (\<lambda>sel.
       Ok (fold (monitor_expression_step key val monitor) (match_expressions sel)
             (fold (monitor_label_step key val monitor) (match_labels sel) resources)))"

definition find_service_monitor_resources ::
    "'r codec \<Rightarrow> string \<Rightarrow> string \<Rightarrow> 'r resource_set \<Rightarrow> (go_error, 'r resource_set) go" where
  "find_service_monitor_resources C key val anc =
     fold_go (monitor_step C key val) (filter_by_kind anc ''ServiceMonitor'') []"

definition selector_step ::
    "'r codec \<Rightarrow> 'r resource_set \<Rightarrow> (string \<rightharpoonup> string) \<Rightarrow> 'r resource \<Rightarrow> string \<times> string
       \<Rightarrow> 'r resource_set \<Rightarrow> (go_error, 'r resource_set) go" where
  "selector_step C anc pod_labels service kv resources =
     (if pod_labels (fst kv) = Some (snd kv)
      then bind_go (find_external_network_access_resources C service anc) (\<lambda>access.
           bind_go (find_service_monitor_resources C (fst kv) (snd kv) anc) (\<lambda>monitors.
             Ok (rs_merge (rs_merge (rs_add resources service) access) monitors)))
      else Ok resources)"

definition service_step ::
    "'r codec \<Rightarrow> 'r resource_set \<Rightarrow> (string \<rightharpoonup> string) \<Rightarrow> 'r resource
       \<Rightarrow> 'r resource_set \<Rightarrow> (go_error, 'r resource_set) go" where
  "service_step C anc pod_labels service resources =
     bind_go (unmarshal (dec_service C (res_manifest service))) (\<lambda>selector.
       fold_go (selector_step C anc pod_labels service) selector resources)"

definition stateful_set_service ::
    "'r codec \<Rightarrow> 'r resource \<Rightarrow> 'r resource_set \<Rightarrow> (go_error, 'r resource_set \<times> absent_resource_set) go" where
  "stateful_set_service C w anc =
     (if res_kind w = ''StatefulSet''
      then bind_go (unmarshal (dec_stateful_set C (res_manifest w))) (\<lambda>s.
             Ok (add_or_register anc (fst s) ''Service'' ([], [])))
      else Ok ([], []))"

definition extract_network_resources ::
    "'r codec \<Rightarrow> 'r resource \<Rightarrow> 'r resource_set \<Rightarrow> (go_error, 'r resource_set \<times> absent_resource_set) go" where
  "extract_network_resources C w anc =
     bind_go (stateful_set_service C w anc) (\<lambda>acc.
     bind_go (extract_pod_template_spec C w) (\<lambda>template.
     bind_go (fold_go (service_step C anc (pt_labels template)) (filter_by_kind anc ''Service'') (fst acc))
       (\<lambda>resources. Ok (resources, snd acc))))"

section \<open>Autoscalers and the whole workload\<close>

definition hpa_step ::
    "'r codec \<Rightarrow> lib \<Rightarrow> 'r resource \<Rightarrow> 'r resource \<Rightarrow> 'r resource_set \<Rightarrow> (go_error, 'r resource_set) go" where
  "hpa_step C L w hpa resources =
     bind_go (unmarshal (dec_hpa C (res_manifest hpa))) (\<lambda>target.
       if ref_kind target = res_kind w \<and> ref_name target = res_name w \<and>
          ref_api_version target = group_version_string L (gvk_group (res_gvk w)) (gvk_version (res_gvk w))
       then Ok (rs_add resources hpa) else Ok resources)"

definition find_hpa_definition ::
    "'r codec \<Rightarrow> lib \<Rightarrow> 'r resource \<Rightarrow> 'r resource_set \<Rightarrow> (go_error, 'r resource_set) go" where
  "find_hpa_definition C L w anc =
     fold_go (hpa_step C L w) (filter_by_kind anc ''HorizontalPodAutoscaler'') []"

definition workload_namespace_part ::
    "'r resource \<Rightarrow> 'r resource_set \<Rightarrow> (go_error, 'r resource_set) go" where
  "workload_namespace_part w anc =
     (if res_namespace w \<noteq> ''default''
      then bind_go (rs_find anc (res_namespace w) ''Namespace'') (\<lambda>ns. Ok (rs_add [] ns))
      else Ok [])"

definition analyse_workload ::
    "'r codec \<Rightarrow> lib \<Rightarrow> 'r resource \<Rightarrow> 'r resource_set \<Rightarrow> (go_error, 'r analysis) go" where
  "analyse_workload C L w anc =
     bind_go (workload_namespace_part w anc) (\<lambda>namespaces.
     bind_go (analyse_pod_spec C w anc) (\<lambda>(pod_rs, pod_absent, conns).
     bind_go (extract_network_resources C w anc) (\<lambda>(net_rs, net_absent).
     bind_go (find_hpa_definition C L w anc) (\<lambda>hpas.
       Ok (rs_merge (rs_merge (rs_merge namespaces pod_rs) net_rs) hpas,
           absent_merge (absent_merge [] pod_absent) net_absent, conns)))))"

end
