(* ===== verification/P2_Analyse_Spec.thy ===== *)
theory P2_Analyse_Spec
  imports P2_Analyse
begin

text \<open>
  What the analysis of a workload promises. \<open>workload_refs\<close> collects, from the decoded
  objects alone, the references a workload makes, as pairs of a name and a kind; the
  theorem of the theory is that the resources the analysis returns are those references
  that a manifest answers and the absent resources are the others (\<open>resolved\<close>).
\<close>

section \<open>Resolved references\<close>

definition ref_of :: "'r resource \<Rightarrow> string \<times> string" where
  "ref_of r = (res_name r, res_kind r)"

definition bri_ref :: "basic_resource_info \<Rightarrow> string \<times> string" where
  "bri_ref b = (bri_name b, bri_kind b)"

definition available :: "'r resource_set \<Rightarrow> (string \<times> string) set" where
  "available anc = ref_of ` set anc"

definition resolved ::
    "'r resource_set \<Rightarrow> (string \<times> string) set \<Rightarrow> 'r resource_set \<times> absent_resource_set \<Rightarrow> bool" where
  "resolved anc R acc \<longleftrightarrow>
     set (fst acc) \<subseteq> set anc \<and> distinct (map resource_key (fst acc)) \<and>
     ref_of ` set (fst acc) = R \<inter> available anc \<and> bri_ref ` set (snd acc) = R - available anc"

lemma ref_of_key: "ref_of r = (rk_name (resource_key r), rk_kind (resource_key r))"
  by (simp add: ref_of_def resource_key_def metadata_key_def)

lemma ref_of_image: "ref_of ` A = (\<lambda>k. (rk_name k, rk_kind k)) ` resource_key ` A"
  by (auto simp: ref_of_key image_image)

lemma ref_of_add: "ref_of ` set (rs_add rs r) = insert (ref_of r) (ref_of ` set rs)"
  unfolding ref_of_image rset.keys_add by (simp add: ref_of_key)

lemma ref_of_merge: "ref_of ` set (rs_merge rs rs') = ref_of ` set rs \<union> ref_of ` set rs'"
  unfolding ref_of_image rset.keys_merge by (simp add: image_Un)

named_theorems resolve_intros \<open>steps that keep the resolved references\<close>

lemma resolved_empty [resolve_intros]: "resolved anc {} ([], [])"
  by (simp add: resolved_def)

lemma resolved_add:
  assumes "resolved anc R (rs, ab)" and "r \<in> set anc"
  shows "resolved anc (insert (ref_of r) R) (rs_add rs r, ab)"
  using assms rset.set_add [of rs r] rset.distinct_add [of rs r]
  by (auto simp: resolved_def ref_of_add available_def)

lemma resolved_register:
  assumes "resolved anc R (rs, ab)" and "(name, kind) \<notin> available anc"
  shows "resolved anc (insert (name, kind) R) (rs, absent_register ab name kind)"
  using assms by (auto simp: resolved_def absent_register_def bri_ref_def)

lemma resolved_merge:
  assumes "resolved anc R acc" and "resolved anc S acc'"
  shows "resolved anc (R \<union> S) (rs_merge (fst acc) (fst acc'), absent_merge (snd acc) (snd acc'))"
  using assms rset.set_merge [of "fst acc" "fst acc'"] rset.distinct_merge [of "fst acc" "fst acc'"]
  by (auto simp: resolved_def ref_of_merge absent_merge_def image_Un)

lemma resolved_merge_found:
  assumes "resolved anc R (rs, ab)" and "resolved anc S (rs', [])"
  shows "resolved anc (R \<union> S) (rs_merge rs rs', ab)"
  using resolved_merge [OF assms] by (simp add: absent_merge_def)

lemma resolved_fold:
  assumes "resolved anc R acc"
    and "\<And>x acc R. x \<in> set xs \<Longrightarrow> resolved anc R acc \<Longrightarrow> resolved anc (R \<union> refs x) (f x acc)"
  shows "resolved anc (R \<union> \<Union> (refs ` set xs)) (fold f xs acc)"
  using assms
proof (induction xs arbitrary: acc R)
  case (Cons x xs)
  have "resolved anc (R \<union> refs x \<union> \<Union> (refs ` set xs)) (fold f xs (f x acc))"
    using Cons.prems by (intro Cons.IH) auto
  then show ?case by (simp add: Un_assoc)
qed simp

lemma resolved_fold_go:
  assumes "fold_go f xs acc = Ok acc'" and "resolved anc R (sel acc)"
    and "\<And>x a a' R. x \<in> set xs \<Longrightarrow> f x a = Ok a' \<Longrightarrow> resolved anc R (sel a) \<Longrightarrow>
           resolved anc (R \<union> refs x) (sel a')"
  shows "resolved anc (R \<union> \<Union> (refs ` set xs)) (sel acc')"
  using assms
proof (induction xs arbitrary: acc R)
  case (Cons x xs)
  from Cons.prems(1) obtain a where a: "f x acc = Ok a" "fold_go f xs a = Ok acc'"
    by (auto simp: bind_go_Ok_iff)
  have "resolved anc (R \<union> refs x) (sel a)"
    by (rule Cons.prems(3) [OF _ a(1) Cons.prems(2)]) simp
  then have "resolved anc (R \<union> refs x \<union> \<Union> (refs ` set xs)) (sel acc')"
    by (rule Cons.IH [OF a(2)]) (rule Cons.prems(3), simp_all)
  then show ?case by (simp add: Un_assoc)
qed simp

lemma rs_find_cases:
  obtains (found) r where "rs_find anc name kind = Ok r" "r \<in> set anc" "ref_of r = (name, kind)"
  | (missing) e where "rs_find anc name kind = Fail e" "(name, kind) \<notin> available anc"
proof (cases "rs_find anc name kind")
  case (Ok r)
  with rs_find_OkD [OF Ok] show ?thesis by (intro found) (auto simp: ref_of_def)
next
  case (Fail e)
  then have "\<not> (\<exists>r \<in> set anc. res_name r = name \<and> res_kind r = kind)"
    using rs_find_Fail_iff by blast
  then show ?thesis by (intro missing [OF Fail]) (auto simp: available_def ref_of_def)
qed simp

section \<open>References of a pod\<close>

definition opt_refs :: "string option \<Rightarrow> string \<Rightarrow> (string \<times> string) set" where
  "opt_refs ref kind = (case ref of None \<Rightarrow> {} | Some name \<Rightarrow> {(name, kind)})"

definition env_from_refs :: "env_from_source \<Rightarrow> (string \<times> string) set" where
  "env_from_refs src = opt_refs (ef_config_map src) ''ConfigMap'' \<union> opt_refs (ef_secret src) ''Secret''"

definition env_refs :: "env_var \<Rightarrow> (string \<times> string) set" where
  "env_refs ev = (case ev_value_from ev of None \<Rightarrow> {} | Some src \<Rightarrow>
     opt_refs (vf_config_map src) ''ConfigMap'' \<union> opt_refs (vf_secret src) ''Secret'')"

definition container_refs :: "container \<Rightarrow> (string \<times> string) set" where
  "container_refs c = \<Union> (env_from_refs ` set (c_env_from c)) \<union> \<Union> (env_refs ` set (c_env c))"

definition volume_refs :: "volume \<Rightarrow> (string \<times> string) set" where
  "volume_refs v = opt_refs (vol_pvc v) ''PersistentVolumeClaim'' \<union>
     opt_refs (vol_config_map v) ''ConfigMap'' \<union> opt_refs (vol_secret v) ''Secret''"

text \<open>A subject of a binding that is the service account.\<close>

definition is_subject :: "'r resource \<Rightarrow> subject \<Rightarrow> bool" where
  "is_subject sa sub \<longleftrightarrow>
     sub_kind sub = ''ServiceAccount'' \<and> sub_name sub = res_name sa \<and> sub_namespace sub = res_namespace sa"

definition binding_refs ::
    "('r \<Rightarrow> string + role_binding) \<Rightarrow> 'r resource \<Rightarrow> 'r resource_set \<Rightarrow> 'r resource
       \<Rightarrow> (string \<times> string) set" where
  "binding_refs decode sa anc b =
     (case decode (res_manifest b) of
        Inl e \<Rightarrow> {}
      | Inr rb \<Rightarrow>
        if \<exists>sub \<in> set (rb_subjects rb). is_subject sa sub
        then if has_prefix (rb_role_name rb) ''system:'' then {ref_of b}
             else if (rb_role_name rb, rb_role_kind rb) \<in> available anc
             then {(rb_role_name rb, rb_role_kind rb), ref_of b}
             else {(rb_role_name rb, rb_role_kind rb)}
        else {})"

definition service_account_refs ::
    "'r codec \<Rightarrow> 'r resource \<Rightarrow> 'r resource_set \<Rightarrow> (string \<times> string) set" where
  "service_account_refs C sa anc =
     \<Union> (binding_refs (dec_cluster_role_binding C) sa anc ` {b \<in> set anc. res_kind b = ''ClusterRoleBinding''}) \<union>
     \<Union> (binding_refs (dec_role_binding C) sa anc ` {b \<in> set anc. res_kind b = ''RoleBinding''})"

definition service_account_name_refs ::
    "'r codec \<Rightarrow> 'r resource_set \<Rightarrow> string \<Rightarrow> (string \<times> string) set" where
  "service_account_name_refs C anc name =
     (if name = '''' then {}
      else insert (name, ''ServiceAccount'')
        (case rs_find anc name ''ServiceAccount'' of
           Ok sa \<Rightarrow> service_account_refs C sa anc | _ \<Rightarrow> {}))"

definition pod_refs :: "'r codec \<Rightarrow> 'r resource_set \<Rightarrow> pod_spec \<Rightarrow> (string \<times> string) set" where
  "pod_refs C anc pod =
     (\<lambda>name. (name, ''Secret'')) ` set (image_pull_secrets pod) \<union>
     \<Union> (volume_refs ` set (volumes pod)) \<union>
     service_account_name_refs C anc (service_account_name pod) \<union>
     \<Union> (container_refs ` set (containers pod @ init_containers pod))"

section \<open>References through services and autoscalers\<close>

definition access_refs :: "'r codec \<Rightarrow> 'r resource \<Rightarrow> 'r resource_set \<Rightarrow> (string \<times> string) set" where
  "access_refs C s anc =
     {ref_of i | i rules paths. i \<in> set anc \<and> res_kind i = ''Ingress'' \<and>
        dec_ingress C (res_manifest i) = Inr rules \<and> Some paths \<in> set rules \<and>
        Some (res_name s) \<in> set paths} \<union>
     {ref_of r | r to. r \<in> set anc \<and> res_kind r = ''Route'' \<and>
        dec_route C (res_manifest r) = Inr to \<and> ref_kind to = ''Service'' \<and> ref_name to = res_name s}"

definition monitor_refs :: "'r codec \<Rightarrow> string \<times> string \<Rightarrow> 'r resource_set \<Rightarrow> (string \<times> string) set" where
  "monitor_refs C kv anc =
     {ref_of m | m sel. m \<in> set anc \<and> res_kind m = ''ServiceMonitor'' \<and>
        dec_service_monitor C (res_manifest m) = Inr sel \<and>
        (kv \<in> set (match_labels sel) \<or>
         (\<exists>e \<in> set (match_expressions sel).
            se_operator e = ''In'' \<and> se_key e = fst kv \<and> snd kv \<in> set (se_values e)))}"

definition selected :: "(string \<rightharpoonup> string) \<Rightarrow> (string \<times> string) list \<Rightarrow> (string \<times> string) set" where
  "selected labels selector = {kv \<in> set selector. labels (fst kv) = Some (snd kv)}"

definition service_refs ::
    "'r codec \<Rightarrow> 'r resource_set \<Rightarrow> (string \<rightharpoonup> string) \<Rightarrow> 'r resource \<Rightarrow> (string \<times> string) set" where
  "service_refs C anc labels s =
     (case dec_service C (res_manifest s) of
        Inl e \<Rightarrow> {}
      | Inr selector \<Rightarrow>
        (\<Union>kv \<in> selected labels selector. insert (ref_of s) (access_refs C s anc \<union> monitor_refs C kv anc)))"

definition stateful_set_refs :: "'r codec \<Rightarrow> 'r resource \<Rightarrow> (string \<times> string) set" where
  "stateful_set_refs C w =
     (if res_kind w = ''StatefulSet''
      then (case dec_stateful_set C (res_manifest w) of Inl e \<Rightarrow> {} | Inr s \<Rightarrow> {(fst s, ''Service'')})
      else {})"

definition hpa_refs :: "'r codec \<Rightarrow> lib \<Rightarrow> 'r resource \<Rightarrow> 'r resource_set \<Rightarrow> (string \<times> string) set" where
  "hpa_refs C L w anc =
     {ref_of h | h t. h \<in> set anc \<and> res_kind h = ''HorizontalPodAutoscaler'' \<and>
        dec_hpa C (res_manifest h) = Inr t \<and> ref_kind t = res_kind w \<and> ref_name t = res_name w \<and>
        ref_api_version t = group_version_string L (gvk_group (res_gvk w)) (gvk_version (res_gvk w))}"

definition workload_refs ::
    "'r codec \<Rightarrow> lib \<Rightarrow> 'r resource \<Rightarrow> 'r resource_set \<Rightarrow> pod_template_spec \<Rightarrow> (string \<times> string) set" where
  "workload_refs C L w anc t =
     (if res_namespace w = ''default'' then {} else {(res_namespace w, ''Namespace'')}) \<union>
     pod_refs C anc (pt_spec t) \<union>
     (stateful_set_refs C w \<union>
      \<Union> (service_refs C anc (pt_labels t) ` {s \<in> set anc. res_kind s = ''Service''})) \<union>
     hpa_refs C L w anc"

section \<open>The analysis resolves them\<close>

lemma resolved_add_or_register:
  assumes "resolved anc R acc"
  shows "resolved anc (R \<union> {(name, kind)}) (add_or_register anc name kind acc)"
proof (cases acc)
  case (Pair rs ab)
  show ?thesis
  proof (cases rule: rs_find_cases [of anc name kind])
    case (found r)
    with resolved_add [of anc R rs ab r] assms Pair show ?thesis by simp
  next
    case missing
    with resolved_register [of anc R rs ab name kind] assms Pair show ?thesis by simp
  qed
qed

lemma resolved_optional:
  assumes "resolved anc R acc"
  shows "resolved anc (R \<union> opt_refs ref kind) (optional_ref anc ref kind acc)"
  using resolved_add_or_register [OF assms] assms
  by (auto simp: optional_ref_def opt_refs_def split: option.splits)

lemma resolved_env_from:
  assumes "resolved anc R acc"
  shows "resolved anc (R \<union> env_from_refs src) (env_from_step anc src acc)"
  unfolding env_from_step_def env_from_refs_def Un_assoc [symmetric]
  by (intro resolved_optional assms)

lemma resolved_env_value:
  assumes "resolved anc R acc"
  shows "resolved anc (R \<union> env_refs ev) (env_value_from anc ev acc)"
proof (cases "ev_value_from ev")
  case None
  with assms show ?thesis by (simp add: env_value_from_def env_refs_def)
next
  case (Some src)
  have "resolved anc (R \<union> opt_refs (vf_config_map src) ''ConfigMap'' \<union> opt_refs (vf_secret src) ''Secret'')
      (optional_ref anc (vf_secret src) ''Secret'' (optional_ref anc (vf_config_map src) ''ConfigMap'' acc))"
    by (intro resolved_optional assms)
  with Some show ?thesis by (simp add: env_value_from_def env_refs_def Un_assoc)
qed

lemma resolved_volume:
  assumes "resolved anc R acc"
  shows "resolved anc (R \<union> volume_refs v) (volume_step anc v acc)"
  unfolding volume_step_def volume_refs_def Un_assoc [symmetric]
  by (intro resolved_optional assms)

definition found_of :: "'r analysis \<Rightarrow> 'r resource_set \<times> absent_resource_set" where
  "found_of acc = (fst acc, fst (snd acc))"

lemma found_of_simp [simp]: "found_of (rs, ab, conns) = (rs, ab)"
  by (simp add: found_of_def)

lemma resolved_env_step:
  assumes "env_step anc ev acc = Ok acc'" and "resolved anc R (found_of acc)"
  shows "resolved anc (R \<union> env_refs ev) (found_of acc')"
proof -
  have "found_of acc' = env_value_from anc ev (found_of acc)"
    using assms(1) by (auto simp: env_step_def found_of_def bind_go_Ok_iff split: prod.splits)
  with resolved_env_value [OF assms(2)] show ?thesis by simp
qed

lemma resolved_container_step:
  assumes "container_step anc c acc = Ok acc'" and "resolved anc R (found_of acc)"
  shows "resolved anc (R \<union> container_refs c) (found_of acc')"
proof -
  obtain rs ab conns where acc: "acc = (rs, ab, conns)" by (cases acc) auto
  obtain rs1 ab1 where f: "fold (env_from_step anc) (c_env_from c) (rs, ab) = (rs1, ab1)" by fastforce
  have "resolved anc (R \<union> \<Union> (env_from_refs ` set (c_env_from c))) (found_of (rs1, ab1, conns))"
    using resolved_fold [of anc R "(rs, ab)" "c_env_from c" env_from_refs "env_from_step anc"]
      assms(2) acc f resolved_env_from by fastforce
  moreover have "fold_go (env_step anc) (c_env c) (rs1, ab1, conns) = Ok acc'"
    using assms(1) acc f by (simp add: container_step_def)
  ultimately have "resolved anc (R \<union> \<Union> (env_from_refs ` set (c_env_from c)) \<union> \<Union> (env_refs ` set (c_env c)))
      (found_of acc')"
    using resolved_fold_go [where sel = found_of and f = "env_step anc"] resolved_env_step by blast
  then show ?thesis by (simp add: container_refs_def Un_assoc)
qed

lemma resolved_containers:
  assumes "analyse_containers cs anc = Ok acc"
  shows "resolved anc (\<Union> (container_refs ` set cs)) (found_of acc)"
  using resolved_fold_go [where sel = found_of and f = "container_step anc" and R = "{}",
      OF assms [unfolded analyse_containers_def]] resolved_container_step resolved_empty
  by fastforce

lemma subject_step_other: "\<not> is_subject sa sub \<Longrightarrow> subject_step sa anc b rb sub acc = acc"
  by (auto simp: subject_step_def is_subject_def split: prod.splits)

definition role_refs :: "'r resource_set \<Rightarrow> 'r resource \<Rightarrow> role_binding \<Rightarrow> (string \<times> string) set" where
  "role_refs anc b rb =
     (if has_prefix (rb_role_name rb) ''system:'' then {ref_of b}
      else if (rb_role_name rb, rb_role_kind rb) \<in> available anc
      then {(rb_role_name rb, rb_role_kind rb), ref_of b}
      else {(rb_role_name rb, rb_role_kind rb)})"

lemma resolved_subject:
  assumes "resolved anc R acc" and "b \<in> set anc"
  shows "resolved anc (R \<union> (if is_subject sa sub then role_refs anc b rb else {}))
           (subject_step sa anc b rb sub acc)"
proof (cases "is_subject sa sub")
  case False
  with assms show ?thesis by (simp add: subject_step_other)
next
  case True
  obtain rs ab where acc: "acc = (rs, ab)" by fastforce
  show ?thesis
  proof (cases rule: rs_find_cases [of anc "rb_role_name rb" "rb_role_kind rb"])
    case (found role)
    then have av: "(rb_role_name rb, rb_role_kind rb) \<in> available anc"
      unfolding available_def by (metis image_eqI)
    have "resolved anc (insert (ref_of b) (insert (ref_of role) R)) (rs_add (rs_add rs role) b, ab)"
      using assms acc found by (intro resolved_add) auto
    moreover have "resolved anc (insert (ref_of b) R) (rs_add rs b, ab)"
      using assms acc by (intro resolved_add) auto
    ultimately show ?thesis
      using True acc found av by (auto simp: subject_step_def is_subject_def role_refs_def insert_commute)
  next
    case missing
    have "resolved anc (insert (rb_role_name rb, rb_role_kind rb) R)
        (rs, absent_register ab (rb_role_name rb) (rb_role_kind rb))"
      using assms acc missing by (intro resolved_register) auto
    moreover have "resolved anc (insert (ref_of b) R) (rs_add rs b, ab)"
      using assms acc by (intro resolved_add) auto
    ultimately show ?thesis
      using True acc missing by (auto simp: subject_step_def is_subject_def role_refs_def)
  qed
qed

lemma resolved_binding:
  assumes "binding_step decode sa anc b acc = Ok acc'" and "resolved anc R acc" and "b \<in> set anc"
  shows "resolved anc (R \<union> binding_refs decode sa anc b) acc'"
proof -
  from assms(1) obtain rb where rb: "decode (res_manifest b) = Inr rb"
    and acc': "acc' = fold (subject_step sa anc b rb) (rb_subjects rb) acc"
    by (auto simp: binding_step_def bind_go_Ok_iff)
  have "resolved anc (R \<union> \<Union> ((\<lambda>sub. if is_subject sa sub then role_refs anc b rb else {}) ` set (rb_subjects rb))) acc'"
    unfolding acc' by (rule resolved_fold [OF assms(2)]) (rule resolved_subject [OF _ assms(3)])
  moreover have "\<Union> ((\<lambda>sub. if is_subject sa sub then role_refs anc b rb else {}) ` set (rb_subjects rb)) =
      binding_refs decode sa anc b"
    by (auto simp: binding_refs_def rb role_refs_def)
  ultimately show ?thesis by simp
qed

lemma resolved_service_account:
  assumes "analyse_service_account C sa anc = Ok acc"
  shows "resolved anc (service_account_refs C sa anc) acc"
proof -
  from assms obtain mid where
    mid: "fold_go (binding_step (dec_cluster_role_binding C) sa anc) (filter_by_kind anc ''ClusterRoleBinding'') ([], []) = Ok mid"
    and fin: "fold_go (binding_step (dec_role_binding C) sa anc) (filter_by_kind anc ''RoleBinding'') mid = Ok acc"
    by (auto simp: analyse_service_account_def bind_go_Ok_iff)
  have "resolved anc ({} \<union> \<Union> (binding_refs (dec_cluster_role_binding C) sa anc `
      set (filter_by_kind anc ''ClusterRoleBinding''))) mid"
    by (rule resolved_fold_go [where sel = "\<lambda>x. x", OF mid]) (auto intro: resolved_empty resolved_binding)
  then have "resolved anc ({} \<union> \<Union> (binding_refs (dec_cluster_role_binding C) sa anc `
      set (filter_by_kind anc ''ClusterRoleBinding'')) \<union> \<Union> (binding_refs (dec_role_binding C) sa anc `
      set (filter_by_kind anc ''RoleBinding''))) acc"
    by (rule resolved_fold_go [where sel = "\<lambda>x. x", OF fin]) (auto intro: resolved_binding)
  then show ?thesis by (simp add: service_account_refs_def)
qed

lemma resolved_service_account_part:
  assumes "service_account_part C anc name acc = Ok acc'" and "resolved anc R acc"
  shows "resolved anc (R \<union> service_account_name_refs C anc name) acc'"
proof (cases "name = ''''")
  case True
  with assms show ?thesis by (auto simp: service_account_part_def service_account_name_refs_def)
next
  case False
  obtain rs ab where acc: "acc = (rs, ab)" by fastforce
  show ?thesis
  proof (cases rule: rs_find_cases [of anc name "''ServiceAccount''"])
    case (found sa)
    with assms(1) acc False obtain roles where roles: "analyse_service_account C sa anc = Ok roles"
      and acc': "acc' = (rs_merge (rs_add rs sa) (fst roles), absent_merge ab (snd roles))"
      by (auto simp: service_account_part_def bind_go_Ok_iff)
    have "resolved anc (insert (ref_of sa) R \<union> service_account_refs C sa anc)
        (rs_merge (fst (rs_add rs sa, ab)) (fst roles), absent_merge (snd (rs_add rs sa, ab)) (snd roles))"
      using assms(2) acc found by (intro resolved_merge resolved_add resolved_service_account [OF roles]) auto
    with acc' found False show ?thesis by (simp add: service_account_name_refs_def)
  next
    case missing
    with assms(1) acc False have "acc' = (rs, absent_register ab name ''ServiceAccount'')"
      by (simp add: service_account_part_def)
    with resolved_register [of anc R rs ab name "''ServiceAccount''"] assms(2) acc missing False
    show ?thesis by (simp add: service_account_name_refs_def)
  qed
qed

lemma analyse_pod_spec_OkE:
  assumes "analyse_pod_spec C w anc = Ok acc"
  obtains t mid rs missing conns where
    "extract_pod_template_spec C w = Ok t"
    "service_account_part C anc (service_account_name (pt_spec t))
       (fold (volume_step anc) (volumes (pt_spec t))
         (fold (\<lambda>name. add_or_register anc name ''Secret'') (image_pull_secrets (pt_spec t)) ([], []))) = Ok mid"
    "analyse_containers (containers (pt_spec t) @ init_containers (pt_spec t)) anc = Ok (rs, missing, conns)"
    "acc = (rs_merge (fst mid) rs, absent_merge (snd mid) missing, conns)"
  using assms by (auto simp: analyse_pod_spec_def bind_go_Ok_iff Let_def split: prod.splits)

lemma resolved_pod_spec:
  assumes "analyse_pod_spec C w anc = Ok acc" and "extract_pod_template_spec C w = Ok t"
  shows "resolved anc (pod_refs C anc (pt_spec t)) (found_of acc)"
proof -
  let ?pod = "pt_spec t"
  from analyse_pod_spec_OkE [OF assms(1)] assms(2) obtain mid rs missing conns where
    mid: "service_account_part C anc (service_account_name ?pod)
       (fold (volume_step anc) (volumes ?pod)
         (fold (\<lambda>name. add_or_register anc name ''Secret'') (image_pull_secrets ?pod) ([], []))) = Ok mid"
    and cs: "analyse_containers (containers ?pod @ init_containers ?pod) anc = Ok (rs, missing, conns)"
    and acc: "acc = (rs_merge (fst mid) rs, absent_merge (snd mid) missing, conns)"
    by (metis go.inject(1))
  have "resolved anc ({} \<union> \<Union> ((\<lambda>name. {(name, ''Secret'')}) ` set (image_pull_secrets ?pod)))
      (fold (\<lambda>name. add_or_register anc name ''Secret'') (image_pull_secrets ?pod) ([], []))"
    by (rule resolved_fold [OF resolved_empty]) (rule resolved_add_or_register)
  then have "resolved anc ({} \<union> \<Union> ((\<lambda>name. {(name, ''Secret'')}) ` set (image_pull_secrets ?pod)) \<union>
        \<Union> (volume_refs ` set (volumes ?pod)))
      (fold (volume_step anc) (volumes ?pod)
        (fold (\<lambda>name. add_or_register anc name ''Secret'') (image_pull_secrets ?pod) ([], [])))"
    by (rule resolved_fold) (rule resolved_volume)
  note resolved_service_account_part [OF mid this]
  from resolved_merge [OF this resolved_containers [OF cs]]
  show ?thesis by (simp add: acc pod_refs_def UNION_singleton_eq_range)
qed

lemma resolved_ingress_paths:
  assumes "resolved anc R (rs, [])" and "i \<in> set anc"
  shows "resolved anc (R \<union> (if Some (res_name s) \<in> set paths then {ref_of i} else {}))
           (fold (ingress_path_step s i) paths rs, [])"
  using assms(1)
proof (induction paths arbitrary: R rs)
  case (Cons p paths)
  have "resolved anc (R \<union> (if p = Some (res_name s) then {ref_of i} else {})) (ingress_path_step s i p rs, [])"
    using resolved_add [OF Cons.prems assms(2)] Cons.prems by (simp add: ingress_path_step_def)
  from Cons.IH [OF this] show ?case by (auto simp: Un_assoc insert_absorb split: if_splits)
qed simp

lemma resolved_ingress_rule:
  assumes "ingress_rule_step s i rule rs = Ok rs'" and "resolved anc R (rs, [])" and "i \<in> set anc"
  shows "resolved anc (R \<union> (case rule of None \<Rightarrow> {} | Some paths \<Rightarrow>
           (if Some (res_name s) \<in> set paths then {ref_of i} else {}))) (rs', [])"
proof (cases rule)
  case None
  with assms(1) show ?thesis by (simp add: ingress_rule_step_def)
next
  case (Some paths)
  with assms(1) resolved_ingress_paths [OF assms(2,3), of s paths] show ?thesis
    by (auto simp: ingress_rule_step_def)
qed

definition ingress_refs :: "'r codec \<Rightarrow> 'r resource \<Rightarrow> 'r resource \<Rightarrow> (string \<times> string) set" where
  "ingress_refs C s i = (case dec_ingress C (res_manifest i) of Inl e \<Rightarrow> {} | Inr rules \<Rightarrow>
     \<Union> ((\<lambda>rule. case rule of None \<Rightarrow> {} | Some paths \<Rightarrow>
          (if Some (res_name s) \<in> set paths then {ref_of i} else {})) ` set rules))"

lemma resolved_ingress:
  assumes "ingress_step C s i rs = Ok rs'" and "resolved anc R (rs, [])" and "i \<in> set anc"
  shows "resolved anc (R \<union> ingress_refs C s i) (rs', [])"
proof -
  from assms(1) obtain rules where rules: "dec_ingress C (res_manifest i) = Inr rules"
    and fold: "fold_go (ingress_rule_step s i) rules rs = Ok rs'"
    by (auto simp: ingress_step_def bind_go_Ok_iff)
  have "resolved anc (R \<union> \<Union> ((\<lambda>rule. case rule of None \<Rightarrow> {} | Some paths \<Rightarrow>
          (if Some (res_name s) \<in> set paths then {ref_of i} else {})) ` set rules)) (rs', [])"
    by (rule resolved_fold_go [where sel = "\<lambda>rs. (rs, [])", OF fold assms(2)])
       (rule resolved_ingress_rule [OF _ _ assms(3)])
  with rules show ?thesis by (simp add: ingress_refs_def)
qed

definition route_refs :: "'r codec \<Rightarrow> 'r resource \<Rightarrow> 'r resource \<Rightarrow> (string \<times> string) set" where
  "route_refs C s r = (case dec_route C (res_manifest r) of Inl e \<Rightarrow> {} | Inr to \<Rightarrow>
     (if ref_kind to = ''Service'' \<and> ref_name to = res_name s then {ref_of r} else {}))"

lemma resolved_route:
  assumes "route_step C s r rs = Ok rs'" and "resolved anc R (rs, [])" and "r \<in> set anc"
  shows "resolved anc (R \<union> route_refs C s r) (rs', [])"
  using assms resolved_add [OF assms(2,3)]
  by (auto simp: route_step_def bind_go_Ok_iff route_refs_def split: if_splits)

lemma resolved_access:
  assumes "find_external_network_access_resources C s anc = Ok rs"
  shows "resolved anc (access_refs C s anc) (rs, [])"
proof -
  from assms obtain mid where
    mid: "fold_go (ingress_step C s) (filter_by_kind anc ''Ingress'') [] = Ok mid"
    and fin: "fold_go (route_step C s) (filter_by_kind anc ''Route'') mid = Ok rs"
    by (auto simp: find_external_network_access_resources_def bind_go_Ok_iff)
  have "resolved anc ({} \<union> \<Union> (ingress_refs C s ` set (filter_by_kind anc ''Ingress''))) (mid, [])"
    by (rule resolved_fold_go [where sel = "\<lambda>rs. (rs, [])", OF mid]) (auto intro: resolved_empty resolved_ingress)
  then have *: "resolved anc ({} \<union> \<Union> (ingress_refs C s ` set (filter_by_kind anc ''Ingress'')) \<union>
      \<Union> (route_refs C s ` set (filter_by_kind anc ''Route''))) (rs, [])"
    by (rule resolved_fold_go [where sel = "\<lambda>rs. (rs, [])", OF fin]) (auto intro: resolved_route)
  have i: "\<Union> (ingress_refs C s ` set (filter_by_kind anc ''Ingress'')) =
      {ref_of i | i rules paths. i \<in> set anc \<and> res_kind i = ''Ingress'' \<and>
        dec_ingress C (res_manifest i) = Inr rules \<and> Some paths \<in> set rules \<and> Some (res_name s) \<in> set paths}"
    by (fastforce simp: ingress_refs_def split: sum.splits option.splits if_splits)
  have r: "\<Union> (route_refs C s ` set (filter_by_kind anc ''Route'')) =
      {ref_of r | r to. r \<in> set anc \<and> res_kind r = ''Route'' \<and>
        dec_route C (res_manifest r) = Inr to \<and> ref_kind to = ''Service'' \<and> ref_name to = res_name s}"
    by (fastforce simp: route_refs_def split: sum.splits if_splits)
  show ?thesis using * unfolding i r access_refs_def by simp
qed

lemma resolved_monitor_labels:
  assumes "resolved anc R (rs, [])" and "m \<in> set anc"
  shows "resolved anc (R \<union> (if (key, val) \<in> set kvs then {ref_of m} else {}))
           (fold (monitor_label_step key val m) kvs rs, [])"
  using assms(1)
proof (induction kvs arbitrary: R rs)
  case (Cons kv kvs)
  have "resolved anc (R \<union> (if kv = (key, val) then {ref_of m} else {})) (monitor_label_step key val m kv rs, [])"
    using resolved_add [OF Cons.prems assms(2)] Cons.prems
    by (cases kv) (auto simp: monitor_label_step_def)
  from Cons.IH [OF this] show ?case by (auto simp: Un_assoc insert_absorb split: if_splits)
qed simp

definition expression_selects :: "string \<Rightarrow> string \<Rightarrow> selector_expression \<Rightarrow> bool" where
  "expression_selects key val e \<longleftrightarrow> se_operator e = ''In'' \<and> se_key e = key \<and> val \<in> set (se_values e)"

lemma resolved_monitor_expressions:
  assumes "resolved anc R (rs, [])" and "m \<in> set anc"
  shows "resolved anc (R \<union> (if \<exists>e \<in> set es. expression_selects key val e then {ref_of m} else {}))
           (fold (monitor_expression_step key val m) es rs, [])"
  using assms(1)
proof (induction es arbitrary: R rs)
  case (Cons e es)
  have "resolved anc (R \<union> (if expression_selects key val e then {ref_of m} else {}))
      (monitor_expression_step key val m e rs, [])"
    using resolved_add [OF Cons.prems assms(2)] Cons.prems
    by (auto simp: monitor_expression_step_def expression_selects_def)
  from Cons.IH [OF this] show ?case by (auto simp: Un_assoc insert_absorb split: if_splits)
qed simp

definition one_monitor_refs :: "'r codec \<Rightarrow> string \<times> string \<Rightarrow> 'r resource \<Rightarrow> (string \<times> string) set" where
  "one_monitor_refs C kv m = (case dec_service_monitor C (res_manifest m) of Inl e \<Rightarrow> {} | Inr sel \<Rightarrow>
     (if kv \<in> set (match_labels sel) then {ref_of m} else {}) \<union>
     (if \<exists>e \<in> set (match_expressions sel). expression_selects (fst kv) (snd kv) e then {ref_of m} else {}))"

lemma in_one_monitor_refs:
  "x \<in> one_monitor_refs C kv m \<longleftrightarrow> (\<exists>sel. dec_service_monitor C (res_manifest m) = Inr sel \<and>
     (kv \<in> set (match_labels sel) \<or>
      (\<exists>e \<in> set (match_expressions sel). expression_selects (fst kv) (snd kv) e)) \<and> x = ref_of m)"
  by (cases "dec_service_monitor C (res_manifest m)") (auto simp: one_monitor_refs_def)

lemma resolved_monitor:
  assumes "monitor_step C (fst kv) (snd kv) m rs = Ok rs'" and "resolved anc R (rs, [])" and "m \<in> set anc"
  shows "resolved anc (R \<union> one_monitor_refs C kv m) (rs', [])"
proof -
  from assms(1) obtain sel where sel: "dec_service_monitor C (res_manifest m) = Inr sel"
    and rs': "rs' = fold (monitor_expression_step (fst kv) (snd kv) m) (match_expressions sel)
                      (fold (monitor_label_step (fst kv) (snd kv) m) (match_labels sel) rs)"
    by (auto simp: monitor_step_def bind_go_Ok_iff)
  show ?thesis
    unfolding rs' one_monitor_refs_def sel sum.case Un_assoc [symmetric]
    using resolved_monitor_labels [OF assms(2,3), of "fst kv" "snd kv"]
    by (intro resolved_monitor_expressions assms(3)) simp
qed

lemma resolved_monitors:
  assumes "find_service_monitor_resources C (fst kv) (snd kv) anc = Ok rs"
  shows "resolved anc (monitor_refs C kv anc) (rs, [])"
proof -
  have "resolved anc ({} \<union> \<Union> (one_monitor_refs C kv ` set (filter_by_kind anc ''ServiceMonitor''))) (rs, [])"
    by (rule resolved_fold_go [where sel = "\<lambda>rs. (rs, [])",
          OF assms [unfolded find_service_monitor_resources_def]]) (auto intro: resolved_empty resolved_monitor)
  moreover have "\<Union> (one_monitor_refs C kv ` set (filter_by_kind anc ''ServiceMonitor'')) = monitor_refs C kv anc"
    unfolding monitor_refs_def expression_selects_def [symmetric]
    by (rule set_eqI) (simp add: in_one_monitor_refs, blast)
  ultimately show ?thesis by simp
qed

lemma resolved_selector:
  assumes "selector_step C anc labels s kv rs = Ok rs'" and "resolved anc R (rs, ab)" and "s \<in> set anc"
  shows "resolved anc (R \<union> (if labels (fst kv) = Some (snd kv)
           then insert (ref_of s) (access_refs C s anc \<union> monitor_refs C kv anc) else {})) (rs', ab)"
proof (cases "labels (fst kv) = Some (snd kv)")
  case False
  with assms show ?thesis by (simp add: selector_step_def)
next
  case True
  with assms(1) obtain acs mons where
    acs: "find_external_network_access_resources C s anc = Ok acs"
    and mons: "find_service_monitor_resources C (fst kv) (snd kv) anc = Ok mons"
    and rs': "rs' = rs_merge (rs_merge (rs_add rs s) acs) mons"
    by (auto simp: selector_step_def bind_go_Ok_iff)
  have "resolved anc (insert (ref_of s) R \<union> access_refs C s anc \<union> monitor_refs C kv anc) (rs', ab)"
    unfolding rs'
    by (intro resolved_merge_found resolved_add assms resolved_access [OF acs] resolved_monitors [OF mons])
  with True show ?thesis by (simp add: Un_assoc Un_left_commute insert_commute)
qed

lemma resolved_service:
  assumes "service_step C anc labels s rs = Ok rs'" and "resolved anc R (rs, ab)" and "s \<in> set anc"
  shows "resolved anc (R \<union> service_refs C anc labels s) (rs', ab)"
proof -
  from assms(1) obtain selector where sel: "dec_service C (res_manifest s) = Inr selector"
    and fold: "fold_go (selector_step C anc labels s) selector rs = Ok rs'"
    by (auto simp: service_step_def bind_go_Ok_iff)
  have "resolved anc (R \<union> \<Union> ((\<lambda>kv. if labels (fst kv) = Some (snd kv)
           then insert (ref_of s) (access_refs C s anc \<union> monitor_refs C kv anc) else {}) ` set selector)) (rs', ab)"
    by (rule resolved_fold_go [where sel = "\<lambda>rs. (rs, ab)", OF fold assms(2)])
       (rule resolved_selector [OF _ _ assms(3)])
  moreover have "\<Union> ((\<lambda>kv. if labels (fst kv) = Some (snd kv)
           then insert (ref_of s) (access_refs C s anc \<union> monitor_refs C kv anc) else {}) ` set selector) =
      service_refs C anc labels s"
    by (auto simp: service_refs_def sel selected_def split: if_splits)
  ultimately show ?thesis by simp
qed

lemma resolved_stateful_set:
  assumes "stateful_set_service C w anc = Ok acc"
  shows "resolved anc (stateful_set_refs C w) acc"
  using assms resolved_add_or_register [OF resolved_empty, of anc] resolved_empty [of anc]
  by (auto simp: stateful_set_service_def stateful_set_refs_def bind_go_Ok_iff
      simp del: add_or_register.simps split: if_splits)

lemma resolved_network:
  assumes "extract_network_resources C w anc = Ok acc" and "extract_pod_template_spec C w = Ok t"
  shows "resolved anc (stateful_set_refs C w \<union>
    \<Union> (service_refs C anc (pt_labels t) ` {s \<in> set anc. res_kind s = ''Service''})) acc"
proof -
  from assms obtain st rs where st: "stateful_set_service C w anc = Ok st"
    and fold: "fold_go (service_step C anc (pt_labels t)) (filter_by_kind anc ''Service'') (fst st) = Ok rs"
    and acc: "acc = (rs, snd st)"
    by (auto simp: extract_network_resources_def bind_go_Ok_iff)
  have "resolved anc (stateful_set_refs C w) (fst st, snd st)"
    using resolved_stateful_set [OF st] by simp
  then have "resolved anc (stateful_set_refs C w \<union>
      \<Union> (service_refs C anc (pt_labels t) ` set (filter_by_kind anc ''Service''))) (rs, snd st)"
    by (rule resolved_fold_go [where sel = "\<lambda>rs. (rs, snd st)", OF fold]) (auto intro: resolved_service)
  then show ?thesis by (simp add: acc)
qed

definition one_hpa_refs :: "'r codec \<Rightarrow> lib \<Rightarrow> 'r resource \<Rightarrow> 'r resource \<Rightarrow> (string \<times> string) set" where
  "one_hpa_refs C L w h = (case dec_hpa C (res_manifest h) of Inl e \<Rightarrow> {} | Inr t \<Rightarrow>
     (if ref_kind t = res_kind w \<and> ref_name t = res_name w \<and>
         ref_api_version t = group_version_string L (gvk_group (res_gvk w)) (gvk_version (res_gvk w))
      then {ref_of h} else {}))"

lemma in_one_hpa_refs:
  "x \<in> one_hpa_refs C L w h \<longleftrightarrow> (\<exists>t. dec_hpa C (res_manifest h) = Inr t \<and> ref_kind t = res_kind w \<and>
     ref_name t = res_name w \<and>
     ref_api_version t = group_version_string L (gvk_group (res_gvk w)) (gvk_version (res_gvk w)) \<and>
     x = ref_of h)"
  by (cases "dec_hpa C (res_manifest h)") (auto simp: one_hpa_refs_def)

lemma resolved_hpa_step:
  assumes "hpa_step C L w h rs = Ok rs'" and "resolved anc R (rs, [])" and "h \<in> set anc"
  shows "resolved anc (R \<union> one_hpa_refs C L w h) (rs', [])"
  using assms resolved_add [OF assms(2,3)]
  by (auto simp: hpa_step_def bind_go_Ok_iff one_hpa_refs_def split: if_splits)

lemma resolved_hpas:
  assumes "find_hpa_definition C L w anc = Ok rs"
  shows "resolved anc (hpa_refs C L w anc) (rs, [])"
proof -
  have "resolved anc ({} \<union> \<Union> (one_hpa_refs C L w ` set (filter_by_kind anc ''HorizontalPodAutoscaler''))) (rs, [])"
    by (rule resolved_fold_go [where sel = "\<lambda>rs. (rs, [])", OF assms [unfolded find_hpa_definition_def]])
       (auto intro: resolved_empty resolved_hpa_step)
  moreover have "\<Union> (one_hpa_refs C L w ` set (filter_by_kind anc ''HorizontalPodAutoscaler'')) = hpa_refs C L w anc"
    unfolding hpa_refs_def by (rule set_eqI) (simp add: in_one_hpa_refs, blast)
  ultimately show ?thesis by simp
qed

lemma resolved_namespace:
  assumes "workload_namespace_part w anc = Ok rs"
  shows "resolved anc (if res_namespace w = ''default'' then {} else {(res_namespace w, ''Namespace'')}) (rs, [])"
proof (cases "res_namespace w = ''default''")
  case True
  with assms show ?thesis by (simp add: workload_namespace_part_def resolved_empty)
next
  case False
  show ?thesis
  proof (cases rule: rs_find_cases [of anc "res_namespace w" "''Namespace''"])
    case (found r)
    with resolved_add [OF resolved_empty found(2)] assms False show ?thesis
      by (simp add: workload_namespace_part_def)
  next
    case missing
    with assms False show ?thesis by (simp add: workload_namespace_part_def)
  qed
qed

lemma analyse_workload_OkE:
  assumes "analyse_workload C L w anc = Ok acc"
  obtains ns pod_rs pod_ab conns net_rs net_ab hpas where
    "workload_namespace_part w anc = Ok ns"
    "analyse_pod_spec C w anc = Ok (pod_rs, pod_ab, conns)"
    "extract_network_resources C w anc = Ok (net_rs, net_ab)"
    "find_hpa_definition C L w anc = Ok hpas"
    "acc = (rs_merge (rs_merge (rs_merge ns pod_rs) net_rs) hpas,
            absent_merge (absent_merge [] pod_ab) net_ab, conns)"
  using assms by (auto simp: analyse_workload_def bind_go_Ok_iff split: prod.splits)

lemma analyse_workload_resolved:
  assumes "analyse_workload C L w anc = Ok acc" and "extract_pod_template_spec C w = Ok t"
  shows "resolved anc (workload_refs C L w anc t) (found_of acc)"
proof -
  from analyse_workload_OkE [OF assms(1)] obtain ns pod_rs pod_ab conns net_rs net_ab hpas where
    p: "workload_namespace_part w anc = Ok ns" "analyse_pod_spec C w anc = Ok (pod_rs, pod_ab, conns)"
      "extract_network_resources C w anc = Ok (net_rs, net_ab)" "find_hpa_definition C L w anc = Ok hpas"
    and acc: "acc = (rs_merge (rs_merge (rs_merge ns pod_rs) net_rs) hpas,
            absent_merge (absent_merge [] pod_ab) net_ab, conns)" by blast
  note 1 = resolved_merge [OF resolved_namespace [OF p(1)] resolved_pod_spec [OF p(2) assms(2)]]
  note 2 = resolved_merge [OF 1 resolved_network [OF p(3) assms(2)]]
  from resolved_merge [OF 2 resolved_hpas [OF p(4)]]
  show ?thesis by (simp add: acc workload_refs_def absent_merge_def)
qed

section \<open>The external connections of a workload\<close>

text \<open>
  An environment variable that names a service and a port is a connection. The regular
  expression bounds neither the port nor its number of digits, so the conversion of the
  port can fail, and then so does the analysis.
\<close>

definition port_overflows :: "env_var \<Rightarrow> bool" where
  "port_overflows ev \<longleftrightarrow>
     match_service_port (ev_value ev) \<and> max_int64 < digits_val (split_on (CHR '':'') (ev_value ev) ! 1)"

definition connections_of :: "env_var \<Rightarrow> service_port_pair list" where
  "connections_of ev =
     (if match_service_port (ev_value ev)
      then [\<lparr>spp_service = split_on (CHR '':'') (ev_value ev) ! 0,
             spp_port = digits_val (split_on (CHR '':'') (ev_value ev) ! 1)\<rparr>]
      else [])"

lemma service_connection_eq:
  "service_connection ev =
     (if port_overflows ev then Fail (PlainError ''value out of range'') else Ok (connections_of ev))"
proof (cases "match_service_port (ev_value ev)")
  case True
  then obtain h ds where s: "split_on (CHR '':'') (ev_value ev) = [h, ds]" "ds \<noteq> []" "list_all is_digit ds"
    using match_service_port_split by blast
  have "ev_value ev \<noteq> ''''" using True by (auto simp: match_service_port_def)
  with True s atoi_digits [OF s(2,3)] show ?thesis
    by (auto simp: service_connection_def is_service_name_port_reference_def port_overflows_def
        connections_of_def Let_def)
next
  case False
  then show ?thesis
    by (simp add: service_connection_def is_service_name_port_reference_def port_overflows_def connections_of_def)
qed

lemma env_step_eq:
  "env_step anc ev (rs, ab, conns) =
     (if port_overflows ev then Fail (PlainError ''value out of range'')
      else Ok (fst (env_value_from anc ev (rs, ab)), snd (env_value_from anc ev (rs, ab)), conns @ connections_of ev))"
  by (simp add: env_step_def service_connection_eq split: prod.splits)

lemma env_fold:
  "(if \<exists>ev \<in> set evs. port_overflows ev
    then fold_go (env_step anc) evs acc = Fail (PlainError ''value out of range'')
    else \<exists>rs ab. fold_go (env_step anc) evs acc = Ok (rs, ab, snd (snd acc) @ concat (map connections_of evs)))"
proof (induction evs arbitrary: acc)
  case Nil
  show ?case by (cases acc) simp
next
  case (Cons ev evs)
  obtain rs ab conns where acc: "acc = (rs, ab, conns)" by (cases acc) auto
  show ?case
    using Cons.IH [of "(fst (env_value_from anc ev (rs, ab)), snd (env_value_from anc ev (rs, ab)), conns @ connections_of ev)"]
    by (auto simp: acc env_step_eq split: if_splits)
qed

lemma containers_fold:
  "(if \<exists>c \<in> set cs. \<exists>ev \<in> set (c_env c). port_overflows ev
    then fold_go (container_step anc) cs acc = Fail (PlainError ''value out of range'')
    else \<exists>rs ab. fold_go (container_step anc) cs acc =
           Ok (rs, ab, snd (snd acc) @ concat (map connections_of (concat (map c_env cs)))))"
proof (induction cs arbitrary: acc)
  case Nil
  show ?case by (cases acc) simp
next
  case (Cons c cs)
  obtain rs ab conns where acc: "acc = (rs, ab, conns)" by (cases acc) auto
  obtain rs' ab' where mid: "fold (env_from_step anc) (c_env_from c) (rs, ab) = (rs', ab')" by fastforce
  have step: "container_step anc c acc = fold_go (env_step anc) (c_env c) (rs', ab', conns)"
    by (simp add: container_step_def acc mid)
  show ?case
  proof (cases "\<exists>ev \<in> set (c_env c). port_overflows ev")
    case True
    with env_fold [of "c_env c" anc "(rs', ab', conns)"] show ?thesis by (simp add: step)
  next
    case False
    with env_fold [of "c_env c" anc "(rs', ab', conns)"] obtain r a where
      "container_step anc c acc = Ok (r, a, conns @ concat (map connections_of (c_env c)))"
      by (auto simp: step)
    with Cons.IH [of "(r, a, conns @ concat (map connections_of (c_env c)))"] False
    show ?thesis by (auto simp: acc)
  qed
qed

lemma analyse_containers_eq:
  "(if \<exists>c \<in> set cs. \<exists>ev \<in> set (c_env c). port_overflows ev
    then analyse_containers cs anc = Fail (PlainError ''value out of range'')
    else \<exists>rs ab. analyse_containers cs anc = Ok (rs, ab, concat (map connections_of (concat (map c_env cs)))))"
  using containers_fold [of cs anc "([], [], [])"]
  unfolding analyse_containers_def by (simp only: snd_conv append_Nil)

text \<open>The connections of a workload are those of its containers and init containers.\<close>

lemma analyse_workload_connections:
  assumes "analyse_workload C L w anc = Ok (rs, missing, conns)" and "extract_pod_template_spec C w = Ok t"
  shows "conns = concat (map connections_of (concat (map c_env (containers (pt_spec t) @ init_containers (pt_spec t)))))"
proof -
  from analyse_workload_OkE [OF assms(1)] obtain pod_rs pod_ab where
    pod: "analyse_pod_spec C w anc = Ok (pod_rs, pod_ab, conns)" by (metis prod.inject)
  with assms(2) obtain r a where
    "analyse_containers (containers (pt_spec t) @ init_containers (pt_spec t)) anc = Ok (r, a, conns)"
    by (auto simp: analyse_pod_spec_def bind_go_Ok_iff Let_def split: prod.splits)
  with analyse_containers_eq [of "containers (pt_spec t) @ init_containers (pt_spec t)" anc]
  show ?thesis by (auto split: if_splits)
qed

text \<open>An ingress rule without paths panics as soon as a service is selected.\<close>

lemma ingress_rules_eq:
  "fold_go (ingress_rule_step s i) rules rs = Panic \<longleftrightarrow> None \<in> set rules"
  by (induction rules arbitrary: rs) (auto simp: ingress_rule_step_def split: option.splits)

end
