(* ===== verification/P2_Utils.thy ===== *)
theory P2_Utils
  imports P2_Types
begin

text \<open>
  \<^verbatim>\<open>utils/utils.go\<close>: truncation of resource names and sentence case. A slice
  \<open>s[:n]\<close> panics when \<open>n\<close> exceeds the length.
\<close>

definition max_resource_name_length :: nat where
  "max_resource_name_length = 63"

definition slice_to :: "string \<Rightarrow> nat \<Rightarrow> ('e, string) go" where
  "slice_to s n = (if n \<le> length s then Ok (take n s) else Panic)"

definition truncate_name_if_needed :: "lib \<Rightarrow> string \<Rightarrow> (go_error, string) go" where
  "truncate_name_if_needed L name =
     (if is_qualified_name L name \<noteq> []
      then bind_go (slice_to name max_resource_name_length) (\<lambda>truncated.
             Ok (trim_right (CHR ''-'') truncated))
      else Ok name)"

definition sentence_case :: "string \<Rightarrow> (go_error, string) go" where
  "sentence_case s = (case s of [] \<Rightarrow> Panic | c # cs \<Rightarrow> Ok (to_upper_byte c @ cs))"

text \<open>
  What the code relies on of \<open>validation.IsQualifiedName\<close>: a name of at most 63 bytes made
  of letters, digits, dashes, underscores and dots, with a letter or digit at both ends,
  is accepted, and a name without a slash of more than 63 bytes is not.
\<close>

definition alnum :: "char \<Rightarrow> bool" where
  "alnum c \<longleftrightarrow>
     (let n = of_char c :: nat in
        (97 \<le> n \<and> n \<le> 122) \<or> (65 \<le> n \<and> n \<le> 90) \<or> (48 \<le> n \<and> n \<le> 57))"

definition name_char :: "char \<Rightarrow> bool" where
  "name_char c \<longleftrightarrow> alnum c \<or> c = CHR ''-'' \<or> c = CHR ''_'' \<or> c = CHR ''.''"

definition label_name :: "string \<Rightarrow> bool" where
  "label_name s \<longleftrightarrow> s \<noteq> [] \<and> list_all name_char s \<and> alnum (hd s) \<and> alnum (last s)"

definition qualified_name_spec :: "lib \<Rightarrow> bool" where
  "qualified_name_spec L \<longleftrightarrow>
     (\<forall>s. CHR ''/'' \<notin> set s \<longrightarrow> (is_qualified_name L s = [] \<longleftrightarrow> label_name s \<and> length s \<le> 63))"

text \<open>
  A name of a Kubernetes object (DNS subdomain): lower-case letters, digits, dashes and
  dots, with a letter or digit at both ends, at most 253 bytes.
\<close>

definition dns_char :: "char \<Rightarrow> bool" where
  "dns_char c \<longleftrightarrow>
     (let n = of_char c :: nat in
        (97 \<le> n \<and> n \<le> 122) \<or> (48 \<le> n \<and> n \<le> 57) \<or> c = CHR ''-'' \<or> c = CHR ''.'')"

definition dns_name :: "string \<Rightarrow> bool" where
  "dns_name s \<longleftrightarrow> s \<noteq> [] \<and> length s \<le> 253 \<and> list_all dns_char s \<and> alnum (hd s) \<and> alnum (last s)"

lemma dns_char_name_char: "dns_char c \<Longrightarrow> name_char c"
  by (auto simp: dns_char_def name_char_def alnum_def Let_def)

lemma dns_name_label_name: "dns_name s \<Longrightarrow> label_name s"
  by (auto simp: dns_name_def label_name_def list_all_iff dns_char_name_char)

lemma dns_name_no_slash: "dns_name s \<Longrightarrow> CHR ''/'' \<notin> set s"
  by (auto simp: dns_name_def list_all_iff dns_char_def)

lemma truncate_short:
  assumes "qualified_name_spec L" and "dns_name s" and "length s \<le> 63"
  shows "truncate_name_if_needed L s = Ok s"
  using assms dns_name_no_slash [OF assms(2)] dns_name_label_name [OF assms(2)]
  by (simp add: truncate_name_if_needed_def qualified_name_spec_def)

lemma truncate_long:
  assumes "qualified_name_spec L" and "dns_name s" and "63 < length s"
  shows "truncate_name_if_needed L s = Ok (trim_right (CHR ''-'') (take 63 s))"
proof -
  have "is_qualified_name L s \<noteq> []"
    using assms dns_name_no_slash [OF assms(2)] by (auto simp: qualified_name_spec_def)
  with assms(3) show ?thesis
    by (simp add: truncate_name_if_needed_def slice_to_def max_resource_name_length_def)
qed

lemma truncate_Ok_length:
  assumes "truncate_name_if_needed L s = Ok t"
  shows "is_qualified_name L s = [] \<and> t = s \<or> length t \<le> 63"
  using assms length_trim_right [of "CHR ''-''" "take 63 s"]
  by (auto simp: truncate_name_if_needed_def slice_to_def max_resource_name_length_def bind_go_Ok_iff
      split: if_splits)

lemma truncate_panics_iff:
  "truncate_name_if_needed L s = Panic \<longleftrightarrow> is_qualified_name L s \<noteq> [] \<and> length s < 63"
  by (auto simp: truncate_name_if_needed_def slice_to_def max_resource_name_length_def)

lemma truncate_no_Fail [simp]: "truncate_name_if_needed L s \<noteq> Fail e"
  by (auto simp: truncate_name_if_needed_def slice_to_def)

lemma sentence_case_no_Fail [simp]: "sentence_case s \<noteq> Fail e"
  by (auto simp: sentence_case_def split: list.splits)

text \<open>A concrete validator, for evaluation: the rule of \<open>qualified_name_spec\<close> itself.\<close>

definition sample_qualified_name :: "string \<Rightarrow> string list" where
  "sample_qualified_name s = (if label_name s \<and> length s \<le> 63 then [] else [''invalid''])"

end
