(* ===== verification/P2_Bundle.thy ===== *)
theory P2_Bundle
  imports P2_Annotations P2_Analyse_Spec P2_Utils
begin

text \<open>
  \<^verbatim>\<open>internal/controller/bundle.go\<close>: bundles, bundle lists and the grouping of the
  manifests into bundles. A \<open>BundleList\<close> is a slice of pointers; the list a reconcile run
  works on is created by that run, so an assignment through a bundle's pointer is an
  update of the list element it was found at.
\<close>

section \<open>Bundles and bundle lists\<close>

definition zero_details :: scheduling_details where
  "zero_details = \<lparr>placement_requests = None, cluster_name = '''', resource_name = ''''\<rparr>"

definition bundle_update :: "'r workload_bundle \<Rightarrow> requirements \<Rightarrow> 'r resource_set \<Rightarrow> 'r workload_bundle" where
  "bundle_update b requests resources =
     b\<lparr>bundle_resources := resources, absent_resources := [], external_connections := [],
       scheduling_details := zero_details\<rparr>"

definition add_bundle :: "'r bundle_list \<Rightarrow> 'r workload_bundle \<Rightarrow> 'r bundle_list" where
  "add_bundle bl b = bl @ [b]"

fun get_bundle :: "'r bundle_list \<Rightarrow> string \<Rightarrow> 'r workload_bundle option" where
  "get_bundle [] name = None"
| "get_bundle (b # bl) name = (if bundle_name b = name then Some b else get_bundle bl name)"

text \<open>An assignment through the pointer \<open>getBundle\<close> returned.\<close>

fun assign_bundle ::
    "'r bundle_list \<Rightarrow> string \<Rightarrow> ('r workload_bundle \<Rightarrow> 'r workload_bundle) \<Rightarrow> 'r bundle_list" where
  "assign_bundle [] name f = []"
| "assign_bundle (b # bl) name f =
     (if bundle_name b = name then f b # bl else b # assign_bundle bl name f)"

text \<open>\<open>delete(r.Bundles, name)\<close> on the reconciler's map.\<close>

definition delete_bundles :: "(string \<rightharpoonup> 'r bundle_list) \<Rightarrow> string \<Rightarrow> (string \<rightharpoonup> 'r bundle_list)" where
  "delete_bundles m name = m(name := None)"

text \<open>\<open>slices.Concat\<close> of two slices is nil when both are empty.\<close>

definition concat_rules :: "requirement list \<Rightarrow> requirement list \<Rightarrow> requirements" where
  "concat_rules xs ys = (if xs @ ys = [] then None else Some (xs @ ys))"

section \<open>Grouping manifests into bundles\<close>

definition single_bundle ::
    "lib \<Rightarrow> string \<Rightarrow> string \<Rightarrow> requirement list \<Rightarrow> 'r resource_set \<Rightarrow> 'r bundle_list
       \<Rightarrow> (go_error, 'r bundle_list) go" where
  "single_bundle L name owner rules resources bundles =
     (case get_bundle bundles name of
        Some b \<Rightarrow> Ok (assign_bundle bundles name (\<lambda>b. bundle_update b (Some rules) resources))
      | None \<Rightarrow> bind_go (truncate_name_if_needed L (name @ ''-'' @ owner)) (\<lambda>rn.
          Ok (add_bundle bundles
            \<lparr>bundle_name = name, bundle_resources = resources, absent_resources = [],
             external_connections = [],
             scheduling_details = \<lparr>placement_requests = Some rules, cluster_name = '''',
               resource_name = rn\<rparr>\<rparr>)))"

definition workload_bundle_step ::
    "'r codec \<Rightarrow> lib \<Rightarrow> requirement list \<Rightarrow> 'r resource_set \<Rightarrow> string \<Rightarrow> 'r resource
       \<Rightarrow> 'r bundle_list \<Rightarrow> (go_error, 'r bundle_list) go" where
  "workload_bundle_step C L common anc owner w bundles =
     bind_go (analyse_workload C L w anc) (\<lambda>(ancillary, missing, conns).
     let resources = w # ancillary in
     bind_go (extract_placement_rules (res_annotations w)) (\<lambda>additional.
     let rules = concat_rules common additional; name = res_name w in
     case get_bundle bundles name of
       Some b \<Rightarrow> Ok (assign_bundle bundles name (\<lambda>b.
         b\<lparr>scheduling_details := (scheduling_details b)\<lparr>placement_requests := rules\<rparr>,
           bundle_resources := resources, absent_resources := missing,
           external_connections := conns\<rparr>))
     | None \<Rightarrow> bind_go (truncate_name_if_needed L (name @ ''-'' @ owner)) (\<lambda>rn.
         Ok (add_bundle bundles
           \<lparr>bundle_name = name, bundle_resources = resources, absent_resources = missing,
            external_connections = conns,
            scheduling_details = \<lparr>placement_requests = rules, cluster_name = '''',
              resource_name = rn\<rparr>\<rparr>))))"

definition workload_bundles ::
    "'r codec \<Rightarrow> lib \<Rightarrow> requirement list \<Rightarrow> 'r p2m \<Rightarrow> 'r resource_set \<Rightarrow> 'r bundle_list
       \<Rightarrow> (go_error, 'r bundle_list) go" where
  "workload_bundles C L common m resources bundles =
     (case categorise resources of (workloads, anc) \<Rightarrow>
        (case assign_workload_annotations workloads (workload_annotations (p2m_spec m)) of
           Fail e \<Rightarrow> Fail (MisconfiguredManifestError
             (''invalid workload annotation provided : '' @ error_text e))
         | Panic \<Rightarrow> Panic
         | Ok ws \<Rightarrow> fold_go (workload_bundle_step C L common anc (p2m_name m)) ws bundles))"

definition build_and_update_bundles ::
    "'r codec \<Rightarrow> lib \<Rightarrow> 'r bundle_list \<Rightarrow> 'r p2m \<Rightarrow> (go_error, 'r bundle_list) go" where
  "build_and_update_bundles C L bundles m =
     bind_go (bulk_convert_to_resource_set C L (manifests (p2m_spec m))) (\<lambda>resources.
     bind_go (extract_placement_rules (global_annotations (p2m_spec m))) (\<lambda>common.
     bind_go (if length common = 0 \<and> length (workload_annotations (p2m_spec m)) = 0
              then single_bundle L ''default'' (p2m_name m) [] resources bundles
              else Ok bundles) (\<lambda>bundles.
     bind_go (if 0 < length common \<and> length (workload_annotations (p2m_spec m)) = 0
              then single_bundle L ''global'' (p2m_name m) common resources bundles
              else Ok bundles) (\<lambda>bundles.
     if 0 < length (workload_annotations (p2m_spec m))
     then workload_bundles C L common m resources bundles
     else Ok bundles))))"

section \<open>Lookup\<close>

interpretation bundle_by_name: first_match get_bundle "\<lambda>name b. bundle_name b = name"
  by unfold_locales simp_all

lemma assign_bundle_names:
  "(\<And>b. bundle_name (f b) = bundle_name b) \<Longrightarrow>
     map bundle_name (assign_bundle bl name f) = map bundle_name bl"
  by (induction bl) auto

lemma get_bundle_None_iff: "get_bundle bl name = None \<longleftrightarrow> name \<notin> bundle_name ` set bl"
  by (auto simp: bundle_by_name.search_None_iff)

text \<open>With distinct names an assignment changes exactly the bundle of that name.\<close>

lemma set_assign_bundle:
  assumes "distinct (map bundle_name bl)"
  shows "set (assign_bundle bl name f) =
    {b \<in> set bl. bundle_name b \<noteq> name} \<union> f ` {b \<in> set bl. bundle_name b = name}"
  using assms
proof (induction bl)
  case (Cons b bl)
  then have IH: "set (assign_bundle bl name f) =
      {b \<in> set bl. bundle_name b \<noteq> name} \<union> f ` {b \<in> set bl. bundle_name b = name}" by simp
  show ?case
  proof (cases "bundle_name b = name")
    case True
    with Cons.prems have "\<forall>x \<in> set bl. bundle_name x \<noteq> name" by (auto simp: rev_image_eqI)
    with True show ?thesis by auto
  next
    case False
    with IH show ?thesis by auto
  qed
qed simp

section \<open>The bundle of a workload\<close>

text \<open>
  \<open>bundle_of\<close> says what the bundle of a workload must be: the workload first, then what
  the analysis found, the absent resources and connections of that analysis, and the
  global placement rules followed by the workload's own.
\<close>

definition bundle_of ::
    "'r codec \<Rightarrow> lib \<Rightarrow> requirement list \<Rightarrow> 'r resource_set \<Rightarrow> string \<Rightarrow> 'r resource
       \<Rightarrow> 'r workload_bundle \<Rightarrow> bool" where
  "bundle_of C L common anc owner w b \<longleftrightarrow>
     (\<exists>rs missing conns extra rn.
        analyse_workload C L w anc = Ok (rs, missing, conns) \<and>
        extract_placement_rules (res_annotations w) = Ok extra \<and>
        truncate_name_if_needed L (res_name w @ ''-'' @ owner) = Ok rn \<and>
        b = \<lparr>bundle_name = res_name w, bundle_resources = w # rs, absent_resources = missing,
             external_connections = conns,
             scheduling_details = \<lparr>placement_requests = concat_rules common extra,
               cluster_name = '''', resource_name = rn\<rparr>\<rparr>)"

lemma bundle_of_name: "bundle_of C L common anc owner w b \<Longrightarrow> bundle_name b = res_name w"
  by (auto simp: bundle_of_def)

lemma bundle_of_reassign:
  assumes "bundle_of C L common anc owner v b" and "res_name v = res_name w"
    and "analyse_workload C L w anc = Ok (rs, missing, conns)"
    and "extract_placement_rules (res_annotations w) = Ok extra"
  shows "bundle_of C L common anc owner w
    (b\<lparr>scheduling_details := (scheduling_details b)\<lparr>placement_requests := concat_rules common extra\<rparr>,
       bundle_resources := w # rs, absent_resources := missing, external_connections := conns\<rparr>)"
  using assms by (auto simp: bundle_of_def)

text \<open>The last workload of a name is the one whose bundle survives.\<close>

definition last_named :: "'r resource list \<Rightarrow> string \<Rightarrow> 'r resource option" where
  "last_named ws name = first_named (rev ws) name"

definition bundles_of ::
    "'r codec \<Rightarrow> lib \<Rightarrow> requirement list \<Rightarrow> 'r resource_set \<Rightarrow> string \<Rightarrow> 'r resource list
       \<Rightarrow> 'r bundle_list \<Rightarrow> bool" where
  "bundles_of C L common anc owner ws bl \<longleftrightarrow>
     distinct (map bundle_name bl) \<and> bundle_name ` set bl = res_name ` set ws \<and>
     (\<forall>b \<in> set bl. \<exists>w. last_named ws (bundle_name b) = Some w \<and> bundle_of C L common anc owner w b)"

lemma last_named_snoc: "last_named (ws @ [w]) name = (if res_name w = name then Some w else last_named ws name)"
  by (simp add: last_named_def)

lemma last_named_SomeD: "last_named ws name = Some w \<Longrightarrow> w \<in> set ws \<and> res_name w = name"
  using named.search_SomeD [of "rev ws" name w] by (simp add: last_named_def)

lemma workload_bundle_step_bundles_of:
  assumes "workload_bundle_step C L common anc owner w bl = Ok bl'"
    and "bundles_of C L common anc owner ws bl"
  shows "bundles_of C L common anc owner (ws @ [w]) bl'"
proof -
  from assms(1) obtain rs missing conns extra where
    an: "analyse_workload C L w anc = Ok (rs, missing, conns)" and
    ex: "extract_placement_rules (res_annotations w) = Ok extra"
    by (auto simp: workload_bundle_step_def bind_go_Ok_iff Let_def split: prod.splits)
  let ?f = "\<lambda>b. b\<lparr>scheduling_details := (scheduling_details b)\<lparr>placement_requests := concat_rules common extra\<rparr>,
       bundle_resources := w # rs, absent_resources := missing, external_connections := conns\<rparr>"
  show ?thesis
  proof (cases "get_bundle bl (res_name w)")
    case None
    then have fresh: "res_name w \<notin> bundle_name ` set bl" by (simp add: get_bundle_None_iff)
    from assms(1) an ex None obtain b where b: "bundle_of C L common anc owner w b" "bl' = bl @ [b]"
      by (auto simp: workload_bundle_step_def bind_go_Ok_iff Let_def bundle_of_def add_bundle_def)
    with assms(2) fresh show ?thesis
      by (auto simp: bundles_of_def last_named_snoc bundle_of_name)
  next
    case (Some old)
    with assms(1) an ex have bl': "bl' = assign_bundle bl (res_name w) ?f"
      by (auto simp: workload_bundle_step_def Let_def)
    have names: "map bundle_name bl' = map bundle_name bl"
      unfolding bl' by (rule assign_bundle_names) simp
    have dist: "distinct (map bundle_name bl)" using assms(2) by (simp add: bundles_of_def)
    have "old \<in> set bl" "bundle_name old = res_name w"
      using bundle_by_name.search_SomeD [OF Some] by auto
    then have "res_name w \<in> res_name ` set ws"
      using assms(2) by (metis bundles_of_def image_eqI)
    moreover have "\<exists>v. last_named (ws @ [w]) (bundle_name b) = Some v \<and> bundle_of C L common anc owner v b"
      if "b \<in> set bl'" for b
    proof -
      from that consider "b \<in> set bl" "bundle_name b \<noteq> res_name w"
        | c where "c \<in> set bl" "bundle_name c = res_name w" "b = ?f c"
        unfolding bl' set_assign_bundle [OF dist] by blast
      then show ?thesis
      proof cases
        case 1
        with assms(2) show ?thesis by (auto simp: bundles_of_def last_named_snoc)
      next
        case (2 c)
        with assms(2) obtain v where v: "last_named ws (bundle_name c) = Some v"
            "bundle_of C L common anc owner v c"
          by (auto simp: bundles_of_def)
        with 2 an ex have "bundle_of C L common anc owner w b"
          using bundle_of_reassign [OF v(2) _ an ex] last_named_SomeD [OF v(1)] by simp
        with 2 show ?thesis by (auto simp: last_named_snoc bundle_of_name)
      qed
    qed
    moreover have "bundle_name ` set bl' = bundle_name ` set bl"
      using names by (metis set_map)
    ultimately show ?thesis
      using assms(2) names by (auto simp: bundles_of_def insert_absorb)
  qed
qed

lemma fold_bundles_of:
  assumes "fold_go (workload_bundle_step C L common anc owner) ws bl = Ok bl'"
    and "bundles_of C L common anc owner vs bl"
  shows "bundles_of C L common anc owner (vs @ ws) bl'"
  using assms
proof (induction ws arbitrary: vs bl)
  case (Cons w ws)
  from Cons.prems(1) obtain mid where
    mid: "workload_bundle_step C L common anc owner w bl = Ok mid"
    and rest: "fold_go (workload_bundle_step C L common anc owner) ws mid = Ok bl'"
    by (auto simp: bind_go_Ok_iff)
  from Cons.IH [OF rest workload_bundle_step_bundles_of [OF mid Cons.prems(2)]]
  show ?case by simp
qed simp

lemma bundles_of_Nil: "bundles_of C L common anc owner [] []"
  by (simp add: bundles_of_def)

section \<open>Shape of a run of the bundling\<close>

lemma single_bundle_fresh:
  "single_bundle L name owner rules resources [] =
     bind_go (truncate_name_if_needed L (name @ ''-'' @ owner)) (\<lambda>rn.
       Ok [\<lparr>bundle_name = name, bundle_resources = resources, absent_resources = [],
            external_connections = [],
            scheduling_details = \<lparr>placement_requests = Some rules, cluster_name = '''',
              resource_name = rn\<rparr>\<rparr>])"
  by (simp add: single_bundle_def add_bundle_def)

text \<open>Without workload annotations there is one bundle, and it holds every manifest.\<close>

lemma build_single:
  assumes "build_and_update_bundles C L [] m = Ok bl" and "workload_annotations (p2m_spec m) = []"
  obtains resources common rn where
    "bulk_convert_to_resource_set C L (manifests (p2m_spec m)) = Ok resources"
    "extract_placement_rules (global_annotations (p2m_spec m)) = Ok common"
    "truncate_name_if_needed L ((if common = [] then ''default'' else ''global'') @ ''-'' @ p2m_name m) = Ok rn"
    "bl = [\<lparr>bundle_name = (if common = [] then ''default'' else ''global''), bundle_resources = resources,
            absent_resources = [], external_connections = [],
            scheduling_details = \<lparr>placement_requests = Some common, cluster_name = '''', resource_name = rn\<rparr>\<rparr>]"
proof -
  from assms obtain resources common where
    rc: "bulk_convert_to_resource_set C L (manifests (p2m_spec m)) = Ok resources"
      "extract_placement_rules (global_annotations (p2m_spec m)) = Ok common"
    and bl: "single_bundle L (if common = [] then ''default'' else ''global'') (p2m_name m) common resources [] = Ok bl"
    by (auto simp: build_and_update_bundles_def bind_go_Ok_iff split: if_splits)
  from bl show ?thesis
    unfolding single_bundle_fresh bind_go_Ok_iff by (auto intro: that [OF rc])
qed

text \<open>With workload annotations there is a bundle for each workload name.\<close>

lemma build_per_workload:
  assumes "build_and_update_bundles C L [] m = Ok bl" and "workload_annotations (p2m_spec m) \<noteq> []"
  obtains resources common ws where
    "bulk_convert_to_resource_set C L (manifests (p2m_spec m)) = Ok resources"
    "extract_placement_rules (global_annotations (p2m_spec m)) = Ok common"
    "assign_workload_annotations (filter is_workload resources) (workload_annotations (p2m_spec m)) = Ok ws"
    "bundles_of C L common (filter (\<lambda>r. \<not> is_workload r) resources) (p2m_name m) ws bl"
proof -
  from assms obtain resources common where
    rc: "bulk_convert_to_resource_set C L (manifests (p2m_spec m)) = Ok resources"
      "extract_placement_rules (global_annotations (p2m_spec m)) = Ok common"
    and wb: "workload_bundles C L common m resources [] = Ok bl"
    by (auto simp: build_and_update_bundles_def bind_go_Ok_iff split: if_splits)
  from wb obtain ws where
    ws: "assign_workload_annotations (filter is_workload resources) (workload_annotations (p2m_spec m)) = Ok ws"
    and fold: "fold_go (workload_bundle_step C L common (filter (\<lambda>r. \<not> is_workload r) resources) (p2m_name m)) ws [] = Ok bl"
    by (auto simp: workload_bundles_def categorise_def split: go.splits)
  from fold_bundles_of [OF fold bundles_of_Nil] show ?thesis
    by (intro that [OF rc ws]) simp
qed

section \<open>Bundles hold at most one workload when they have connections\<close>

definition bundle_workloads :: "'r workload_bundle \<Rightarrow> 'r resource list" where
  "bundle_workloads b = filter is_workload (bundle_resources b)"

definition connectable :: "'r workload_bundle \<Rightarrow> bool" where
  "connectable b \<longleftrightarrow> external_connections b = [] \<or> length (bundle_workloads b) = 1"

lemma analyse_workload_from:
  assumes "analyse_workload C L w anc = Ok (rs, missing, conns)"
  shows "set rs \<subseteq> set anc \<and> distinct (map resource_key rs)"
proof -
  from assms obtain t where "extract_pod_template_spec C w = Ok t"
    by (auto elim!: analyse_workload_OkE analyse_pod_spec_OkE)
  from analyse_workload_resolved [OF assms this] show ?thesis by (simp add: resolved_def)
qed

lemma bundle_of_workloads:
  assumes "bundle_of C L common anc owner w b" and "is_workload w"
    and "\<And>r. r \<in> set anc \<Longrightarrow> \<not> is_workload r"
  shows "bundle_workloads b = [w]"
proof -
  from assms(1) obtain rs missing conns where
    an: "analyse_workload C L w anc = Ok (rs, missing, conns)" and b: "bundle_resources b = w # rs"
    by (auto simp: bundle_of_def)
  have "filter is_workload rs = []"
    using analyse_workload_from [OF an] assms(3) by (auto simp: filter_empty_conv)
  with b assms(2) show ?thesis by (simp add: bundle_workloads_def)
qed

lemma assigned_workloads:
  assumes "assign_workload_annotations (filter is_workload rs) was = Ok ws" and "w \<in> set ws"
  shows "is_workload w"
  using list_all_workload_metadata [OF conjunct1 [OF assign_keeps_metadata [OF assms(1)]]] assms(2)
  by (simp add: list_all_iff)

lemma build_connectable:
  assumes "build_and_update_bundles C L [] m = Ok bl" and "b \<in> set bl"
  shows "connectable b"
proof (cases "workload_annotations (p2m_spec m) = []")
  case True
  show ?thesis
    by (rule build_single [OF assms(1) True]) (use assms(2) in \<open>simp add: connectable_def\<close>)
next
  case False
  from build_per_workload [OF assms(1) False] obtain resources common ws where
    ws: "assign_workload_annotations (filter is_workload resources) (workload_annotations (p2m_spec m)) = Ok ws"
    and bl: "bundles_of C L common (filter (\<lambda>r. \<not> is_workload r) resources) (p2m_name m) ws bl"
    by blast
  from bl assms(2) obtain w where w: "last_named ws (bundle_name b) = Some w"
      "bundle_of C L common (filter (\<lambda>r. \<not> is_workload r) resources) (p2m_name m) w b"
    by (auto simp: bundles_of_def)
  have "is_workload w" using assigned_workloads [OF ws] last_named_SomeD [OF w(1)] by blast
  from bundle_of_workloads [OF w(2) this] show ?thesis by (simp add: connectable_def)
qed

section \<open>What every bundle of a build satisfies\<close>

text \<open>
  \<open>scheduled_from\<close>: the resource is one of the manifests of the custom resource, decoded
  to its metadata, and passed the validation.
\<close>

definition scheduled_from :: "'r codec \<Rightarrow> lib \<Rightarrow> 'r p2m \<Rightarrow> 'r resource \<Rightarrow> bool" where
  "scheduled_from C L m r \<longleftrightarrow>
     res_manifest r \<in> set (manifests (p2m_spec m)) \<and>
     dec_unstructured C (res_manifest r) = Inr (res_metadata r) \<and>
     metadata_is_valid L (res_metadata r) = Ok ()"

definition well_bundled :: "'r bundle_list \<Rightarrow> bool" where
  "well_bundled bl \<longleftrightarrow> distinct (map bundle_name bl) \<and>
     (\<forall>b \<in> set bl. connectable b \<and> distinct (map resource_key (bundle_resources b)))"

lemma converted_scheduled_from:
  assumes "bulk_convert_to_resource_set C L (manifests (p2m_spec m)) = Ok rs" and "r \<in> set rs"
  shows "scheduled_from C L m r"
  using bulk_convert_sound [OF assms(1)] assms(2) by (simp add: scheduled_from_def)

lemma assigned_from:
  assumes "assign_workload_annotations rs was = Ok ws" and "w \<in> set ws"
  shows "\<exists>r \<in> set rs. res_metadata w = res_metadata r \<and> res_manifest w = res_manifest r"
proof -
  from assms(2) obtain i where i: "i < length ws" "w = ws ! i" by (metis in_set_conv_nth)
  note maps = assign_keeps_metadata [OF assms(1)]
  from maps have len: "length ws = length rs" by (metis length_map)
  have "map res_metadata ws ! i = map res_metadata rs ! i" "map res_manifest ws ! i = map res_manifest rs ! i"
    using maps by simp_all
  with i len have "res_metadata w = res_metadata (rs ! i)" "res_manifest w = res_manifest (rs ! i)" by simp_all
  with i(1) len show ?thesis by (metis nth_mem)
qed

lemma bundle_of_resources:
  assumes "bundle_of C L common anc owner w b"
  shows "\<exists>rs. bundle_resources b = w # rs \<and> set rs \<subseteq> set anc \<and> distinct (map resource_key rs)"
proof -
  from assms obtain rs missing conns where
    an: "analyse_workload C L w anc = Ok (rs, missing, conns)" and b: "bundle_resources b = w # rs"
    by (auto simp: bundle_of_def)
  with analyse_workload_from [OF an] show ?thesis by auto
qed

lemma build_well:
  assumes "build_and_update_bundles C L [] m = Ok bl"
  shows "well_bundled bl \<and> (\<forall>b \<in> set bl. \<forall>r \<in> set (bundle_resources b). scheduled_from C L m r)"
proof (cases "workload_annotations (p2m_spec m) = []")
  case True
  show ?thesis
  proof (rule build_single [OF assms True])
    fix resources common rn
    assume conv: "bulk_convert_to_resource_set C L (manifests (p2m_spec m)) = Ok resources"
      and bl: "bl = [\<lparr>bundle_name = if common = [] then ''default'' else ''global'', bundle_resources = resources,
            absent_resources = [], external_connections = [],
            scheduling_details = \<lparr>placement_requests = Some common, cluster_name = '''', resource_name = rn\<rparr>\<rparr>]"
    show ?thesis
      using bulk_convert_sound [OF conv] converted_scheduled_from [OF conv]
      by (simp add: bl well_bundled_def connectable_def)
  qed
next
  case False
  from build_per_workload [OF assms False] obtain resources common ws where
    conv: "bulk_convert_to_resource_set C L (manifests (p2m_spec m)) = Ok resources"
    and ws: "assign_workload_annotations (filter is_workload resources) (workload_annotations (p2m_spec m)) = Ok ws"
    and bl: "bundles_of C L common (filter (\<lambda>r. \<not> is_workload r) resources) (p2m_name m) ws bl"
    by blast
  have "distinct (map resource_key (bundle_resources b)) \<and> (\<forall>r \<in> set (bundle_resources b). scheduled_from C L m r)"
    if "b \<in> set bl" for b
  proof -
    from bl that obtain w where w: "last_named ws (bundle_name b) = Some w"
      "bundle_of C L common (filter (\<lambda>r. \<not> is_workload r) resources) (p2m_name m) w b"
      by (auto simp: bundles_of_def)
    have w_in: "w \<in> set ws" using last_named_SomeD [OF w(1)] by simp
    from bundle_of_resources [OF w(2)] obtain rs where
      rs: "bundle_resources b = w # rs" "set rs \<subseteq> set (filter (\<lambda>r. \<not> is_workload r) resources)"
        "distinct (map resource_key rs)" by blast
    from assigned_from [OF ws w_in] obtain r where r: "r \<in> set resources" "is_workload r"
      "res_metadata w = res_metadata r" "res_manifest w = res_manifest r" by auto
    then have w_ok: "scheduled_from C L m w" "resource_key w = resource_key r"
      using converted_scheduled_from [OF conv] by (simp_all add: scheduled_from_def resource_key_def)
    have "inj_on resource_key (set resources)"
      using bulk_convert_sound [OF conv] by (simp add: distinct_map)
    then have "resource_key w \<notin> resource_key ` set rs"
      using rs(2) r(1,2) w_ok(2) by (auto dest: inj_onD)
    with rs w_ok(1) show ?thesis using converted_scheduled_from [OF conv] by auto
  qed
  with bl build_connectable [OF assms] show ?thesis by (simp add: well_bundled_def bundles_of_def)
qed

end
