(* ===== verification/P2_Network.thy ===== *)
theory P2_Network
  imports P2_Bundle
begin

text \<open>
  \<^verbatim>\<open>internal/controller/network-connectivity.go\<close>, its computations: which connections
  the bundles need, and how links and their services are added to and removed from the
  list of links of the MultiClusterNetwork resource. The abstract view of a list of links
  is its set of edges, a network path with the name of a service; registering adds edges,
  deleting removes them (\<open>connectivity_table\<close>).
\<close>

section \<open>Connections between bundles\<close>

definition get_external_service :: "'r workload_bundle \<Rightarrow> string \<Rightarrow> 'r resource option" where
  "get_external_service b name = first_named (filter_by_kind (bundle_resources b) ''Service'') name"

definition connection_from ::
    "'r workload_bundle \<Rightarrow> location \<Rightarrow> service_port_pair \<Rightarrow> 'r workload_bundle \<Rightarrow> network_connection list" where
  "connection_from b target c other =
     (if bundle_name b = bundle_name other then []
      else case get_external_service other (spp_service c) of
          None \<Rightarrow> []
        | Some s \<Rightarrow> [\<lparr>nc_service = c,
            nc_source = \<lparr>loc_cluster = cluster_name (scheduling_details other),
                         loc_namespace = res_namespace s\<rparr>,
            nc_target = target\<rparr>])"

definition build_network_connection ::
    "'r workload_bundle \<Rightarrow> 'r bundle_list \<Rightarrow> (go_error, network_connection list) go" where
  "build_network_connection b bundles =
     (let workloads = fst (categorise (bundle_resources b))
      in if 1 < length workloads
         then Fail (PlainError ''bundle contains more than one workload, unable to identify the details of the network link'')
         else bind_go (index_go workloads 0) (\<lambda>w.
           let target = \<lparr>loc_cluster = cluster_name (scheduling_details b), loc_namespace = res_namespace w\<rparr>
           in Ok (concat (map (\<lambda>c. concat (map (connection_from b target c) bundles))
                    (external_connections b)))))"

definition is_link_required :: "network_connection \<Rightarrow> bool" where
  "is_link_required nc \<longleftrightarrow>
     \<not> (loc_cluster (nc_source nc) = loc_cluster (nc_target nc) \<and>
        loc_namespace (nc_source nc) = loc_namespace (nc_target nc))"

definition filter_network_connections :: "network_connection list \<Rightarrow> network_connection list" where
  "filter_network_connections ncs = filter is_link_required ncs"

definition connections_step ::
    "'r bundle_list \<Rightarrow> 'r workload_bundle \<Rightarrow> network_connection list
       \<Rightarrow> (go_error, network_connection list) go" where
  "connections_step bundles b ncs =
     (if length (external_connections b) < 1 then Ok ncs
      else bind_go (build_network_connection b bundles) (\<lambda>new. Ok (ncs @ new)))"

definition get_network_connections :: "'r bundle_list \<Rightarrow> (go_error, network_connection list) go" where
  "get_network_connections bundles =
     bind_go (fold_go (connections_step bundles) bundles []) (\<lambda>ncs. Ok (filter_network_connections ncs))"

section \<open>Links\<close>

type_synonym link_path = "string \<times> string \<times> string \<times> string"

definition link_path :: "multi_cluster_link \<Rightarrow> link_path" where
  "link_path l = (source_cluster l, target_cluster l, source_namespace l, target_namespace l)"

definition connection_path :: "network_connection \<Rightarrow> link_path" where
  "connection_path nc = (loc_cluster (nc_source nc), loc_cluster (nc_target nc),
     loc_namespace (nc_source nc), loc_namespace (nc_target nc))"

text \<open>\<open>getLink\<close>: the index and the link, or nothing where the code returns \<open>-1, nil\<close>.\<close>

fun get_link :: "multi_cluster_link list \<Rightarrow> network_connection \<Rightarrow> (nat \<times> multi_cluster_link) option" where
  "get_link [] nc = None"
| "get_link (l # ls) nc =
     (if source_cluster l = loc_cluster (nc_source nc) \<and> target_cluster l = loc_cluster (nc_target nc) \<and>
         source_namespace l = loc_namespace (nc_source nc) \<and>
         target_namespace l = loc_namespace (nc_target nc)
      then Some (0, l)
      else map_option (\<lambda>(i, m). (Suc i, m)) (get_link ls nc))"

definition register_step ::
    "lib \<Rightarrow> network_connection \<Rightarrow> multi_cluster_link list \<Rightarrow> multi_cluster_link list" where
  "register_step L nc links =
     (let service = \<lparr>svc_name = spp_service (nc_service nc), svc_port = spp_port (nc_service nc)\<rparr>
      in case get_link links nc of
           Some (i, l) \<Rightarrow> links[i := add_service L l service]
         | None \<Rightarrow> links @
             [\<lparr>source_cluster = loc_cluster (nc_source nc), source_namespace = loc_namespace (nc_source nc),
               target_cluster = loc_cluster (nc_target nc), target_namespace = loc_namespace (nc_target nc),
               link_services = [service]\<rparr>])"

definition register_links ::
    "lib \<Rightarrow> network_connection list \<Rightarrow> multi_cluster_link list \<Rightarrow> multi_cluster_link list" where
  "register_links L ncs links = fold (register_step L) ncs links"

text \<open>\<open>append(xs[:k], xs[k+1:]...)\<close>: out of range it panics.\<close>

definition remove_index :: "'a list \<Rightarrow> int \<Rightarrow> ('e, 'a list) go" where
  "remove_index xs k =
     (if 0 \<le> k \<and> k < int (length xs) then Ok (take (nat k) xs @ drop (Suc (nat k)) xs) else Panic)"

definition delete_step ::
    "lib \<Rightarrow> network_connection \<Rightarrow> multi_cluster_link list \<Rightarrow> (go_error, multi_cluster_link list) go" where
  "delete_step L nc links =
     (case get_link links nc of
        None \<Rightarrow> Ok links
      | Some (i, l) \<Rightarrow>
        (let k = fst (get_service L l (spp_service (nc_service nc)))
         in if length (link_services l) = 1 \<and> k \<noteq> - 1
            then Ok (take i links @ drop (Suc i) links)
            else if k \<noteq> - 1
            then bind_go (remove_index (link_services l) k) (\<lambda>ss.
                   Ok (links[i := l\<lparr>link_services := ss\<rparr>]))
            else Ok links))"

definition delete_links ::
    "lib \<Rightarrow> network_connection list \<Rightarrow> multi_cluster_link list \<Rightarrow> (go_error, multi_cluster_link list) go" where
  "delete_links L ncs links = fold_go (delete_step L) ncs links"

section \<open>The connections of well-formed bundles\<close>

text \<open>The edges a set of bundles needs, read off the bundles alone.\<close>

definition needs ::
    "'r bundle_list \<Rightarrow> 'r workload_bundle \<Rightarrow> 'r workload_bundle \<Rightarrow> service_port_pair \<Rightarrow> 'r resource \<Rightarrow> bool" where
  "needs bl b other c s \<longleftrightarrow>
     b \<in> set bl \<and> other \<in> set bl \<and> bundle_name b \<noteq> bundle_name other \<and>
     c \<in> set (external_connections b) \<and> get_external_service other (spp_service c) = Some s"

definition connection_of ::
    "'r workload_bundle \<Rightarrow> 'r workload_bundle \<Rightarrow> service_port_pair \<Rightarrow> 'r resource \<Rightarrow> 'r resource \<Rightarrow> network_connection" where
  "connection_of b other c s w =
     \<lparr>nc_service = c,
      nc_source = \<lparr>loc_cluster = cluster_name (scheduling_details other), loc_namespace = res_namespace s\<rparr>,
      nc_target = \<lparr>loc_cluster = cluster_name (scheduling_details b), loc_namespace = res_namespace w\<rparr>\<rparr>"

lemma build_connectable_Ok:
  assumes "connectable b" and "external_connections b \<noteq> []"
  obtains w where "bundle_workloads b = [w]"
    "build_network_connection b bl = Ok (concat (map (\<lambda>c. concat (map
       (connection_from b \<lparr>loc_cluster = cluster_name (scheduling_details b), loc_namespace = res_namespace w\<rparr> c) bl))
       (external_connections b)))"
proof -
  from assms have "length (bundle_workloads b) = 1" by (simp add: connectable_def)
  then obtain w where w: "bundle_workloads b = [w]"
    by (metis One_nat_def length_0_conv length_Suc_conv)
  then show ?thesis
    by (intro that [OF w]) (simp add: build_network_connection_def categorise_def bundle_workloads_def)
qed

lemma in_connection_from:
  "nc \<in> set (connection_from b t c other) \<longleftrightarrow>
     bundle_name b \<noteq> bundle_name other \<and>
     (\<exists>s. get_external_service other (spp_service c) = Some s \<and>
        nc = \<lparr>nc_service = c, nc_source = \<lparr>loc_cluster = cluster_name (scheduling_details other),
               loc_namespace = res_namespace s\<rparr>, nc_target = t\<rparr>)"
  by (cases "get_external_service other (spp_service c)") (auto simp: connection_from_def)

lemma set_connections_from:
  "nc \<in> set (concat (map (\<lambda>c. concat (map (connection_from b \<lparr>loc_cluster = cluster_name (scheduling_details b),
       loc_namespace = res_namespace w\<rparr> c) bl)) (external_connections b))) \<longleftrightarrow>
   (\<exists>other \<in> set bl. \<exists>c s. bundle_name b \<noteq> bundle_name other \<and> c \<in> set (external_connections b) \<and>
      get_external_service other (spp_service c) = Some s \<and> nc = connection_of b other c s w)"
  unfolding set_concat set_map connection_of_def by (simp add: in_connection_from) blast

lemma connections_fold:
  assumes "\<And>b. b \<in> set bs \<Longrightarrow> connectable b"
  shows "\<exists>new. fold_go (connections_step bl) bs ncs = Ok (ncs @ new) \<and>
    set new = {nc. \<exists>b w other c s. b \<in> set bs \<and> bundle_workloads b = [w] \<and> other \<in> set bl \<and>
      bundle_name b \<noteq> bundle_name other \<and> c \<in> set (external_connections b) \<and>
      get_external_service other (spp_service c) = Some s \<and> nc = connection_of b other c s w}"
  using assms
proof (induction bs arbitrary: ncs)
  case Nil
  then show ?case by simp
next
  case (Cons b bs)
  have "\<exists>mid. connections_step bl b ncs = Ok (ncs @ mid) \<and>
    set mid = {nc. \<exists>w other c s. bundle_workloads b = [w] \<and> other \<in> set bl \<and>
      bundle_name b \<noteq> bundle_name other \<and> c \<in> set (external_connections b) \<and>
      get_external_service other (spp_service c) = Some s \<and> nc = connection_of b other c s w}"
  proof (cases "external_connections b = []")
    case True
    then show ?thesis by (simp add: connections_step_def)
  next
    case False
    have "connectable b" using Cons.prems by simp
    from build_connectable_Ok [OF this False, of bl] obtain w where w: "bundle_workloads b = [w]"
      "build_network_connection b bl = Ok (concat (map (\<lambda>c. concat (map
       (connection_from b \<lparr>loc_cluster = cluster_name (scheduling_details b), loc_namespace = res_namespace w\<rparr> c) bl))
       (external_connections b)))" .
    let ?mid = "concat (map (\<lambda>c. concat (map (connection_from b
       \<lparr>loc_cluster = cluster_name (scheduling_details b), loc_namespace = res_namespace w\<rparr> c) bl))
       (external_connections b))"
    have "connections_step bl b ncs = Ok (ncs @ ?mid)"
      using False by (simp add: connections_step_def w(2))
    moreover have "set ?mid = {nc. \<exists>w other c s. bundle_workloads b = [w] \<and> other \<in> set bl \<and>
      bundle_name b \<noteq> bundle_name other \<and> c \<in> set (external_connections b) \<and>
      get_external_service other (spp_service c) = Some s \<and> nc = connection_of b other c s w}"
      unfolding set_eq_iff set_connections_from w(1) by simp blast
    ultimately show ?thesis by blast
  qed
  then obtain mid where mid: "connections_step bl b ncs = Ok (ncs @ mid)"
    "set mid = {nc. \<exists>w other c s. bundle_workloads b = [w] \<and> other \<in> set bl \<and>
      bundle_name b \<noteq> bundle_name other \<and> c \<in> set (external_connections b) \<and>
      get_external_service other (spp_service c) = Some s \<and> nc = connection_of b other c s w}" by blast
  obtain new where new: "fold_go (connections_step bl) bs (ncs @ mid) = Ok ((ncs @ mid) @ new)"
    "set new = {nc. \<exists>b w other c s. b \<in> set bs \<and> bundle_workloads b = [w] \<and> other \<in> set bl \<and>
      bundle_name b \<noteq> bundle_name other \<and> c \<in> set (external_connections b) \<and>
      get_external_service other (spp_service c) = Some s \<and> nc = connection_of b other c s w}"
    using Cons.IH [of "ncs @ mid"] Cons.prems by auto
  have "set (mid @ new) = {nc. \<exists>b' w other c s. b' \<in> set (b # bs) \<and> bundle_workloads b' = [w] \<and> other \<in> set bl \<and>
      bundle_name b' \<noteq> bundle_name other \<and> c \<in> set (external_connections b') \<and>
      get_external_service other (spp_service c) = Some s \<and> nc = connection_of b' other c s w}"
    unfolding set_append mid(2) new(2) list.set(2) insert_iff by blast
  moreover have "fold_go (connections_step bl) (b # bs) ncs = Ok (ncs @ (mid @ new))"
    using mid(1) new(1) by simp
  ultimately show ?case by blast
qed

lemma get_network_connections_connectable:
  assumes "\<And>b. b \<in> set bl \<Longrightarrow> connectable b"
  shows "\<exists>ncs. get_network_connections bl = Ok ncs \<and>
    set ncs = {nc. is_link_required nc \<and>
      (\<exists>b w other c s. needs bl b other c s \<and> bundle_workloads b = [w] \<and> nc = connection_of b other c s w)}"
proof -
  obtain new where new: "fold_go (connections_step bl) bl [] = Ok ([] @ new)"
    "set new = {nc. \<exists>b w other c s. b \<in> set bl \<and> bundle_workloads b = [w] \<and> other \<in> set bl \<and>
      bundle_name b \<noteq> bundle_name other \<and> c \<in> set (external_connections b) \<and>
      get_external_service other (spp_service c) = Some s \<and> nc = connection_of b other c s w}"
    using connections_fold [OF assms, where ncs = "[]" and bl = bl] by blast
  have "get_network_connections bl = Ok (filter is_link_required new)"
    using new(1) by (simp add: get_network_connections_def filter_network_connections_def)
  moreover have "set (filter is_link_required new) = {nc. is_link_required nc \<and>
      (\<exists>b w other c s. needs bl b other c s \<and> bundle_workloads b = [w] \<and> nc = connection_of b other c s w)}"
    unfolding set_filter new(2) needs_def by blast
  ultimately show ?thesis by blast
qed

section \<open>Links as a table of edges\<close>

text \<open>
  What the code relies on of the methods of a MultiClusterLink. \<open>GetService\<close> returns the
  position and value of the service of a name, \<open>-1\<close> when there is none. \<open>AddService\<close>
  leaves the path of the link alone, appends a service of a new name, and keeps the names
  when a service of that name is already there.
\<close>

fun service_index :: "link_service list \<Rightarrow> string \<Rightarrow> nat option" where
  "service_index [] name = None"
| "service_index (s # ss) name =
     (if svc_name s = name then Some 0 else map_option Suc (service_index ss name))"

definition link_api_spec :: "lib \<Rightarrow> bool" where
  "link_api_spec L \<longleftrightarrow>
     (\<forall>l name. get_service L l name = (case service_index (link_services l) name of
        None \<Rightarrow> (- 1, None) | Some i \<Rightarrow> (int i, Some (link_services l ! i)))) \<and>
     (\<forall>l s. link_path (add_service L l s) = link_path l \<and>
        (if svc_name s \<in> svc_name ` set (link_services l)
         then map svc_name (link_services (add_service L l s)) = map svc_name (link_services l)
         else link_services (add_service L l s) = link_services l @ [s]))"

type_synonym edge = "link_path \<times> string"

definition link_edges :: "multi_cluster_link \<Rightarrow> edge set" where
  "link_edges l = (\<lambda>s. (link_path l, svc_name s)) ` set (link_services l)"

definition edges :: "multi_cluster_link list \<Rightarrow> edge set" where
  "edges links = \<Union> (link_edges ` set links)"

definition connection_edge :: "network_connection \<Rightarrow> edge" where
  "connection_edge nc = (connection_path nc, spp_service (nc_service nc))"

definition links_wf :: "multi_cluster_link list \<Rightarrow> bool" where
  "links_wf links \<longleftrightarrow> distinct (map link_path links) \<and>
     (\<forall>l \<in> set links. link_services l \<noteq> [] \<and> distinct (map svc_name (link_services l)))"

lemma get_link_SomeD:
  "get_link links nc = Some (i, l) \<Longrightarrow>
     i < length links \<and> links ! i = l \<and> link_path l = connection_path nc"
proof (induction links arbitrary: i)
  case (Cons m ls)
  then show ?case
    by (auto simp: link_path_def connection_path_def split: if_splits)
qed simp

lemma get_link_None_iff: "get_link links nc = None \<longleftrightarrow> connection_path nc \<notin> link_path ` set links"
  by (induction links) (auto simp: link_path_def connection_path_def)

lemma get_link_split:
  assumes "get_link links nc = Some (i, l)"
  shows "\<exists>xs ys. links = xs @ l # ys \<and> i = length xs \<and> link_path l = connection_path nc"
proof -
  from get_link_SomeD [OF assms] have "links = take i links @ l # drop (Suc i) links" "length (take i links) = i"
    by (auto simp: id_take_nth_drop)
  with get_link_SomeD [OF assms] show ?thesis by metis
qed

lemma service_index_SomeD:
  "service_index ss name = Some i \<Longrightarrow> i < length ss \<and> svc_name (ss ! i) = name"
  by (induction ss arbitrary: i) (auto split: if_splits)

lemma service_index_None_iff: "service_index ss name = None \<longleftrightarrow> name \<notin> svc_name ` set ss"
  by (induction ss) auto

lemma edges_append: "edges (xs @ ys) = edges xs \<union> edges ys"
  by (simp add: edges_def)

lemma edges_Cons: "edges (l # ls) = link_edges l \<union> edges ls"
  by (simp add: edges_def)

lemma edges_Nil [simp]: "edges [] = {}"
  by (simp add: edges_def)

lemma links_wf_append_Cons:
  "links_wf (xs @ l # ys) \<longleftrightarrow> links_wf (xs @ ys) \<and> link_path l \<notin> link_path ` set (xs @ ys) \<and>
     link_services l \<noteq> [] \<and> distinct (map svc_name (link_services l))"
  by (auto simp: links_wf_def)

lemma edges_other_path: "(p, n) \<in> edges ls \<Longrightarrow> p \<in> link_path ` set ls"
  by (auto simp: edges_def link_edges_def)

lemma link_edges_names: "link_edges l = (\<lambda>n. (link_path l, n)) ` set (map svc_name (link_services l))"
  by (auto simp: link_edges_def)

lemma register_step_correct:
  assumes "link_api_spec L" and "links_wf links"
  shows "links_wf (register_step L nc links) \<and>
    edges (register_step L nc links) = insert (connection_edge nc) (edges links)"
proof (cases "get_link links nc")
  case None
  then have "connection_path nc \<notin> link_path ` set links" by (simp add: get_link_None_iff)
  with None assms(2) show ?thesis
    by (auto simp: register_step_def links_wf_def edges_append edges_Cons link_edges_def link_path_def
        connection_path_def connection_edge_def Let_def)
next
  case (Some il)
  obtain i l where il: "il = (i, l)" by fastforce
  from get_link_split [OF Some [unfolded il]] obtain xs ys where
    links: "links = xs @ l # ys" "i = length xs" and path: "link_path l = connection_path nc" by blast
  let ?s = "\<lparr>svc_name = spp_service (nc_service nc), svc_port = spp_port (nc_service nc)\<rparr>"
  let ?l = "add_service L l ?s"
  have reg: "register_step L nc links = xs @ ?l # ys"
    using Some by (simp add: register_step_def il links)
  have lp: "link_path ?l = link_path l" using assms(1) by (simp add: link_api_spec_def)
  have dist: "distinct (map svc_name (link_services l))" "link_services l \<noteq> []"
    using assms(2) by (simp_all add: links links_wf_append_Cons)
  have names: "set (map svc_name (link_services ?l)) =
      insert (spp_service (nc_service nc)) (set (map svc_name (link_services l))) \<and>
      distinct (map svc_name (link_services ?l)) \<and> link_services ?l \<noteq> []"
  proof (cases "svc_name ?s \<in> svc_name ` set (link_services l)")
    case True
    then have m: "map svc_name (link_services ?l) = map svc_name (link_services l)"
      using assms(1) by (simp add: link_api_spec_def)
    moreover from m dist(2) have "link_services ?l \<noteq> []" by (metis map_is_Nil_conv)
    moreover from m have "set (map svc_name (link_services ?l)) = set (map svc_name (link_services l))"
      by (rule arg_cong)
    ultimately show ?thesis using dist True by (simp add: insert_absorb)
  next
    case False
    then have "link_services ?l = link_services l @ [?s]"
      using assms(1) by (simp add: link_api_spec_def)
    with False dist show ?thesis by auto
  qed
  have "links_wf (xs @ ?l # ys)"
    using assms(2) names by (simp add: links links_wf_append_Cons lp)
  moreover have "edges (xs @ ?l # ys) = insert (connection_edge nc) (edges links)"
    unfolding links edges_append edges_Cons link_edges_names conjunct1 [OF names] lp
    by (auto simp: connection_edge_def path)
  ultimately show ?thesis by (simp add: reg)
qed

lemma remove_index_services:
  assumes "distinct (map svc_name ss)" and "service_index ss name = Some i"
  shows "\<exists>ss'. remove_index ss (int i) = Ok ss' \<and> distinct (map svc_name ss') \<and>
    svc_name ` set ss' = svc_name ` set ss - {name} \<and> length ss' = length ss - 1"
proof -
  from service_index_SomeD [OF assms(2)] have i: "i < length ss" "svc_name (ss ! i) = name" by auto
  let ?ss' = "take i ss @ drop (Suc i) ss"
  have split: "map svc_name ss = map svc_name (take i ss) @ name # map svc_name (drop (Suc i) ss)"
    using i by (metis id_take_nth_drop list.simps(9) map_append)
  have "distinct (map svc_name ?ss')" "name \<notin> svc_name ` set ?ss'"
    using assms(1) unfolding split by (auto simp: image_Un)
  moreover have "svc_name ` set ss = insert name (svc_name ` set ?ss')"
    using arg_cong [OF split, of set] by (simp add: image_Un)
  ultimately show ?thesis
    using i by (intro exI [of _ ?ss']) (auto simp: remove_index_def)
qed

lemma delete_step_correct:
  assumes "link_api_spec L" and "links_wf links"
  shows "\<exists>links'. delete_step L nc links = Ok links' \<and> links_wf links' \<and>
    edges links' = edges links - {connection_edge nc}"
proof (cases "get_link links nc")
  case None
  then have "connection_edge nc \<notin> edges links"
    by (auto simp: get_link_None_iff connection_edge_def dest: edges_other_path)
  with None assms(2) show ?thesis by (simp add: delete_step_def)
next
  case (Some il)
  obtain i l where il: "il = (i, l)" by fastforce
  from get_link_split [OF Some [unfolded il]] obtain xs ys where
    links: "links = xs @ l # ys" "i = length xs" and path: "link_path l = connection_path nc" by blast
  let ?name = "spp_service (nc_service nc)"
  have wf: "links_wf (xs @ ys)" "link_path l \<notin> link_path ` set (xs @ ys)"
    "distinct (map svc_name (link_services l))" "link_services l \<noteq> []"
    using assms(2) by (simp_all add: links links_wf_append_Cons)
  have out: "connection_edge nc \<notin> edges (xs @ ys)"
    using wf(2) by (auto simp: connection_edge_def path dest: edges_other_path)
  have gs: "fst (get_service L l ?name) = (case service_index (link_services l) ?name of None \<Rightarrow> - 1 | Some k \<Rightarrow> int k)"
    using assms(1) by (simp add: link_api_spec_def split: option.splits)
  show ?thesis
  proof (cases "service_index (link_services l) ?name")
    case None
    then have "connection_edge nc \<notin> link_edges l"
      by (auto simp: service_index_None_iff link_edges_def connection_edge_def)
    with out have "edges links - {connection_edge nc} = edges links"
      by (auto simp: links edges_append edges_Cons)
    with None Some gs assms(2) show ?thesis by (simp add: delete_step_def il)
  next
    case (Some k)
    from remove_index_services [OF wf(3) Some] obtain ss' where
      ss': "remove_index (link_services l) (int k) = (Ok ss' :: (go_error, link_service list) go)"
        "distinct (map svc_name ss')" "svc_name ` set ss' = svc_name ` set (link_services l) - {?name}"
        "length ss' = length (link_services l) - 1" by blast
    show ?thesis
    proof (cases "length (link_services l) = 1")
      case True
      with ss'(3,4) have "svc_name ` set (link_services l) - {?name} = {}" by simp
      then have "link_edges l \<subseteq> {connection_edge nc}"
        by (auto simp: link_edges_def connection_edge_def path)
      with out have "edges links - {connection_edge nc} = edges (xs @ ys)"
        by (auto simp: links edges_append edges_Cons)
      moreover have "delete_step L nc links = Ok (xs @ ys)"
        using \<open>get_link links nc = Some il\<close> True Some gs by (simp add: delete_step_def il links)
      ultimately show ?thesis using wf(1) by simp
    next
      case False
      let ?l = "l\<lparr>link_services := ss'\<rparr>"
      have "delete_step L nc links = Ok (xs @ ?l # ys)"
        using \<open>get_link links nc = Some il\<close> False Some gs ss'(1) by (simp add: delete_step_def il links)
      moreover have "ss' \<noteq> []" using ss'(4) False wf(4) by (cases "link_services l") auto
      then have "links_wf (xs @ ?l # ys)"
        using wf ss'(2) by (simp add: links_wf_append_Cons link_path_def)
      moreover have "link_edges ?l = link_edges l - {connection_edge nc}"
        using ss'(3) by (auto simp: link_edges_names link_path_def connection_edge_def path [unfolded link_path_def])
      then have "edges (xs @ ?l # ys) = edges links - {connection_edge nc}"
        using out unfolding links edges_append edges_Cons by blast
      ultimately show ?thesis by blast
    qed
  qed
qed

text \<open>
  The contract the reconciler relies on: connections can be registered in and deleted from
  a table, seen as a set of edges.
\<close>

locale connectivity_table =
  fixes register :: "'c list \<Rightarrow> 't \<Rightarrow> 't"
    and delete :: "'c list \<Rightarrow> 't \<Rightarrow> ('e, 't) go"
    and table :: "'t \<Rightarrow> 'k set"
    and edge :: "'c \<Rightarrow> 'k"
    and inv :: "'t \<Rightarrow> bool"
  assumes register_inv: "inv t \<Longrightarrow> inv (register cs t)"
    and register_table: "inv t \<Longrightarrow> table (register cs t) = table t \<union> edge ` set cs"
    and delete_Ok: "inv t \<Longrightarrow> \<exists>t'. delete cs t = Ok t' \<and> inv t' \<and> table t' = table t - edge ` set cs"
begin

lemma replace:
  assumes "inv t"
  shows "\<exists>t'. delete old t = Ok t' \<and> inv (register new t') \<and>
    table (register new t') = (table t - edge ` set old) \<union> edge ` set new"
  using delete_Ok [OF assms, of old] register_inv register_table by metis

lemma round_trip:
  assumes "inv t" and "edge ` set cs \<inter> table t = {}"
  shows "\<exists>t'. delete cs (register cs t) = Ok t' \<and> inv t' \<and> table t' = table t"
  using delete_Ok [OF register_inv [OF assms(1)], of cs cs] register_table [OF assms(1), of cs] assms(2)
  by (metis Diff_cancel Diff_triv Int_commute Un_Diff sup_bot.right_neutral)

lemma delete_idempotent:
  assumes "inv t"
  shows "\<exists>t' t''. delete cs t = Ok t' \<and> delete cs t' = Ok t'' \<and> table t'' = table t'"
  using delete_Ok [OF assms, of cs] delete_Ok [of _ cs] by (metis Diff_idemp)

end

lemma register_links_correct:
  assumes "link_api_spec L" and "links_wf links"
  shows "links_wf (register_links L ncs links) \<and>
    edges (register_links L ncs links) = edges links \<union> connection_edge ` set ncs"
  using assms(2)
proof (induction ncs arbitrary: links)
  case Nil
  then show ?case by (simp add: register_links_def)
next
  case (Cons nc ncs)
  have step: "links_wf (register_step L nc links)"
    "edges (register_step L nc links) = insert (connection_edge nc) (edges links)"
    using register_step_correct [OF assms(1) Cons.prems] by auto
  from Cons.IH [OF step(1)] step(2) show ?case by (auto simp: register_links_def)
qed

lemma delete_links_correct:
  assumes "link_api_spec L" and "links_wf links"
  shows "\<exists>links'. delete_links L ncs links = Ok links' \<and> links_wf links' \<and>
    edges links' = edges links - connection_edge ` set ncs"
  using assms(2)
proof (induction ncs arbitrary: links)
  case Nil
  then show ?case by (simp add: delete_links_def)
next
  case (Cons nc ncs)
  from delete_step_correct [OF assms(1) Cons.prems] obtain mid where
    mid: "delete_step L nc links = Ok mid" "links_wf mid" "edges mid = edges links - {connection_edge nc}"
    by blast
  from Cons.IH [OF mid(2)] mid show ?case by (auto simp: delete_links_def)
qed

interpretation links: connectivity_table "register_links L" "delete_links L" edges connection_edge
    "\<lambda>ls. link_api_spec L \<and> links_wf ls" for L
  by unfold_locales (simp_all add: register_links_correct delete_links_correct)

end
