(* ===== verification/P2_Cluster.thy ===== *)
theory P2_Cluster
  imports P2_Types
begin

text \<open>
  The API server as the controller sees it. The Kubernetes client is not part of the
  repository: it is a record of functions over a world \<open>'w\<close> nothing is assumed about.
  Every request is recorded, with its outcome, in the trace of the reconciler's state, so
  that properties can speak of the requests a reconcile run sends and of their order, for
  every behaviour of the server. Reconcile runs do not overlap (one worker), and the
  pause after a placement update (\<open>time.Sleep\<close>) changes no state and is left out.
\<close>

section \<open>Requests and the client\<close>

datatype 'r call =
    GetManifest namespaced_name
  | UpdateManifest "'r p2m"
  | UpdateStatus "'r p2m"
  | GetPlacement namespaced_name
  | CreatePlacement placement
  | UpdatePlacement placement
  | DeletePlacement placement
  | GetDecision namespaced_name
  | ListWorks "string \<times> string"
  | GetWork namespaced_name
  | CreateWork "'r manifest_work"
  | UpdateWork "'r manifest_work"
  | DeleteWork "'r manifest_work"
  | ListClusterSets
  | ListClusters "string \<times> string"
  | ListBindings string
  | GetNetwork namespaced_name
  | CreateNetwork multi_cluster_network
  | UpdateNetwork multi_cluster_network
  | RestDiscovery

record ('r, 'w) client =
  cl_get_manifest :: "namespaced_name \<Rightarrow> 'w \<Rightarrow> (api_error + 'r p2m) \<times> 'w"
  cl_update_manifest :: "'r p2m \<Rightarrow> 'w \<Rightarrow> (api_error + 'r p2m) \<times> 'w"
  cl_update_status :: "'r p2m \<Rightarrow> 'w \<Rightarrow> (api_error + 'r p2m) \<times> 'w"
  cl_get_placement :: "namespaced_name \<Rightarrow> 'w \<Rightarrow> (api_error + placement) \<times> 'w"
  cl_create_placement :: "placement \<Rightarrow> 'w \<Rightarrow> (api_error + placement) \<times> 'w"
  cl_update_placement :: "placement \<Rightarrow> 'w \<Rightarrow> (api_error + placement) \<times> 'w"
  cl_delete_placement :: "placement \<Rightarrow> 'w \<Rightarrow> (api_error + unit) \<times> 'w"
  cl_get_decision :: "namespaced_name \<Rightarrow> 'w \<Rightarrow> (api_error + placement_decision) \<times> 'w"
  cl_list_works :: "string \<times> string \<Rightarrow> 'w \<Rightarrow> (api_error + 'r manifest_work list) \<times> 'w"
  cl_get_work :: "namespaced_name \<Rightarrow> 'w \<Rightarrow> (api_error + 'r manifest_work) \<times> 'w"
  cl_create_work :: "'r manifest_work \<Rightarrow> 'w \<Rightarrow> (api_error + unit) \<times> 'w"
  cl_update_work :: "'r manifest_work \<Rightarrow> 'w \<Rightarrow> (api_error + unit) \<times> 'w"
  cl_delete_work :: "'r manifest_work \<Rightarrow> 'w \<Rightarrow> (api_error + unit) \<times> 'w"
  cl_list_cluster_sets :: "'w \<Rightarrow> (api_error + string list) \<times> 'w"
  cl_list_clusters :: "string \<times> string \<Rightarrow> 'w \<Rightarrow> (api_error + managed_cluster list) \<times> 'w"
  cl_list_bindings :: "string \<Rightarrow> 'w \<Rightarrow> (api_error + cluster_set_binding list) \<times> 'w"
  cl_get_network :: "namespaced_name \<Rightarrow> 'w \<Rightarrow> (api_error + multi_cluster_network) \<times> 'w"
  cl_create_network :: "multi_cluster_network \<Rightarrow> 'w \<Rightarrow> (api_error + multi_cluster_network) \<times> 'w"
  cl_update_network :: "multi_cluster_network \<Rightarrow> 'w \<Rightarrow> (api_error + unit) \<times> 'w"
  cl_in_cluster_config :: "'w \<Rightarrow> (api_error + unit) \<times> 'w"
  cl_http_client :: "'w \<Rightarrow> (api_error + unit) \<times> 'w"
  cl_rest_mapper :: "'w \<Rightarrow> (api_error + unit) \<times> 'w"
  cl_rest_mapping :: "string \<Rightarrow> 'w \<Rightarrow> (api_error + unit) \<times> 'w"

text \<open>
  The reconciler's own fields (\<open>Bundles\<close> and \<open>OwnerLabel\<close>), the world, and the trace.
\<close>

record ('r, 'w) sys =
  sys_world :: 'w
  sys_bundles :: "string \<rightharpoonup> 'r bundle_list"
  sys_owner :: string
  sys_trace :: "('r call \<times> bool) list"

type_synonym ('r, 'w, 'e, 'a) sysP = "(('r, 'w) sys, 'e, 'a) proc"

definition invoke ::
    "'r call \<Rightarrow> ('w \<Rightarrow> (api_error + 'a) \<times> 'w) \<Rightarrow> ('r, 'w, go_error, 'a) sysP" where
  "invoke c f = (\<lambda>s. case f (sys_world s) of
     (Inl e, w) \<Rightarrow> (Fail (Api e), s\<lparr>sys_world := w, sys_trace := sys_trace s @ [(c, False)]\<rparr>)
   | (Inr x, w) \<Rightarrow> (Ok x, s\<lparr>sys_world := w, sys_trace := sys_trace s @ [(c, True)]\<rparr>))"

section \<open>Kinds of requests\<close>

fun is_read :: "'r call \<Rightarrow> bool" where
  "is_read (GetManifest n) = True"
| "is_read (GetPlacement n) = True"
| "is_read (GetDecision n) = True"
| "is_read (ListWorks l) = True"
| "is_read (GetWork n) = True"
| "is_read ListClusterSets = True"
| "is_read (ListClusters l) = True"
| "is_read (ListBindings n) = True"
| "is_read (GetNetwork n) = True"
| "is_read RestDiscovery = True"
| "is_read c = False"

fun is_status_write :: "'r call \<Rightarrow> bool" where
  "is_status_write (UpdateStatus m) = True"
| "is_status_write c = False"

fun is_work_write :: "'r call \<Rightarrow> bool" where
  "is_work_write (CreateWork w) = True"
| "is_work_write (UpdateWork w) = True"
| "is_work_write c = False"

fun is_work_delete :: "'r call \<Rightarrow> bool" where
  "is_work_delete (DeleteWork w) = True"
| "is_work_delete c = False"

fun is_placement_write :: "'r call \<Rightarrow> bool" where
  "is_placement_write (CreatePlacement p) = True"
| "is_placement_write (UpdatePlacement p) = True"
| "is_placement_write (DeletePlacement p) = True"
| "is_placement_write c = False"

fun is_network_write :: "'r call \<Rightarrow> bool" where
  "is_network_write (CreateNetwork n) = True"
| "is_network_write (UpdateNetwork n) = True"
| "is_network_write c = False"

fun is_manifest_write :: "'r call \<Rightarrow> bool" where
  "is_manifest_write (UpdateManifest m) = True"
| "is_manifest_write c = False"

text \<open>A request that touches what the manifest schedules: placements, works and links.\<close>

definition is_scheduling_write :: "'r call \<Rightarrow> bool" where
  "is_scheduling_write c \<longleftrightarrow> is_work_write c \<or> is_work_delete c \<or> is_placement_write c \<or> is_network_write c"

lemma is_read_not_write:
  "is_read c \<Longrightarrow> \<not> is_scheduling_write c \<and> \<not> is_manifest_write c \<and> \<not> is_status_write c"
  by (cases c) (auto simp: is_scheduling_write_def)

section \<open>What a procedure may send\<close>

text \<open>
  \<open>emits P m\<close>: every request \<open>m\<close> adds to the trace satisfies \<open>P\<close>, the trace it was given
  is kept, and the reconciler's own fields are not changed.
\<close>

definition emits :: "('r call \<Rightarrow> bool) \<Rightarrow> ('r, 'w, 'e, 'a) sysP \<Rightarrow> bool" where
  "emits P m \<longleftrightarrow> (\<forall>s. sys_bundles (snd (m s)) = sys_bundles s \<and> sys_owner (snd (m s)) = sys_owner s \<and>
     (\<exists>tr. sys_trace (snd (m s)) = sys_trace s @ tr \<and> list_all (\<lambda>e. P (fst e)) tr))"

named_theorems emits_intros \<open>composition rules for the requests of a procedure\<close>

lemma emitsD:
  assumes "emits P m" and "m s = (r, s')"
  shows "sys_bundles s' = sys_bundles s \<and> sys_owner s' = sys_owner s \<and>
    (\<exists>tr. sys_trace s' = sys_trace s @ tr \<and> list_all (\<lambda>e. P (fst e)) tr)"
proof -
  have "snd (m s) = s'" using assms(2) by simp
  with assms(1) show ?thesis unfolding emits_def by blast
qed

lemma emitsI:
  assumes "\<And>s r s'. m s = (r, s') \<Longrightarrow> sys_bundles s' = sys_bundles s \<and> sys_owner s' = sys_owner s \<and>
    (\<exists>tr. sys_trace s' = sys_trace s @ tr \<and> list_all (\<lambda>e. P (fst e)) tr)"
  shows "emits P m"
  unfolding emits_def using assms by (metis prod.collapse)

lemma emits_ret [emits_intros]: "emits P (retP x)"
  by (simp add: emits_def retP_def)

lemma emits_fail [emits_intros]: "emits P (failP e)"
  by (simp add: emits_def failP_def)

lemma emits_lift [emits_intros]: "emits P (liftP r)"
  by (simp add: emits_def liftP_def)

lemma emits_get [emits_intros]: "emits P (getP f)"
  by (simp add: emits_def getP_def)

lemma emits_modify:
  assumes "\<And>s. sys_bundles (f s) = sys_bundles s" and "\<And>s. sys_owner (f s) = sys_owner s"
    and "\<And>s. sys_trace (f s) = sys_trace s"
  shows "emits P (modifyP f)"
  using assms by (simp add: emits_def modifyP_def)

lemma emits_invoke [emits_intros]: "P c \<Longrightarrow> emits P (invoke c f)"
  by (rule emitsI) (auto simp: invoke_def split: prod.splits sum.splits)

lemma emits_bind [emits_intros]:
  assumes "emits P m" and "\<And>x. emits P (f x)"
  shows "emits P (bindP m f)"
proof (rule emitsI)
  fix s r s'
  assume run: "bindP m f s = (r, s')"
  obtain q t where q: "m s = (q, t)" by fastforce
  note t = emitsD [OF assms(1) q]
  show "sys_bundles s' = sys_bundles s \<and> sys_owner s' = sys_owner s \<and>
    (\<exists>tr. sys_trace s' = sys_trace s @ tr \<and> list_all (\<lambda>e. P (fst e)) tr)"
  proof (cases q)
    case (Ok x)
    with run q have "f x t = (r, s')" by (simp add: bindP_def)
    from emitsD [OF assms(2) this] t show ?thesis by fastforce
  qed (use run q t in \<open>auto simp: bindP_def\<close>)
qed

lemma emits_handle [emits_intros]:
  assumes "emits P m" and "\<And>e. emits P (h e)"
  shows "emits P (handleP m h)"
proof (rule emitsI)
  fix s r s'
  assume run: "handleP m h s = (r, s')"
  obtain q t where q: "m s = (q, t)" by fastforce
  note t = emitsD [OF assms(1) q]
  show "sys_bundles s' = sys_bundles s \<and> sys_owner s' = sys_owner s \<and>
    (\<exists>tr. sys_trace s' = sys_trace s @ tr \<and> list_all (\<lambda>e. P (fst e)) tr)"
  proof (cases q)
    case (Fail e)
    with run q have "h e t = (r, s')" by (simp add: handleP_def)
    from emitsD [OF assms(2) this] t show ?thesis by fastforce
  qed (use run q t in \<open>auto simp: handleP_def\<close>)
qed

lemma emits_attempt [emits_intros]:
  assumes "emits P m"
  shows "emits P (attemptP m)"
proof (rule emitsI)
  fix s r s'
  assume run: "attemptP m s = (r, s')"
  obtain q t where q: "m s = (q, t)" by fastforce
  have "s' = t" using run q by (cases q) (auto simp: attemptP_def)
  with emitsD [OF assms q] show "sys_bundles s' = sys_bundles s \<and> sys_owner s' = sys_owner s \<and>
    (\<exists>tr. sys_trace s' = sys_trace s @ tr \<and> list_all (\<lambda>e. P (fst e)) tr)" by simp
qed

lemma emits_loop [emits_intros]:
  assumes "\<And>x a. x \<in> set xs \<Longrightarrow> emits P (f x a)"
  shows "emits P (loopP f xs acc)"
  using assms by (induction xs arbitrary: acc) (auto intro!: emits_intros)

lemma emits_if [emits_intros]:
  "(b \<Longrightarrow> emits P m) \<Longrightarrow> (\<not> b \<Longrightarrow> emits P n) \<Longrightarrow> emits P (if b then m else n)"
  by simp

lemma emits_case_option [emits_intros]:
  "(x = None \<Longrightarrow> emits P m) \<Longrightarrow> (\<And>y. x = Some y \<Longrightarrow> emits P (f y)) \<Longrightarrow>
     emits P (case x of None \<Rightarrow> m | Some y \<Rightarrow> f y)"
  by (cases x) auto

lemma emits_case_sum [emits_intros]:
  "(\<And>e. x = Inl e \<Longrightarrow> emits P (f e)) \<Longrightarrow> (\<And>y. x = Inr y \<Longrightarrow> emits P (g y)) \<Longrightarrow>
     emits P (case x of Inl e \<Rightarrow> f e | Inr y \<Rightarrow> g y)"
  by (cases x) auto

lemma emits_case_go [emits_intros]:
  "(\<And>y. x = Ok y \<Longrightarrow> emits P (f y)) \<Longrightarrow> (\<And>e. x = Fail e \<Longrightarrow> emits P (g e)) \<Longrightarrow>
   (x = Panic \<Longrightarrow> emits P p) \<Longrightarrow> emits P (case x of Ok y \<Rightarrow> f y | Fail e \<Rightarrow> g e | Panic \<Rightarrow> p)"
  by (cases x) auto

lemma emits_case_prod [emits_intros]:
  "(\<And>a b. x = (a, b) \<Longrightarrow> emits P (f a b)) \<Longrightarrow> emits P (case x of (a, b) \<Rightarrow> f a b)"
  by (cases x) auto

lemma emits_let [emits_intros]: "emits P (f x) \<Longrightarrow> emits P (Let x f)"
  by simp

lemma emits_mono: "emits P m \<Longrightarrow> (\<And>c. P c \<Longrightarrow> Q c) \<Longrightarrow> emits Q m"
  unfolding emits_def by (metis (mono_tags, lifting) list.pred_mono_strong)

section \<open>Policies\<close>

text \<open>
  A policy is a set of requests that holds every read; a status policy also holds status
  updates. The operations of \<^verbatim>\<open>membership.go\<close> and \<^verbatim>\<open>status.go\<close> keep to
  every such policy, which the theories of those files show inside the locales.
\<close>

locale read_policy =
  fixes allowed :: "'r call \<Rightarrow> bool"
  assumes reads_allowed: "is_read c \<Longrightarrow> allowed c"
begin

lemma emits_read: "is_read c \<Longrightarrow> emits allowed (invoke c f)"
  by (rule emits_invoke) (rule reads_allowed)

end

locale status_policy = read_policy +
  assumes status_allowed: "allowed (UpdateStatus m)"
begin

lemma emits_status: "emits allowed (invoke (UpdateStatus m) f)"
  by (rule emits_invoke) (rule status_allowed)

end

definition only_reports :: "'r call \<Rightarrow> bool" where
  "only_reports c \<longleftrightarrow> is_read c \<or> is_status_write c"

definition no_scheduling :: "'r call \<Rightarrow> bool" where
  "no_scheduling c \<longleftrightarrow> \<not> is_scheduling_write c"

definition no_work_write :: "'r call \<Rightarrow> bool" where
  "no_work_write c \<longleftrightarrow> \<not> is_work_write c"

interpretation reporting: status_policy only_reports
  by unfold_locales (simp_all add: only_reports_def)

interpretation idle: status_policy no_scheduling
  by unfold_locales (auto simp: no_scheduling_def is_scheduling_write_def dest: is_read_not_write)

end
