(* ===== verification/P2_Status.thy ===== *)
theory P2_Status
  imports P2_Cluster P2_Utils
begin

text \<open>
  \<^verbatim>\<open>internal/controller/status.go\<close> and \<^verbatim>\<open>internal/controller/membership.go\<close>:
  the status conditions and their update, and the checks on the managed cluster set.
\<close>

section \<open>Status\<close>

definition scheduling_in_progress :: string where
  "scheduling_in_progress = ''SchedulingInProgress''"

definition scheduling_successful :: string where
  "scheduling_successful = ''SchedulingSuccessful''"

definition unreliably_scheduled :: string where
  "unreliably_scheduled = ''ScheduledWithUnreliableConnectivity''"

definition scheduling_failed :: string where
  "scheduling_failed = ''SchedulingFailed''"

definition tentatively_scheduled :: string where
  "tentatively_scheduled = ''TentativelyScheduled''"

definition finalizing :: string where
  "finalizing = ''Finalizing''"

definition misconfigured :: string where
  "misconfigured = ''Misconfigured''"

lemmas condition_types = scheduling_in_progress_def scheduling_successful_def unreliably_scheduled_def
  scheduling_failed_def tentatively_scheduled_def finalizing_def misconfigured_def

definition p2code_scheduler_namespace :: string where
  "p2code_scheduler_namespace = ''p2code-scheduler-system''"

definition true_condition :: "string \<Rightarrow> string \<Rightarrow> string \<Rightarrow> condition" where
  "true_condition t reason msg =
     \<lparr>cond_type = t, cond_status = CondTrue, cond_reason = reason, cond_message = msg\<rparr>"

text \<open>The object \<open>UpdateStatus\<close> sends: the one just read, with the new status.\<close>

definition with_status :: "lib \<Rightarrow> condition \<Rightarrow> scheduling_decision list \<Rightarrow> 'r p2m \<Rightarrow> 'r p2m" where
  "with_status L cond decs m =
     m\<lparr>p2m_status := \<lparr>conditions = set_status_condition L (conditions (p2m_status m)) cond,
                      decisions = decs, state = cond_type cond\<rparr>\<rparr>"

definition update_status ::
    "lib \<Rightarrow> ('r, 'w) client \<Rightarrow> 'r p2m \<Rightarrow> condition \<Rightarrow> scheduling_decision list
       \<Rightarrow> ('r, 'w, go_error, 'r p2m) sysP" where
  "update_status L K m cond decs =
     (let key = \<lparr>nn_namespace = p2m_namespace m, nn_name = p2m_name m\<rparr>
      in bindP (invoke (GetManifest key) (cl_get_manifest K key)) (\<lambda>m'.
         let m'' = with_status L cond decs m'
         in invoke (UpdateStatus m'') (cl_update_status K m'')))"

definition get_in_progress_state :: "'r p2m \<Rightarrow> condition option" where
  "get_in_progress_state m =
     (if length (conditions (p2m_status m)) = 0
      then Some (true_condition scheduling_in_progress scheduling_in_progress
             ''Analysing scheduling requirements'')
      else if \<not> p2m_deleting m \<and> state (p2m_status m) \<noteq> scheduling_in_progress
      then Some (true_condition scheduling_in_progress scheduling_in_progress
             ''Reanalysing scheduling requirements'')
      else None)"

section \<open>Cluster set membership\<close>

definition does_managed_cluster_set_exist ::
    "('r, 'w) client \<Rightarrow> string \<Rightarrow> ('r, 'w, go_error, bool) sysP" where
  "does_managed_cluster_set_exist K name =
     bindP (invoke ListClusterSets (cl_list_cluster_sets K)) (\<lambda>sets.
       retP (list_ex (\<lambda>s. s = name) sets))"

definition is_managed_cluster_in_set ::
    "lib \<Rightarrow> ('r, 'w) client \<Rightarrow> string \<Rightarrow> string \<Rightarrow> ('r, 'w, go_error, bool) sysP" where
  "is_managed_cluster_in_set L K set_name cluster =
     (let label = ''cluster.open-cluster-management.io/clusterset='' @ set_name
      in case parse_selector L label of
           Inl e \<Rightarrow> failP (PlainError ''an occurred error creating the label selector'')
         | Inr sel \<Rightarrow>
           bindP (handleP (invoke (ListClusters sel) (cl_list_clusters K sel)) (\<lambda>e.
               failP (PlainError (''failed to list all managed clusters with the label '' @ label))))
             (\<lambda>cs. retP (list_ex (\<lambda>c. mcl_name c = cluster) cs)))"

definition is_cluster_set_bound ::
    "('r, 'w) client \<Rightarrow> string \<Rightarrow> ('r, 'w, go_error, bool) sysP" where
  "is_cluster_set_bound K name =
     bindP (invoke (ListBindings p2code_scheduler_namespace)
         (cl_list_bindings K p2code_scheduler_namespace)) (\<lambda>bs.
       retP (list_ex (\<lambda>b. csb_cluster_set b = name) bs))"

definition is_cluster_set_empty ::
    "lib \<Rightarrow> ('r, 'w) client \<Rightarrow> string \<Rightarrow> ('r, 'w, go_error, bool) sysP" where
  "is_cluster_set_empty L K name =
     (let sel = (cluster_set_label L, name)
      in bindP (invoke (ListClusters sel) (cl_list_clusters K sel)) (\<lambda>cs. retP (length cs < 1)))"

section \<open>Discovery of the MultiClusterNetwork API\<close>

text \<open>\<open>utils.IsMultiClusterNetworkInstalled\<close>.\<close>

definition is_multi_cluster_network_installed ::
    "('r, 'w) client \<Rightarrow> ('r, 'w, go_error, bool) sysP" where
  "is_multi_cluster_network_installed K =
     bindP (invoke RestDiscovery (cl_in_cluster_config K)) (\<lambda>_.
     bindP (invoke RestDiscovery (cl_http_client K)) (\<lambda>_.
     bindP (invoke RestDiscovery (cl_rest_mapper K)) (\<lambda>_.
     bindP (attemptP (invoke RestDiscovery (cl_rest_mapping K ''MultiClusterNetwork''))) (\<lambda>r.
       case r of
         Inr _ \<Rightarrow> retP True
       | Inl e \<Rightarrow> (case e of
             Api a \<Rightarrow> if is_no_match a then retP False else failP e
           | _ \<Rightarrow> failP e)))))"

section \<open>They read, and write nothing but the status\<close>

context read_policy
begin

lemma emits_does_exist: "emits allowed (does_managed_cluster_set_exist K n)"
  unfolding does_managed_cluster_set_exist_def by (intro emits_intros reads_allowed) simp

lemma emits_in_set: "emits allowed (is_managed_cluster_in_set L K n c)"
  unfolding is_managed_cluster_in_set_def by (intro emits_intros reads_allowed) simp

lemma emits_bound: "emits allowed (is_cluster_set_bound K n)"
  unfolding is_cluster_set_bound_def by (intro emits_intros reads_allowed) simp

lemma emits_empty: "emits allowed (is_cluster_set_empty L K n)"
  unfolding is_cluster_set_empty_def by (intro emits_intros reads_allowed) simp

lemma emits_installed: "emits allowed (is_multi_cluster_network_installed K)"
  unfolding is_multi_cluster_network_installed_def
  by (intro emits_intros reads_allowed) (auto split: go_error.splits intro: emits_intros)

end

context status_policy
begin

lemma emits_update_status: "emits allowed (update_status L K m c ds)"
  unfolding update_status_def
  by (intro emits_intros status_allowed reads_allowed) simp

end

end
