(* ===== verification/P2_Controller.thy ===== *)
theory P2_Controller
  imports P2_Network P2_Status
begin

text \<open>
  The helper methods of
  \<^verbatim>\<open>internal/controller/p2codeschedulingmanifest_controller.go\<close> (placements,
  ManifestWorks, the scheduling decisions) and the methods of
  \<^verbatim>\<open>network-connectivity.go\<close> that talk to the API server. Each is a procedure
  over the state of \<^verbatim>\<open>P2_Cluster\<close>; its requests are in the trace in the order
  of the code.
\<close>

definition finalizer :: string where
  "finalizer = ''scheduling.p2code.eu/finalizer''"

definition ownership_label :: string where
  "ownership_label = ''scheduling.p2code.eu/owner''"

definition multi_cluster_network_namespace :: string where
  "multi_cluster_network_namespace = ''ac3no-system''"

definition multi_cluster_network_resource_name :: string where
  "multi_cluster_network_resource_name = ''application-connectivity-definitions''"

definition scheduler_key :: "string \<Rightarrow> namespaced_name" where
  "scheduler_key name = \<lparr>nn_namespace = p2code_scheduler_namespace, nn_name = name\<rparr>"

section \<open>Placements\<close>

text \<open>A nil slice of requirements and an empty one are sent the same way.\<close>

definition match_expressions_of :: "requirements \<Rightarrow> requirement list" where
  "match_expressions_of reqs = (case reqs of None \<Rightarrow> [] | Some rs \<Rightarrow> rs)"

definition new_placement :: "string \<Rightarrow> string \<Rightarrow> requirements \<Rightarrow> placement" where
  "new_placement name cluster_set reqs =
     zero_placement\<lparr>pl_name := name, pl_namespace := p2code_scheduler_namespace,
       pl_number_of_clusters := Some 1, pl_cluster_sets := [cluster_set],
       pl_predicates := (case reqs of None \<Rightarrow> [] | Some rs \<Rightarrow> [rs])\<rparr>"

definition create_placement ::
    "lib \<Rightarrow> ('r, 'w) client \<Rightarrow> string \<Rightarrow> string \<Rightarrow> requirements \<Rightarrow> 'r p2m
       \<Rightarrow> ('r, 'w, go_error, placement) sysP" where
  "create_placement L K name cluster_set reqs m =
     (case set_controller_reference L (p2m_name m) (new_placement name cluster_set reqs) of
        Inl e \<Rightarrow> failP (Wrapped ''failed to set controller reference for placement: '' (PlainError e))
      | Inr p \<Rightarrow> handleP (invoke (CreatePlacement p) (cl_create_placement K p))
          (\<lambda>e. failP (Wrapped ''failed to create Placement: '' e)))"

text \<open>
  Only a NotFound error creates the placement; any other error of the first read leaves
  the zero placement in the variable and the code goes on to update it.
\<close>

definition get_associated_placement ::
    "lib \<Rightarrow> ('r, 'w) client \<Rightarrow> 'r workload_bundle \<Rightarrow> 'r p2m \<Rightarrow> ('r, 'w, go_error, placement) sysP" where
  "get_associated_placement L K b m =
     (let d = scheduling_details b; key = scheduler_key (resource_name d);
          update = (\<lambda>p. let p' = p\<lparr>pl_predicates := [match_expressions_of (placement_requests d)]\<rparr>
            in bindP (invoke (UpdatePlacement p') (cl_update_placement K p')) (\<lambda>_.
               invoke (GetPlacement key) (cl_get_placement K key)))
      in bindP (attemptP (invoke (GetPlacement key) (cl_get_placement K key))) (\<lambda>r.
         case r of
           Inl (Api (NotFound t)) \<Rightarrow>
             bindP (liftP (extract_target (global_annotations (p2m_spec m)))) (\<lambda>(cluster_set, _).
               create_placement L K (resource_name d) cluster_set (placement_requests d) m)
         | Inl _ \<Rightarrow> update zero_placement
         | Inr p \<Rightarrow> update p))"

definition delete_placement ::
    "('r, 'w) client \<Rightarrow> string \<Rightarrow> ('r, 'w, go_error, unit) sysP" where
  "delete_placement K name =
     bindP (attemptP (invoke (GetPlacement (scheduler_key name))
         (cl_get_placement K (scheduler_key name)))) (\<lambda>r.
       case r of
         Inl _ \<Rightarrow> retP ()
       | Inr p \<Rightarrow> invoke (DeletePlacement p) (cl_delete_placement K p))"

definition get_selected_cluster ::
    "('r, 'w) client \<Rightarrow> placement \<Rightarrow> ('r, 'w, go_error, string) sysP" where
  "get_selected_cluster K p =
     bindP (liftP (index_go (pl_decision_groups p) 0)) (\<lambda>g.
     bindP (liftP (index_go g 0)) (\<lambda>name.
     bindP (invoke (GetDecision (scheduler_key name)) (cl_get_decision K (scheduler_key name))) (\<lambda>pd.
       liftP (index_go (pd_cluster_names pd) 0))))"

text \<open>The four tests of the code are on the same reason and exclude each other.\<close>

definition extract_failed_condition ::
    "('r, 'w) client \<Rightarrow> condition \<Rightarrow> string \<Rightarrow> ('r, 'w, go_error, condition) sysP" where
  "extract_failed_condition K pc set_name =
     (if cond_reason pc = ''NoManagedClusterMatched''
      then retP (true_condition scheduling_failed ''SchedulingAnnotationsUnsatisfied''
        (''Unable to find a suitable location for the workload as there are no managed clusters in the ''
          @ set_name @ '' managed cluster set that satisfy the annotations requested''))
      else if cond_reason pc = ''NoIntersection''
      then bindP (does_managed_cluster_set_exist K set_name) (\<lambda>found.
        if found
        then retP (true_condition scheduling_failed ''InaccessibleManagedClusterSet''
          (''The scheduler is not authorized to access the '' @ set_name @ '' managed cluster set''))
        else retP (true_condition scheduling_failed ''InvalidTarget''
          (''Cannot find a managed cluster set with the name '' @ set_name)))
      else if cond_reason pc = ''AllManagedClusterSetsEmpty''
      then retP (true_condition scheduling_failed ''InvalidTarget''
        (''The managed cluster set selected ('' @ set_name @ '') is empty''))
      else if cond_reason pc = ''NoManagedClusterSetBindings''
      then retP (true_condition scheduling_failed ''InaccessibleManagedClusterSet''
        ''The scheduler is not authorized to access any managed cluster sets'')
      else retP (true_condition scheduling_failed (cond_reason pc) (cond_message pc)))"

section \<open>ManifestWorks\<close>

definition resources_to_server_side_apply :: "string list" where
  "resources_to_server_side_apply = [''PersistentVolumeClaim'']"

definition manifest_config_option :: "'r resource \<Rightarrow> manifest_config" where
  "manifest_config_option r =
     \<lparr>mc_group = gvk_group (res_gvk r), mc_resource = to_lower (res_kind r) @ ''s'',
      mc_name = res_name r, mc_namespace = res_namespace r, mc_strategy = ''ServerSideApply''\<rparr>"

definition generate_manifest_work_for_bundle ::
    "string \<Rightarrow> string \<Rightarrow> string \<Rightarrow> 'r resource_set \<Rightarrow> 'r manifest_work" where
  "generate_manifest_work_for_bundle name namespace owner resources =
     \<lparr>work_name = name, work_namespace = namespace, work_labels = [(ownership_label, owner)],
      work_spec =
        \<lparr>work_manifests = map res_manifest resources,
         work_configs = map manifest_config_option
           (filter (\<lambda>r. List.member resources_to_server_side_apply (res_kind r)) resources)\<rparr>,
      work_status = []\<rparr>"

definition owner_selector :: "lib \<Rightarrow> string \<Rightarrow> string + (string \<times> string)" where
  "owner_selector L owner = parse_selector L (ownership_label @ ''='' @ owner)"

definition get_owned_manifest_work_list ::
    "lib \<Rightarrow> ('r, 'w) client \<Rightarrow> string \<Rightarrow> ('r, 'w, go_error, 'r manifest_work list) sysP" where
  "get_owned_manifest_work_list L K owner =
     (case owner_selector L owner of
        Inl e \<Rightarrow> failP (PlainError e)
      | Inr sel \<Rightarrow> invoke (ListWorks sel) (cl_list_works K sel))"

definition delete_owned_manifest_work_list ::
    "lib \<Rightarrow> ('r, 'w) client \<Rightarrow> string \<Rightarrow> ('r, 'w, go_error, unit) sysP" where
  "delete_owned_manifest_work_list L K owner =
     bindP (get_owned_manifest_work_list L K owner) (\<lambda>ws.
       loopP (\<lambda>w _. invoke (DeleteWork w) (cl_delete_work K w)) ws ())"

definition delete_manifest_work ::
    "('r, 'w) client \<Rightarrow> string \<Rightarrow> string \<Rightarrow> ('r, 'w, go_error, unit) sysP" where
  "delete_manifest_work K name namespace =
     (let key = \<lparr>nn_namespace = namespace, nn_name = name\<rparr>
      in bindP (attemptP (invoke (GetWork key) (cl_get_work K key))) (\<lambda>r.
         case r of
           Inl _ \<Rightarrow> retP ()
         | Inr w \<Rightarrow> invoke (DeleteWork w) (cl_delete_work K w)))"

definition condition_fails :: "condition \<Rightarrow> bool" where
  "condition_fails c \<longleftrightarrow>
     (cond_type c = ''Applied'' \<and> cond_status c = CondFalse) \<or>
     (cond_type c = ''Available'' \<and> cond_status c = CondFalse)"

definition validate_manifest_work_applied :: "'r manifest_work \<Rightarrow> (go_error, unit) go" where
  "validate_manifest_work_applied w =
     (if length (work_status w) < 1
      then Fail (ManifestWorkNotReadyError
        (''ResourceStatus for '' @ work_name w @ '' ManifestWork is empty''))
      else fold_go (\<lambda>conds _. fold_go (\<lambda>c _.
             if condition_fails c then Fail (ManifestWorkFailedError (cond_message c)) else Ok ())
             conds ()) (work_status w) ())"

definition get_scheduling_decisions :: "'r bundle_list \<Rightarrow> scheduling_decision list" where
  "get_scheduling_decisions bundles =
     map (\<lambda>b. \<lparr>workload_name = bundle_name b,
                cluster_selected = cluster_name (scheduling_details b)\<rparr>) bundles"

section \<open>The MultiClusterNetwork resource\<close>

definition empty_network :: multi_cluster_network where
  "empty_network = \<lparr>mcn_name = multi_cluster_network_resource_name,
     mcn_namespace = multi_cluster_network_namespace, mcn_links = []\<rparr>"

definition network_key :: namespaced_name where
  "network_key = \<lparr>nn_namespace = multi_cluster_network_namespace,
                  nn_name = multi_cluster_network_resource_name\<rparr>"

definition fetch_multi_cluster_network ::
    "('r, 'w) client \<Rightarrow> ('r, 'w, go_error, multi_cluster_network) sysP" where
  "fetch_multi_cluster_network K =
     handleP (invoke (GetNetwork network_key) (cl_get_network K network_key)) (\<lambda>e.
       case e of
         Api (NotFound t) \<Rightarrow> invoke (CreateNetwork empty_network) (cl_create_network K empty_network)
       | _ \<Rightarrow> failP e)"

definition register_network_links ::
    "lib \<Rightarrow> ('r, 'w) client \<Rightarrow> network_connection list \<Rightarrow> ('r, 'w, go_error, unit) sysP" where
  "register_network_links L K ncs =
     bindP (fetch_multi_cluster_network K) (\<lambda>n.
       let n' = n\<lparr>mcn_links := register_links L ncs (mcn_links n)\<rparr>
       in invoke (UpdateNetwork n') (cl_update_network K n'))"

definition delete_network_links ::
    "lib \<Rightarrow> ('r, 'w) client \<Rightarrow> network_connection list \<Rightarrow> ('r, 'w, go_error, unit) sysP" where
  "delete_network_links L K ncs =
     bindP (fetch_multi_cluster_network K) (\<lambda>n.
     bindP (liftP (delete_links L ncs (mcn_links n))) (\<lambda>links.
       let n' = n\<lparr>mcn_links := links\<rparr>
       in invoke (UpdateNetwork n') (cl_update_network K n')))"

section \<open>What the methods may send\<close>

context read_policy
begin

lemma emits_selected: "emits allowed (get_selected_cluster K p)"
  unfolding get_selected_cluster_def by (intro emits_intros reads_allowed) simp

lemma emits_failed_condition: "emits allowed (extract_failed_condition K c n)"
  unfolding extract_failed_condition_def by (intro emits_intros emits_does_exist)

lemma emits_owned: "emits allowed (get_owned_manifest_work_list L K owner)"
  unfolding get_owned_manifest_work_list_def by (intro emits_intros reads_allowed) simp

end

text \<open>
  Policies that also hold the writes to one kind of object. A cleaning policy holds what a
  clean-up sends but for placements, a scheduling policy holds those as well, and a manifest
  policy the update of the manifest; a server policy is both, and leaves out the creation
  and update of ManifestWorks only.
\<close>

locale placement_policy = read_policy +
  assumes placement_allowed: "is_placement_write c \<Longrightarrow> allowed c"
begin

lemma emits_create_placement: "emits allowed (create_placement L K n cs reqs m)"
  unfolding create_placement_def by (intro emits_intros placement_allowed) simp

lemma emits_associated: "emits allowed (get_associated_placement L K b m)"
  unfolding get_associated_placement_def Let_def
  by (intro emits_intros)
     (auto simp: reads_allowed placement_allowed split: go_error.splits api_error.splits
       intro!: emits_intros emits_create_placement)

lemma emits_delete_placement: "emits allowed (delete_placement K n)"
  unfolding delete_placement_def
  by (intro emits_intros reads_allowed placement_allowed) simp_all

end

locale work_delete_policy = read_policy +
  assumes delete_allowed: "allowed (DeleteWork w)"
begin

lemma emits_delete_work: "emits allowed (delete_manifest_work K n ns)"
  unfolding delete_manifest_work_def Let_def
  by (intro emits_intros reads_allowed delete_allowed) simp

lemma emits_delete_owned: "emits allowed (delete_owned_manifest_work_list L K owner)"
  unfolding delete_owned_manifest_work_list_def
  by (intro emits_intros emits_owned delete_allowed)

end

locale network_policy = read_policy +
  assumes network_allowed: "is_network_write c \<Longrightarrow> allowed c"
begin

lemma emits_fetch_network: "emits allowed (fetch_multi_cluster_network K)"
  unfolding fetch_multi_cluster_network_def
  by (intro emits_intros reads_allowed)
     (auto split: go_error.splits api_error.splits intro!: emits_intros network_allowed)

lemma emits_register: "emits allowed (register_network_links L K ncs)"
  unfolding register_network_links_def Let_def
  by (intro emits_intros emits_fetch_network network_allowed) simp

lemma emits_delete_links: "emits allowed (delete_network_links L K ncs)"
  unfolding delete_network_links_def Let_def
  by (intro emits_intros emits_fetch_network network_allowed) simp

end

locale cleaning_policy = status_policy + work_delete_policy + network_policy

locale scheduling_policy = cleaning_policy + placement_policy

locale manifest_policy = cleaning_policy +
  assumes manifest_allowed: "allowed (UpdateManifest m)"

locale server_policy = scheduling_policy + manifest_policy

lemma work_write_cases: "is_work_write c \<Longrightarrow> \<exists>w. c = CreateWork w \<or> c = UpdateWork w"
  by (cases c) simp_all

interpretation workless: server_policy no_work_write
  by unfold_locales (auto simp: no_work_write_def dest!: work_write_cases)

end
