(* ===== verification/P2_Reconcile.thy ===== *)
theory P2_Reconcile
  imports P2_Controller
begin

text \<open>
  The method \<open>Reconcile\<close> of
  \<^verbatim>\<open>internal/controller/p2codeschedulingmanifest_controller.go\<close>, in the order of
  the code, one definition for each of its stages. An early return of the method is a
  \<open>stop\<close> that ends the stages after it; the manifest a status update read back is
  the one the stages after the update see, as in the code, where the update writes through
  the pointer.
\<close>

section \<open>Ways a run ends\<close>

datatype ctrl_result = Done | Requeue | RequeueAfter nat

text \<open>\<open>Return r\<close> is \<open>return r, nil\<close>; \<open>Raise e\<close> is \<open>return ctrl.Result{}, err\<close>.\<close>

datatype stop = Return ctrl_result | Raise go_error

definition raising :: "('s, go_error, 'a) proc \<Rightarrow> ('s, stop, 'a) proc" where
  "raising m = handleP m (\<lambda>e. failP (Raise e))"

definition stop_with :: "ctrl_result \<Rightarrow> ('s, stop, 'a) proc" where
  "stop_with r = failP (Return r)"

text \<open>The idiom "update the status, then end the reconciliation".\<close>

definition report ::
    "lib \<Rightarrow> ('r, 'w) client \<Rightarrow> 'r p2m \<Rightarrow> condition \<Rightarrow> scheduling_decision list
       \<Rightarrow> ('r, 'w, stop, 'a) sysP" where
  "report L K m cond decs = bindP (raising (update_status L K m cond decs)) (\<lambda>_. stop_with Done)"

definition stored_bundles :: "('r, 'w) sys \<Rightarrow> string \<Rightarrow> 'r bundle_list" where
  "stored_bundles s name = (case sys_bundles s name of None \<Rightarrow> [] | Some bl \<Rightarrow> bl)"

section \<open>Start, namespace and finalizer\<close>

definition start_reconcile ::
    "lib \<Rightarrow> ('r, 'w) client \<Rightarrow> namespaced_name \<Rightarrow> ('r, 'w, stop, 'r p2m) sysP" where
  "start_reconcile L K req =
     bindP (attemptP (invoke (GetManifest req) (cl_get_manifest K req))) (\<lambda>r.
       case r of
         Inl (Api (NotFound t)) \<Rightarrow> stop_with Done
       | Inl e \<Rightarrow> failP (Raise e)
       | Inr m \<Rightarrow>
         bindP (raising (liftP (truncate_name_if_needed L (p2m_name m)))) (\<lambda>owner.
         bindP (modifyP (\<lambda>s. s\<lparr>sys_owner := owner\<rparr>)) (\<lambda>_.
         case get_in_progress_state m of
           None \<Rightarrow> retP m
         | Some c \<Rightarrow> raising (update_status L K m c []))))"

definition check_namespace ::
    "lib \<Rightarrow> ('r, 'w) client \<Rightarrow> namespaced_name \<Rightarrow> 'r p2m \<Rightarrow> ('r, 'w, stop, unit) sysP" where
  "check_namespace L K req m =
     (if nn_namespace req \<noteq> p2code_scheduler_namespace
      then report L K m (true_condition misconfigured (to_camel L ''incorrect namespace'')
        ''Ignoring resource as it is not in the p2code-scheduler-system namespace'') []
      else retP ())"

definition ensure_finalizer ::
    "lib \<Rightarrow> ('r, 'w) client \<Rightarrow> namespaced_name \<Rightarrow> 'r p2m \<Rightarrow> ('r, 'w, stop, 'r p2m) sysP" where
  "ensure_finalizer L K req m =
     (if contains_finalizer L (p2m_finalizers m) finalizer then retP m
      else bindP (raising (invoke (GetManifest req) (cl_get_manifest K req))) (\<lambda>m.
        case add_finalizer L (p2m_finalizers m) finalizer of
          None \<Rightarrow> stop_with Requeue
        | Some fs \<Rightarrow>
          (let m' = m\<lparr>p2m_finalizers := fs\<rparr>
           in raising (invoke (UpdateManifest m') (cl_update_manifest K m')))))"

section \<open>Deletion\<close>

definition remove_stored_links ::
    "lib \<Rightarrow> ('r, 'w) client \<Rightarrow> string \<Rightarrow> ('r, 'w, stop, unit) sysP" where
  "remove_stored_links L K name =
     bindP (getP (\<lambda>s. stored_bundles s name)) (\<lambda>old.
     bindP (raising (liftP (get_network_connections old))) (\<lambda>ncs.
       raising (delete_network_links L K ncs)))"

definition release ::
    "lib \<Rightarrow> ('r, 'w) client \<Rightarrow> 'r p2m \<Rightarrow> ('r, 'w, stop, 'a) sysP" where
  "release L K m =
     bindP (raising (update_status L K m (true_condition finalizing finalizing
       ''Removing finalizer to allow instance to be deleted'') [])) (\<lambda>m.
     case remove_finalizer L (p2m_finalizers m) finalizer of
       None \<Rightarrow> stop_with Requeue
     | Some fs \<Rightarrow>
       (let m' = m\<lparr>p2m_finalizers := fs\<rparr>
        in bindP (raising (invoke (UpdateManifest m') (cl_update_manifest K m'))) (\<lambda>_. stop_with Done)))"

definition finalize ::
    "lib \<Rightarrow> ('r, 'w) client \<Rightarrow> 'r p2m \<Rightarrow> ('r, 'w, stop, 'a) sysP" where
  "finalize L K m =
     bindP (raising (update_status L K m (true_condition finalizing finalizing
       ''Performing finalizing operations before deleting P2CodeSchedulingManifest'') [])) (\<lambda>m.
     bindP (getP sys_owner) (\<lambda>owner.
     bindP (raising (delete_owned_manifest_work_list L K owner)) (\<lambda>_.
     bindP (raising (is_multi_cluster_network_installed K)) (\<lambda>installed.
     bindP (if installed then remove_stored_links L K (p2m_name m) else retP ()) (\<lambda>_.
     bindP (modifyP (\<lambda>s. s\<lparr>sys_bundles := delete_bundles (sys_bundles s) (p2m_name m)\<rparr>)) (\<lambda>_.
       release L K m))))))"

definition handle_deletion ::
    "lib \<Rightarrow> ('r, 'w) client \<Rightarrow> 'r p2m \<Rightarrow> ('r, 'w, stop, unit) sysP" where
  "handle_deletion L K m =
     (if p2m_deleting m
      then if contains_finalizer L (p2m_finalizers m) finalizer then finalize L K m else stop_with Done
      else retP ())"

section \<open>Validation\<close>

definition check_annotations ::
    "lib \<Rightarrow> ('r, 'w) client \<Rightarrow> 'r p2m \<Rightarrow> ('r, 'w, stop, unit) sysP" where
  "check_annotations L K m =
     (case validate_annotations_supported m of
        Ok _ \<Rightarrow> retP ()
      | Fail e \<Rightarrow> report L K m (true_condition misconfigured ''UnsupportedAnnotation''
          (''Unsupported annotations found, '' @ error_text e)) []
      | Panic \<Rightarrow> liftP Panic)"

definition read_target ::
    "lib \<Rightarrow> ('r, 'w) client \<Rightarrow> 'r p2m \<Rightarrow> ('r, 'w, stop, string \<times> string) sysP" where
  "read_target L K m =
     (case extract_target (global_annotations (p2m_spec m)) of
        Ok t \<Rightarrow> retP t
      | Fail e \<Rightarrow> report L K m (true_condition misconfigured ''MissingTarget''
          (''Target information missing from the scheduling manifest, '' @ error_text e)) []
      | Panic \<Rightarrow> liftP Panic)"

definition check_cluster_set ::
    "lib \<Rightarrow> ('r, 'w) client \<Rightarrow> 'r p2m \<Rightarrow> string \<Rightarrow> ('r, 'w, stop, unit) sysP" where
  "check_cluster_set L K m set_name =
     bindP (raising (does_managed_cluster_set_exist K set_name)) (\<lambda>found.
     if \<not> found
     then report L K m (true_condition scheduling_failed ''InvalidTarget''
       (''Cannot find a managed cluster set with the name '' @ set_name)) []
     else bindP (raising (is_cluster_set_empty L K set_name)) (\<lambda>empty.
     if empty
     then report L K m (true_condition scheduling_failed ''InvalidTarget''
       (''The managed cluster set selected ('' @ set_name @ '') is empty'')) []
     else bindP (raising (is_cluster_set_bound K set_name)) (\<lambda>bound.
     if \<not> bound
     then report L K m (true_condition scheduling_failed ''InaccessibleManagedClusterSet''
       (''The scheduler is not authorized to access the '' @ set_name @ '' managed cluster set'')) []
     else retP ())))"

text \<open>
  What both branches of the code do with an error of the conversion or the bundling: a
  misconfigured manifest ends the run with a status, another error is returned.
\<close>

definition or_misconfigured ::
    "lib \<Rightarrow> ('r, 'w) client \<Rightarrow> 'r p2m \<Rightarrow> (go_error, 'a) go \<Rightarrow> ('r, 'w, stop, 'a) sysP" where
  "or_misconfigured L K m r =
     (case r of
        Ok x \<Rightarrow> retP x
      | Fail e \<Rightarrow>
        if as_misconfigured e
        then bindP (raising (liftP (sentence_case (error_text e)))) (\<lambda>text.
          report L K m (true_condition misconfigured ''MisconfiguredManifest'' text) [])
        else failP (Raise e)
      | Panic \<Rightarrow> liftP Panic)"

section \<open>A target cluster\<close>

definition set_cluster :: "string \<Rightarrow> 'r workload_bundle \<Rightarrow> 'r workload_bundle" where
  "set_cluster cluster b =
     b\<lparr>scheduling_details := (scheduling_details b)\<lparr>cluster_name := cluster\<rparr>\<rparr>"

definition bundle_for_target ::
    "lib \<Rightarrow> 'r bundle_list \<Rightarrow> string \<Rightarrow> string \<Rightarrow> 'r resource_set \<Rightarrow> (go_error, 'r bundle_list) go" where
  "bundle_for_target L bundles name cluster resources =
     (case get_bundle bundles name of
        Some _ \<Rightarrow> Ok (assign_bundle bundles name (\<lambda>b.
          set_cluster cluster (bundle_update b (Some []) resources)))
      | None \<Rightarrow> bind_go (truncate_name_if_needed L (cluster @ ''-'' @ name)) (\<lambda>rn.
          Ok (add_bundle bundles
            \<lparr>bundle_name = name, bundle_resources = resources, absent_resources = [],
             external_connections = [],
             scheduling_details = zero_details\<lparr>cluster_name := cluster, resource_name := rn\<rparr>\<rparr>)))"

definition target_cluster_bundles ::
    "'r codec \<Rightarrow> lib \<Rightarrow> ('r, 'w) client \<Rightarrow> 'r p2m \<Rightarrow> string \<Rightarrow> string \<Rightarrow> 'r bundle_list
       \<Rightarrow> ('r, 'w, stop, 'r bundle_list) sysP" where
  "target_cluster_bundles C L K m set_name cluster bundles =
     bindP (raising (is_managed_cluster_in_set L K set_name cluster)) (\<lambda>member.
     if \<not> member
     then report L K m (true_condition scheduling_failed ''InvalidTarget''
       (''Cannot find a managed cluster with the name '' @ cluster @ '' in the '' @ set_name
         @ '' managed cluster set'')) []
     else bindP (or_misconfigured L K m (bulk_convert_to_resource_set C L (manifests (p2m_spec m)))) (\<lambda>resources.
       raising (liftP (bundle_for_target L bundles (p2m_name m) cluster resources))))"

section \<open>Placement of the bundles\<close>

definition requeue_delay :: nat where
  "requeue_delay = 10"

definition place_bundle ::
    "lib \<Rightarrow> ('r, 'w) client \<Rightarrow> 'r p2m \<Rightarrow> 'r workload_bundle \<Rightarrow> ('r, 'w, stop, 'r workload_bundle) sysP" where
  "place_bundle L K m b =
     bindP (raising (get_associated_placement L K b m)) (\<lambda>p.
     if length (pl_conditions p) < 1 then stop_with (RequeueAfter requeue_delay)
     else case find_status_condition L (pl_conditions p) ''PlacementSatisfied'' of
       None \<Rightarrow> stop_with (RequeueAfter requeue_delay)
     | Some c \<Rightarrow>
       if cond_status c = CondTrue
       then bindP (handleP (get_selected_cluster K p) (\<lambda>e. failP (Raise (PlainError
           (''unable to read placement decision for '' @ pl_name p @ '' placement''))))) (\<lambda>cluster.
         retP (set_cluster cluster b))
       else bindP (raising (liftP (index_go (pl_cluster_sets p) 0))) (\<lambda>set_name.
         bindP (raising (extract_failed_condition K c set_name)) (\<lambda>c'. report L K m c' [])))"

definition place_bundles ::
    "lib \<Rightarrow> ('r, 'w) client \<Rightarrow> 'r p2m \<Rightarrow> 'r bundle_list \<Rightarrow> ('r, 'w, stop, 'r bundle_list) sysP" where
  "place_bundles L K m bundles =
     loopP (\<lambda>b placed. bindP (place_bundle L K m b) (\<lambda>b'. retP (placed @ [b']))) bundles []"

definition announce_placement ::
    "lib \<Rightarrow> ('r, 'w) client \<Rightarrow> 'r p2m \<Rightarrow> 'r bundle_list \<Rightarrow> ('r, 'w, stop, 'r p2m) sysP" where
  "announce_placement L K m bundles =
     raising (update_status L K m (true_condition scheduling_in_progress ''PlacementDecisionReady''
       ''A suitable cluster has been identified for each workload'') (get_scheduling_decisions bundles))"

definition placed_workload_bundles ::
    "'r codec \<Rightarrow> lib \<Rightarrow> ('r, 'w) client \<Rightarrow> 'r p2m \<Rightarrow> 'r bundle_list
       \<Rightarrow> ('r, 'w, stop, 'r p2m \<times> 'r bundle_list) sysP" where
  "placed_workload_bundles C L K m bundles =
     bindP (or_misconfigured L K m (build_and_update_bundles C L bundles m)) (\<lambda>built.
     bindP (place_bundles L K m built) (\<lambda>placed.
     bindP (announce_placement L K m placed) (\<lambda>m'.
       retP (m', placed))))"

definition choose_clusters ::
    "'r codec \<Rightarrow> lib \<Rightarrow> ('r, 'w) client \<Rightarrow> 'r p2m \<Rightarrow> string \<Rightarrow> string
       \<Rightarrow> ('r, 'w, stop, 'r p2m \<times> 'r bundle_list) sysP" where
  "choose_clusters C L K m set_name cluster =
     (if cluster \<noteq> ''''
      then bindP (target_cluster_bundles C L K m set_name cluster []) (\<lambda>bundles. retP (m, bundles))
      else placed_workload_bundles C L K m [])"

section \<open>Clean-up of the bundles of the run before\<close>

definition clean_up_bundle ::
    "('r, 'w) client \<Rightarrow> 'r bundle_list \<Rightarrow> 'r bundle_list \<Rightarrow> 'r workload_bundle
       \<Rightarrow> unit \<Rightarrow> ('r, 'w, stop, unit) sysP" where
  "clean_up_bundle K existing bundles b _ =
     (let d = scheduling_details b
      in case get_bundle bundles (bundle_name b) of
           Some new \<Rightarrow>
             (case get_bundle existing (bundle_name b) of
                None \<Rightarrow> liftP Panic
              | Some previous \<Rightarrow>
                if cluster_name (scheduling_details new) \<noteq> cluster_name (scheduling_details previous)
                then raising (delete_manifest_work K (resource_name (scheduling_details previous))
                       (cluster_name (scheduling_details previous)))
                else retP ())
         | None \<Rightarrow>
             if resource_name d \<noteq> ''''
             then bindP (raising (delete_placement K (resource_name d))) (\<lambda>_.
               if cluster_name d \<noteq> ''''
               then raising (delete_manifest_work K (resource_name d) (cluster_name d))
               else retP ())
             else retP ())"

definition clean_up_old_bundles ::
    "('r, 'w) client \<Rightarrow> string \<Rightarrow> 'r bundle_list \<Rightarrow> ('r, 'w, stop, unit) sysP" where
  "clean_up_old_bundles K name bundles =
     bindP (getP (\<lambda>s. stored_bundles s name)) (\<lambda>existing.
       loopP (clean_up_bundle K existing bundles) existing ())"

section \<open>ManifestWorks\<close>

definition work_key :: "'r workload_bundle \<Rightarrow> namespaced_name" where
  "work_key b = \<lparr>nn_namespace = cluster_name (scheduling_details b),
                 nn_name = resource_name (scheduling_details b)\<rparr>"

definition work_of :: "string \<Rightarrow> 'r workload_bundle \<Rightarrow> 'r manifest_work" where
  "work_of owner b = generate_manifest_work_for_bundle (resource_name (scheduling_details b))
     (cluster_name (scheduling_details b)) owner (bundle_resources b)"

definition apply_bundle ::
    "('r, 'w) client \<Rightarrow> string \<Rightarrow> 'r workload_bundle \<Rightarrow> nat \<Rightarrow> ('r, 'w, stop, nat) sysP" where
  "apply_bundle K owner b placed =
     (let w = work_of owner b;
          update = (\<lambda>old. let w' = old\<lparr>work_spec := work_spec w\<rparr>
            in raising (invoke (UpdateWork w') (cl_update_work K w')))
      in bindP (attemptP (invoke (GetWork (work_key b)) (cl_get_work K (work_key b)))) (\<lambda>r.
         bindP (case r of
             Inl (Api (NotFound t)) \<Rightarrow> raising (invoke (CreateWork w) (cl_create_work K w))
           | Inl _ \<Rightarrow> update zero_work
           | Inr old \<Rightarrow> update old) (\<lambda>_.
           retP (placed + length (bundle_resources b)))))"

text \<open>The result is \<open>placedManifests\<close>.\<close>

definition apply_bundles ::
    "('r, 'w) client \<Rightarrow> string \<Rightarrow> 'r bundle_list \<Rightarrow> ('r, 'w, stop, nat) sysP" where
  "apply_bundles K owner bundles = loopP (apply_bundle K owner) bundles 0"

definition check_work ::
    "lib \<Rightarrow> ('r, 'w) client \<Rightarrow> 'r p2m \<Rightarrow> 'r bundle_list \<Rightarrow> 'r manifest_work \<Rightarrow> unit
       \<Rightarrow> ('r, 'w, stop, unit) sysP" where
  "check_work L K m bundles w _ =
     (case validate_manifest_work_applied w of
        Ok _ \<Rightarrow> retP ()
      | Fail e \<Rightarrow>
        if as_work_failed e
        then bindP (raising (liftP (sentence_case (error_text e)))) (\<lambda>text.
          report L K m (true_condition scheduling_failed ''ManifestWorkFailed'' text)
            (get_scheduling_decisions bundles))
        else if as_work_not_ready e then stop_with (RequeueAfter requeue_delay)
        else failP (Raise e)
      | Panic \<Rightarrow> liftP Panic)"

definition check_works ::
    "lib \<Rightarrow> ('r, 'w) client \<Rightarrow> string \<Rightarrow> 'r p2m \<Rightarrow> 'r bundle_list \<Rightarrow> ('r, 'w, stop, unit) sysP" where
  "check_works L K owner m bundles =
     bindP (raising (get_owned_manifest_work_list L K owner)) (\<lambda>works.
     if length bundles \<noteq> length works then stop_with (RequeueAfter requeue_delay)
     else loopP (check_work L K m bundles) works ())"

section \<open>Network links\<close>

definition unreliable_message :: string where
  "unreliable_message = ''All workloads have been successfully scheduled, however network connectivity between components cannot be guaranteed as it is not possible to create the necessary MultiClusterLinks without the resource being present''"

definition connect_bundles ::
    "lib \<Rightarrow> ('r, 'w) client \<Rightarrow> 'r p2m \<Rightarrow> 'r bundle_list \<Rightarrow> ('r, 'w, stop, unit) sysP" where
  "connect_bundles L K m bundles =
     bindP (raising (is_multi_cluster_network_installed K)) (\<lambda>installed.
     bindP (getP (\<lambda>s. stored_bundles s (p2m_name m))) (\<lambda>old.
     bindP (raising (liftP (get_network_connections old))) (\<lambda>old_connections.
     bindP (if length old_connections \<noteq> 0 \<and> installed
            then raising (delete_network_links L K old_connections) else retP ()) (\<lambda>_.
     bindP (raising (liftP (get_network_connections bundles))) (\<lambda>connections.
     if length connections \<noteq> 0
     then if \<not> installed
       then report L K m (true_condition unreliably_scheduled ''MultiClusterNetworkResourceMissing''
              unreliable_message) (get_scheduling_decisions bundles)
       else raising (register_network_links L K connections)
     else retP ())))))"

section \<open>The last status\<close>

definition orphaned_message :: string where
  "orphaned_message = ''All workloads have been successfully scheduled however orphaned manifests have been found, ensure all ancillary resources (services, configmaps, secrets, etc) are referenced by a workload resource''"

definition undefined_resources_message :: string where
  "undefined_resources_message = ''All workloads have been successfully scheduled however some workloads referenced resources that could not be found : ''"

definition absent_resources_warning :: "'r bundle_list \<Rightarrow> string" where
  "absent_resources_warning bundles =
     concat (map (\<lambda>b. concat (map (\<lambda>r.
       ''Workload '' @ bundle_name b @ '' is missing a '' @ to_lower (bri_kind r)
         @ '' with the name '' @ bri_name r @ ''.'') (absent_resources b))) bundles)"

definition final_condition :: "'r p2m \<Rightarrow> 'r bundle_list \<Rightarrow> nat \<Rightarrow> condition" where
  "final_condition m bundles placed =
     (if placed < length (manifests (p2m_spec m))
      then true_condition tentatively_scheduled ''OrphanedManifest'' orphaned_message
      else if absent_resources_warning bundles \<noteq> ''''
      then true_condition scheduling_successful ''UndefinedResources''
        (undefined_resources_message @ absent_resources_warning bundles)
      else true_condition scheduling_successful scheduling_successful
        ''All workloads have been successfully scheduled to a suitable cluster'')"

text \<open>Only the last branch stores the bundles.\<close>

definition complete ::
    "lib \<Rightarrow> ('r, 'w) client \<Rightarrow> 'r p2m \<Rightarrow> 'r bundle_list \<Rightarrow> nat \<Rightarrow> ('r, 'w, stop, ctrl_result) sysP" where
  "complete L K m bundles placed =
     (let decs = get_scheduling_decisions bundles
      in if placed < length (manifests (p2m_spec m)) \<or> absent_resources_warning bundles \<noteq> ''''
         then report L K m (final_condition m bundles placed) decs
         else bindP (raising (update_status L K m (final_condition m bundles placed) decs)) (\<lambda>m'.
           bindP (modifyP (\<lambda>s. s\<lparr>sys_bundles := (sys_bundles s)(p2m_name m' \<mapsto> bundles)\<rparr>)) (\<lambda>_.
             retP Done)))"

section \<open>The whole method\<close>

text \<open>The stages before any choice of a cluster; the result is the target.\<close>

definition validate_manifest ::
    "lib \<Rightarrow> ('r, 'w) client \<Rightarrow> 'r p2m \<Rightarrow> ('r, 'w, stop, string \<times> string) sysP" where
  "validate_manifest L K m =
     bindP (check_annotations L K m) (\<lambda>_.
     bindP (read_target L K m) (\<lambda>t.
     bindP (check_cluster_set L K m (fst t)) (\<lambda>_.
       retP t)))"

text \<open>The stages after it.\<close>

definition roll_out ::
    "lib \<Rightarrow> ('r, 'w) client \<Rightarrow> 'r p2m \<Rightarrow> 'r bundle_list \<Rightarrow> ('r, 'w, stop, ctrl_result) sysP" where
  "roll_out L K m bundles =
     bindP (clean_up_old_bundles K (p2m_name m) bundles) (\<lambda>_.
     bindP (getP sys_owner) (\<lambda>owner.
     bindP (apply_bundles K owner bundles) (\<lambda>placed.
     bindP (check_works L K owner m bundles) (\<lambda>_.
     bindP (connect_bundles L K m bundles) (\<lambda>_.
       complete L K m bundles placed)))))"

definition schedule ::
    "'r codec \<Rightarrow> lib \<Rightarrow> ('r, 'w) client \<Rightarrow> 'r p2m \<Rightarrow> ('r, 'w, stop, ctrl_result) sysP" where
  "schedule C L K m =
     bindP (validate_manifest L K m) (\<lambda>(set_name, cluster).
     bindP (choose_clusters C L K m set_name cluster) (\<lambda>(m', bundles).
       roll_out L K m' bundles))"

definition reconcile_steps ::
    "'r codec \<Rightarrow> lib \<Rightarrow> ('r, 'w) client \<Rightarrow> namespaced_name \<Rightarrow> ('r, 'w, stop, ctrl_result) sysP" where
  "reconcile_steps C L K req =
     bindP (start_reconcile L K req) (\<lambda>m.
     bindP (check_namespace L K req m) (\<lambda>_.
     bindP (ensure_finalizer L K req m) (\<lambda>m.
     bindP (handle_deletion L K m) (\<lambda>_.
       schedule C L K m))))"

definition reconcile ::
    "'r codec \<Rightarrow> lib \<Rightarrow> ('r, 'w) client \<Rightarrow> namespaced_name \<Rightarrow> ('r, 'w, go_error, ctrl_result) sysP" where
  "reconcile C L K req =
     handleP (reconcile_steps C L K req) (\<lambda>e.
       case e of Return r \<Rightarrow> retP r | Raise e \<Rightarrow> failP e)"

end
