(* ===== verification/P2_Reconcile_Spec.thy ===== *)
theory P2_Reconcile_Spec
  imports P2_Reconcile
begin

text \<open>
  What a run of \<open>Reconcile\<close> sends to the API server, in which order, and what it keeps of
  the stored bundles, for every behaviour of the server. Each stage is shown to keep to a
  policy of \<^verbatim>\<open>P2_Cluster\<close> (\<open>emits\<close>, or \<open>sends\<close> where the stage also changes the
  stored bundles); the ordering properties follow by composing the stages.
\<close>

section \<open>Stages and policies\<close>

lemma emits_raising [emits_intros]: "emits P m \<Longrightarrow> emits P (raising m)"
  unfolding raising_def by (intro emits_intros)

lemma emits_stop [emits_intros]: "emits P (stop_with r)"
  unfolding stop_with_def by (rule emits_fail)

context read_policy
begin

lemma emits_check_works_list: "emits allowed (raising (get_owned_manifest_work_list L K owner))"
  by (intro emits_intros emits_owned)

end

context status_policy
begin

lemma emits_report: "emits allowed (report L K m c ds)"
  unfolding report_def by (intro emits_intros emits_update_status)

lemma emits_namespace: "emits allowed (check_namespace L K req m)"
  unfolding check_namespace_def by (intro emits_intros emits_report)

lemma emits_validate: "emits allowed (validate_manifest L K m)"
  unfolding validate_manifest_def check_annotations_def read_target_def check_cluster_set_def
  by (intro emits_intros emits_report emits_does_exist emits_empty emits_bound)

lemma emits_or_misconfigured: "emits allowed (or_misconfigured L K m r)"
  unfolding or_misconfigured_def by (intro emits_intros emits_report)

lemma emits_target: "emits allowed (target_cluster_bundles C L K m n c bl)"
  unfolding target_cluster_bundles_def
  by (intro emits_intros emits_in_set emits_report emits_or_misconfigured)

lemma emits_announce: "emits allowed (announce_placement L K m bl)"
  unfolding announce_placement_def by (intro emits_intros emits_update_status)

lemma emits_check_works: "emits allowed (check_works L K owner m bl)"
  unfolding check_works_def check_work_def
  by (intro emits_intros emits_owned emits_report)

end

context cleaning_policy
begin

lemma emits_connect: "emits allowed (connect_bundles L K m bl)"
  unfolding connect_bundles_def
  by (intro emits_intros emits_installed emits_delete_links emits_register emits_report)

lemma emits_remove_links: "emits allowed (remove_stored_links L K n)"
  unfolding remove_stored_links_def by (intro emits_intros emits_delete_links)

end

context scheduling_policy
begin

lemma emits_place: "emits allowed (place_bundle L K m b)"
  unfolding place_bundle_def
  by (intro emits_intros emits_associated emits_selected emits_failed_condition emits_report)

lemma emits_place_bundles: "emits allowed (place_bundles L K m bl)"
  unfolding place_bundles_def by (intro emits_intros emits_place)

lemma emits_choose: "emits allowed (choose_clusters C L K m n c)"
  unfolding choose_clusters_def placed_workload_bundles_def
  by (intro emits_intros emits_target emits_or_misconfigured emits_place_bundles emits_announce)

lemma emits_clean_up: "emits allowed (clean_up_old_bundles K n bl)"
  unfolding clean_up_old_bundles_def clean_up_bundle_def Let_def
  by (intro emits_intros emits_delete_placement emits_delete_work)

end

section \<open>Stages that change the stored bundles\<close>

definition sends :: "('r call \<Rightarrow> bool) \<Rightarrow> ('r, 'w, 'e, 'a) sysP \<Rightarrow> bool" where
  "sends P m \<longleftrightarrow> (\<forall>s. \<exists>tr. sys_trace (snd (m s)) = sys_trace s @ tr \<and> list_all (\<lambda>e. P (fst e)) tr)"

lemma sends_emits: "emits P m \<Longrightarrow> sends P m"
  by (simp add: emits_def sends_def)

lemma sendsD:
  "sends P m \<Longrightarrow> m s = (r, s') \<Longrightarrow> \<exists>tr. sys_trace s' = sys_trace s @ tr \<and> list_all (\<lambda>e. P (fst e)) tr"
  unfolding sends_def by (metis snd_conv)

lemma sends_bind:
  assumes "sends P m" and "\<And>x. sends P (f x)"
  shows "sends P (bindP m f)"
  unfolding sends_def
proof
  fix s
  obtain q t where q: "m s = (q, t)" by fastforce
  from sendsD [OF assms(1) q] obtain tr where
    tr: "sys_trace t = sys_trace s @ tr" "list_all (\<lambda>e. P (fst e)) tr" by blast
  show "\<exists>tr. sys_trace (snd (bindP m f s)) = sys_trace s @ tr \<and> list_all (\<lambda>e. P (fst e)) tr"
  proof (cases q)
    case (Ok x)
    obtain r s' where run: "f x t = (r, s')" by fastforce
    from sendsD [OF assms(2) this] tr show ?thesis
      by (auto simp: bindP_def q Ok run)
  qed (use q tr in \<open>auto simp: bindP_def\<close>)
qed

lemma sends_handle_return:
  assumes "sends P m"
  shows "sends P (handleP m (\<lambda>e. case e of Return r \<Rightarrow> retP r | Raise e \<Rightarrow> failP e))"
  unfolding sends_def
proof
  fix s
  obtain q t where q: "m s = (q, t)" by fastforce
  from sendsD [OF assms q]
  show "\<exists>tr. sys_trace (snd (handleP m (\<lambda>e. case e of Return r \<Rightarrow> retP r | Raise e \<Rightarrow> failP e) s)) =
      sys_trace s @ tr \<and> list_all (\<lambda>e. P (fst e)) tr"
    by (auto simp: handleP_def q retP_def failP_def split: go.splits stop.splits)
qed

lemma sends_modify: "(\<And>s. sys_trace (f s) = sys_trace s) \<Longrightarrow> sends P (modifyP f)"
  by (simp add: sends_def modifyP_def)

lemma sends_if: "(b \<Longrightarrow> sends P m) \<Longrightarrow> (\<not> b \<Longrightarrow> sends P n) \<Longrightarrow> sends P (if b then m else n)"
  by simp

lemma sends_mono: "sends P m \<Longrightarrow> (\<And>c. P c \<Longrightarrow> Q c) \<Longrightarrow> sends Q m"
  unfolding sends_def by (metis (mono_tags, lifting) list.pred_mono_strong)

lemma sends_case_option:
  "(x = None \<Longrightarrow> sends P m) \<Longrightarrow> (\<And>y. x = Some y \<Longrightarrow> sends P (f y)) \<Longrightarrow>
     sends P (case x of None \<Rightarrow> m | Some y \<Rightarrow> f y)"
  by (cases x) auto

context status_policy
begin

text \<open>The first stage sets the owner label.\<close>

lemma sends_start: "sends allowed (start_reconcile L K req)"
proof -
  have read: "sends allowed (attemptP (invoke (GetManifest req) (cl_get_manifest K req)))"
    by (intro sends_emits emits_intros reads_allowed) simp
  have set: "sends allowed (bindP (raising (liftP (truncate_name_if_needed L (p2m_name m)))) (\<lambda>owner.
      bindP (modifyP (\<lambda>s. s\<lparr>sys_owner := owner\<rparr>)) (\<lambda>_.
      case get_in_progress_state m of None \<Rightarrow> retP m | Some c \<Rightarrow> raising (update_status L K m c []))))" for m
    by (intro sends_bind sends_modify sends_case_option sends_emits emits_intros emits_update_status) simp
  show ?thesis
    unfolding start_reconcile_def
    by (rule sends_bind [OF read])
       (auto split: sum.splits go_error.splits api_error.splits intro: set sends_emits emits_stop emits_fail)
qed

lemma sends_complete: "sends allowed (complete L K m bl n)"
  unfolding complete_def Let_def
  by (intro sends_if sends_bind sends_modify sends_emits emits_intros emits_report emits_update_status) simp_all

end

context manifest_policy
begin

lemma emits_ensure_finalizer: "emits allowed (ensure_finalizer L K req m)"
  unfolding ensure_finalizer_def Let_def
  by (intro emits_intros reads_allowed manifest_allowed) simp

lemma emits_release: "emits allowed (release L K m)"
  unfolding release_def Let_def
  by (intro emits_intros emits_update_status manifest_allowed)

lemma sends_finalize: "sends allowed (finalize L K m)"
  unfolding finalize_def
  by (intro sends_bind sends_modify sends_emits emits_intros emits_update_status emits_delete_owned
      emits_installed emits_remove_links emits_release) simp_all

lemma sends_deletion: "sends allowed (handle_deletion L K m)"
  unfolding handle_deletion_def
  by (intro sends_if sends_finalize sends_emits emits_intros)

end

end
