(* ===== verification/P2_Runs.thy ===== *)
theory P2_Runs
  imports P2_Reconcile_Spec
begin

text \<open>
  Specifications of procedures that speak of the requests of one execution: \<open>run_spec m Q\<close>
  says that every execution of \<open>m\<close> extends the trace, and that the state before, the
  result, the requests added and the state after satisfy \<open>Q\<close>. The rules compose them
  along the combinators; a policy (\<open>emits\<close>, \<open>sends\<close>) is one such specification.
\<close>

type_synonym 'r events = "('r call \<times> bool) list"

definition run_spec ::
    "('r, 'w, 'e, 'a) sysP
       \<Rightarrow> (('r, 'w) sys \<Rightarrow> ('e, 'a) go \<Rightarrow> 'r events \<Rightarrow> ('r, 'w) sys \<Rightarrow> bool) \<Rightarrow> bool" where
  "run_spec m Q \<longleftrightarrow>
     (\<forall>s r s'. m s = (r, s') \<longrightarrow> (\<exists>tr. sys_trace s' = sys_trace s @ tr \<and> Q s r tr s'))"

lemma run_specI:
  "(\<And>s r s'. m s = (r, s') \<Longrightarrow> \<exists>tr. sys_trace s' = sys_trace s @ tr \<and> Q s r tr s') \<Longrightarrow> run_spec m Q"
  by (simp add: run_spec_def)

lemma run_specD:
  "run_spec m Q \<Longrightarrow> m s = (r, s') \<Longrightarrow> \<exists>tr. sys_trace s' = sys_trace s @ tr \<and> Q s r tr s'"
  by (simp add: run_spec_def)

lemma run_spec_mono:
  assumes "run_spec m Q" and "\<And>s r tr s'. Q s r tr s' \<Longrightarrow> Q' s r tr s'"
  shows "run_spec m Q'"
proof (rule run_specI)
  fix s r s'
  assume "m s = (r, s')"
  from run_specD [OF assms(1) this] assms(2)
  show "\<exists>tr. sys_trace s' = sys_trace s @ tr \<and> Q' s r tr s'" by blast
qed

lemma run_spec_conj:
  assumes "run_spec m Q" and "run_spec m Q'"
  shows "run_spec m (\<lambda>s r tr s'. Q s r tr s' \<and> Q' s r tr s')"
proof (rule run_specI)
  fix s r s'
  assume run: "m s = (r, s')"
  from run_specD [OF assms(1) run] run_specD [OF assms(2) run]
  show "\<exists>tr. sys_trace s' = sys_trace s @ tr \<and> Q s r tr s' \<and> Q' s r tr s'" by fastforce
qed

lemma run_spec_emits:
  "emits P m \<Longrightarrow> run_spec m (\<lambda>s r tr s'. sys_bundles s' = sys_bundles s \<and>
     sys_owner s' = sys_owner s \<and> list_all (\<lambda>e. P (fst e)) tr)"
  by (rule run_specI) (blast dest: emitsD)

lemma run_spec_sends: "sends P m \<Longrightarrow> run_spec m (\<lambda>s r tr s'. list_all (\<lambda>e. P (fst e)) tr)"
  by (rule run_specI) (rule sendsD)

lemma run_spec_ret: "run_spec (retP x) (\<lambda>s r tr s'. r = Ok x \<and> tr = [] \<and> s' = s)"
  by (simp add: run_spec_def retP_def)

lemma run_spec_fail: "run_spec (failP e) (\<lambda>s r tr s'. r = Fail e \<and> tr = [] \<and> s' = s)"
  by (simp add: run_spec_def failP_def)

lemma run_spec_no_result:
  "run_spec (failP e) (\<lambda>s r tr s'. \<forall>x. r \<noteq> Ok x)"
  "run_spec (stop_with q) (\<lambda>s r tr s'. \<forall>x. r \<noteq> Ok x)"
  by (simp_all add: run_spec_def failP_def stop_with_def)

lemma run_spec_lift: "run_spec (liftP q) (\<lambda>s r tr s'. r = q \<and> tr = [] \<and> s' = s)"
  by (simp add: run_spec_def liftP_def)

lemma run_spec_get: "run_spec (getP f) (\<lambda>s r tr s'. r = Ok (f s) \<and> tr = [] \<and> s' = s)"
  by (simp add: run_spec_def getP_def)

lemma run_spec_modify:
  assumes "\<And>s. sys_trace (f s) = sys_trace s"
  shows "run_spec (modifyP f) (\<lambda>s r tr s'. r = Ok () \<and> tr = [] \<and> s' = f s)"
  using assms by (simp add: run_spec_def modifyP_def)

lemma run_spec_if: "(b \<Longrightarrow> run_spec m Q) \<Longrightarrow> (\<not> b \<Longrightarrow> run_spec n Q) \<Longrightarrow> run_spec (if b then m else n) Q"
  by simp

text \<open>A request: what the server answered, and the entry of the trace.\<close>

definition answered ::
    "'r call \<Rightarrow> ('w \<Rightarrow> (api_error + 'a) \<times> 'w) \<Rightarrow> ('r, 'w) sys \<Rightarrow> (go_error, 'a) go
       \<Rightarrow> 'r events \<Rightarrow> ('r, 'w) sys \<Rightarrow> bool" where
  "answered c f s r tr s' \<longleftrightarrow>
     sys_bundles s' = sys_bundles s \<and> sys_owner s' = sys_owner s \<and>
     ((\<exists>x. f (sys_world s) = (Inr x, sys_world s') \<and> r = Ok x \<and> tr = [(c, True)]) \<or>
      (\<exists>e. f (sys_world s) = (Inl e, sys_world s') \<and> r = Fail (Api e) \<and> tr = [(c, False)]))"

lemma run_spec_invoke: "run_spec (invoke c f) (answered c f)"
  by (rule run_specI) (auto simp: invoke_def answered_def split: prod.splits sum.splits)

lemma run_spec_bind:
  assumes m: "run_spec m Q1" and f: "\<And>x. run_spec (f x) (Q2 x)"
    and ok: "\<And>s x t1 s1 r t2 s'. Q1 s (Ok x) t1 s1 \<Longrightarrow> Q2 x s1 r t2 s' \<Longrightarrow> Q s r (t1 @ t2) s'"
    and fail: "\<And>s e t1 s'. Q1 s (Fail e) t1 s' \<Longrightarrow> Q s (Fail e) t1 s'"
    and panic: "\<And>s t1 s'. Q1 s Panic t1 s' \<Longrightarrow> Q s Panic t1 s'"
  shows "run_spec (bindP m f) Q"
proof (rule run_specI)
  fix s r s'
  assume run: "bindP m f s = (r, s')"
  obtain q s1 where q: "m s = (q, s1)" by fastforce
  from run_specD [OF m q] obtain t1 where t1: "sys_trace s1 = sys_trace s @ t1" "Q1 s q t1 s1" by blast
  show "\<exists>tr. sys_trace s' = sys_trace s @ tr \<and> Q s r tr s'"
  proof (cases q)
    case (Ok x)
    with run q have "f x s1 = (r, s')" by (simp add: bindP_def)
    from run_specD [OF f this] obtain t2 where "sys_trace s' = sys_trace s1 @ t2" "Q2 x s1 r t2 s'" by blast
    with t1 Ok ok show ?thesis by fastforce
  next
    case (Fail e)
    with run q have "r = Fail e" "s' = s1" by (auto simp: bindP_def)
    with t1 Fail fail show ?thesis by blast
  next
    case Panic
    with run q have "r = Panic" "s' = s1" by (auto simp: bindP_def)
    with t1 Panic panic show ?thesis by blast
  qed
qed

lemma run_spec_raising:
  assumes m: "run_spec m Q1"
    and ok: "\<And>s x tr s'. Q1 s (Ok x) tr s' \<Longrightarrow> Q s (Ok x) tr s'"
    and fail: "\<And>s e tr s'. Q1 s (Fail e) tr s' \<Longrightarrow> Q s (Fail (Raise e)) tr s'"
    and panic: "\<And>s tr s'. Q1 s Panic tr s' \<Longrightarrow> Q s Panic tr s'"
  shows "run_spec (raising m) Q"
proof (rule run_specI)
  fix s r s'
  assume run: "raising m s = (r, s')"
  obtain q s1 where q: "m s = (q, s1)" by fastforce
  from run_specD [OF m q] obtain tr where tr: "sys_trace s1 = sys_trace s @ tr" "Q1 s q tr s1" by blast
  show "\<exists>tr. sys_trace s' = sys_trace s @ tr \<and> Q s r tr s'"
    using run q tr ok fail panic
    by (cases q) (auto simp: raising_def handleP_def failP_def)
qed

text \<open>The end of the method: a \<open>stop\<close> becomes its result or its error.\<close>

definition outcome :: "(stop, ctrl_result) go \<Rightarrow> (go_error, ctrl_result) go" where
  "outcome r = (case r of Ok x \<Rightarrow> Ok x | Fail (Return x) \<Rightarrow> Ok x | Fail (Raise e) \<Rightarrow> Fail e | Panic \<Rightarrow> Panic)"

lemma run_spec_return:
  assumes "run_spec m Q1" and "\<And>s r tr s'. Q1 s r tr s' \<Longrightarrow> Q s (outcome r) tr s'"
  shows "run_spec (handleP m (\<lambda>e. case e of Return r \<Rightarrow> retP r | Raise e \<Rightarrow> failP e)) Q"
proof (rule run_specI)
  fix s r s'
  assume run: "handleP m (\<lambda>e. case e of Return r \<Rightarrow> retP r | Raise e \<Rightarrow> failP e) s = (r, s')"
  obtain q s1 where q: "m s = (q, s1)" by fastforce
  have "r = outcome q \<and> s' = s1"
    using run q by (auto simp: handleP_def outcome_def retP_def failP_def split: go.splits stop.splits)
  with run_specD [OF assms(1) q] assms(2)
  show "\<exists>tr. sys_trace s' = sys_trace s @ tr \<and> Q s r tr s'" by blast
qed

text \<open>What holds of the normal result alone.\<close>

definition ok_spec ::
    "('r, 'w, 'e, 'a) sysP \<Rightarrow> ('a \<Rightarrow> 'r events \<Rightarrow> bool) \<Rightarrow> bool" where
  "ok_spec m Q \<longleftrightarrow> run_spec m (\<lambda>s r tr s'. \<forall>x. r = Ok x \<longrightarrow> Q x tr)"

lemma ok_spec_bind:
  assumes "ok_spec m Q1" and "\<And>x. ok_spec (f x) (Q2 x)"
    and "\<And>x y t1 t2. Q1 x t1 \<Longrightarrow> Q2 x y t2 \<Longrightarrow> Q y (t1 @ t2)"
  shows "ok_spec (bindP m f) Q"
  unfolding ok_spec_def
  by (rule run_spec_bind [OF assms(1,2) [unfolded ok_spec_def]]) (use assms(3) in auto)

lemma ok_spec_raising: "ok_spec m Q \<Longrightarrow> ok_spec (raising m) Q"
  unfolding ok_spec_def by (erule run_spec_raising) auto

lemma run_spec_ok:
  assumes "emits P m" and "ok_spec m Q"
  shows "run_spec m (\<lambda>s r tr s'. sys_bundles s' = sys_bundles s \<and> sys_owner s' = sys_owner s \<and>
    list_all (\<lambda>e. P (fst e)) tr \<and> (\<forall>x. r = Ok x \<longrightarrow> Q x tr))"
  by (rule run_spec_mono [OF run_spec_conj [OF run_spec_emits [OF assms(1)] assms(2) [unfolded ok_spec_def]]])
     blast

lemma ok_spec_handle_fail:
  assumes "ok_spec m Q"
  shows "ok_spec (handleP m (\<lambda>e. failP (h e))) Q"
  unfolding ok_spec_def
proof (rule run_specI)
  fix s r s'
  assume run: "handleP m (\<lambda>e. failP (h e)) s = (r, s')"
  obtain q s1 where q: "m s = (q, s1)" by fastforce
  from run_specD [OF assms [unfolded ok_spec_def] q] run q
  show "\<exists>tr. sys_trace s' = sys_trace s @ tr \<and> (\<forall>x. r = Ok x \<longrightarrow> Q x tr)"
    by (cases q) (auto simp: handleP_def failP_def)
qed

lemma ok_spec_case_option:
  "(x = None \<Longrightarrow> ok_spec m Q) \<Longrightarrow> (\<And>y. x = Some y \<Longrightarrow> ok_spec (f y) Q) \<Longrightarrow>
     ok_spec (case x of None \<Rightarrow> m | Some y \<Rightarrow> f y) Q"
  by (cases x) auto

lemma ok_spec_if: "(b \<Longrightarrow> ok_spec m Q) \<Longrightarrow> (\<not> b \<Longrightarrow> ok_spec n Q) \<Longrightarrow> ok_spec (if b then m else n) Q"
  by simp

lemma ok_spec_mono: "ok_spec m Q \<Longrightarrow> (\<And>x tr. Q x tr \<Longrightarrow> Q' x tr) \<Longrightarrow> ok_spec m Q'"
  unfolding ok_spec_def by (erule run_spec_mono) blast

lemma ok_spec_ret: "Q x [] \<Longrightarrow> ok_spec (retP x) Q"
  unfolding ok_spec_def by (rule run_spec_mono [OF run_spec_ret]) auto

lemma ok_spec_stop: "ok_spec (stop_with r) Q"
  unfolding ok_spec_def stop_with_def by (rule run_spec_mono [OF run_spec_fail]) auto

lemma ok_spec_failP: "ok_spec (failP e) Q"
  unfolding ok_spec_def by (rule run_spec_mono [OF run_spec_fail]) auto

lemma ok_spec_lift: "(\<And>x. q = Ok x \<Longrightarrow> Q x []) \<Longrightarrow> ok_spec (liftP q) Q"
  unfolding ok_spec_def by (rule run_spec_mono [OF run_spec_lift]) auto

lemma ok_spec_emits: "emits P m \<Longrightarrow> ok_spec m (\<lambda>x tr. True)"
  unfolding ok_spec_def by (drule run_spec_emits) (erule run_spec_mono, simp)

lemma ok_spec_invoke:
  "(\<And>x w w'. f w = (Inr x, w') \<Longrightarrow> Q x [(c, True)]) \<Longrightarrow> ok_spec (invoke c f) Q"
  unfolding ok_spec_def by (rule run_spec_mono [OF run_spec_invoke]) (auto simp: answered_def)

lemma ok_spec_report: "ok_spec (report L K m c ds) Q"
  unfolding report_def
  by (rule ok_spec_bind [OF ok_spec_emits [OF emits_raising [OF reporting.emits_update_status]]
        ok_spec_stop [where Q = "\<lambda>_ _. False"]]) simp

end
