(* ===== verification/P2_Approach.thy ===== *)
theory P2_Approach
  imports P2_Runs
begin

text \<open>
  The stages of a run before the scheduling, taken together: which manifest a run
  schedules and under which owner label, as a chain of answers of the server that starts at
  the world the run starts in. Nothing in it is left open: the answers determine the
  manifest and the label.
\<close>

section \<open>The manifest of a run\<close>

text \<open>The answer to the status update that announces the run, where the code sends one.\<close>

definition announced ::
    "lib \<Rightarrow> ('r, 'w) client \<Rightarrow> 'r p2m \<Rightarrow> 'w \<Rightarrow> 'r p2m \<Rightarrow> 'w \<Rightarrow> bool" where
  "announced L K m1 w m w' \<longleftrightarrow>
     (case get_in_progress_state m1 of
        None \<Rightarrow> m = m1 \<and> w' = w
      | Some c \<Rightarrow> (\<exists>q w2.
          cl_get_manifest K \<lparr>nn_namespace = p2m_namespace m1, nn_name = p2m_name m1\<rparr> w = (Inr q, w2) \<and>
          cl_update_status K (with_status L c [] q) w2 = (Inr m, w')))"

text \<open>
  \<open>started L K req w m owner w'\<close>: the server answered the read of the requested manifest in
  the world \<open>w\<close>; \<open>owner\<close> is its truncated name; \<open>m\<close> is what the announcement left.
\<close>

definition started ::
    "lib \<Rightarrow> ('r, 'w) client \<Rightarrow> namespaced_name \<Rightarrow> 'w \<Rightarrow> 'r p2m \<Rightarrow> string \<Rightarrow> 'w \<Rightarrow> bool" where
  "started L K req w m owner w' \<longleftrightarrow>
     (\<exists>m1 w1. cl_get_manifest K req w = (Inr m1, w1) \<and>
        truncate_name_if_needed L (p2m_name m1) = Ok owner \<and> announced L K m1 w1 m w')"

text \<open>The manifest has the finalizer, or is the answer to the update that adds it.\<close>

definition finalizer_added ::
    "lib \<Rightarrow> ('r, 'w) client \<Rightarrow> namespaced_name \<Rightarrow> 'r p2m \<Rightarrow> 'w \<Rightarrow> 'r p2m \<Rightarrow> bool" where
  "finalizer_added L K req m0 w m \<longleftrightarrow>
     (if contains_finalizer L (p2m_finalizers m0) finalizer then m = m0
      else \<exists>q w1 fs w2. cl_get_manifest K req w = (Inr q, w1) \<and>
        add_finalizer L (p2m_finalizers q) finalizer = Some fs \<and>
        cl_update_manifest K (q\<lparr>p2m_finalizers := fs\<rparr>) w1 = (Inr m, w2))"

text \<open>
  The manifest a run that starts in the world \<open>w\<close> goes on to schedule, and its label: in
  the namespace of the scheduler, and not being deleted.
\<close>

definition scheduled_manifest ::
    "lib \<Rightarrow> ('r, 'w) client \<Rightarrow> namespaced_name \<Rightarrow> 'w \<Rightarrow> 'r p2m \<Rightarrow> string \<Rightarrow> bool" where
  "scheduled_manifest L K req w m owner \<longleftrightarrow>
     nn_namespace req = p2code_scheduler_namespace \<and> \<not> p2m_deleting m \<and>
     (\<exists>m0 w0. started L K req w m0 owner w0 \<and> finalizer_added L K req m0 w0 m)"

lemma scheduled_manifest_unique:
  assumes "scheduled_manifest L K req w m owner" and "scheduled_manifest L K req w m' owner'"
  shows "m = m' \<and> owner = owner'"
proof -
  have "m0 = m0' \<and> o1 = o2 \<and> w0 = w0'"
    if "started L K req w m0 o1 w0" "started L K req w m0' o2 w0'" for m0 m0' o1 o2 w0 w0'
    using that unfolding started_def announced_def by (auto split: option.splits)
  moreover have "q = q'" if "finalizer_added L K req m0 w0 q" "finalizer_added L K req m0 w0 q'" for m0 w0 q q'
    using that unfolding finalizer_added_def by (auto split: if_splits)
  ultimately show ?thesis using assms unfolding scheduled_manifest_def by blast
qed

section \<open>The stages before the scheduling\<close>

text \<open>What a run does before \<open>schedule\<close>; its result is the manifest to schedule.\<close>

definition approach ::
    "lib \<Rightarrow> ('r, 'w) client \<Rightarrow> namespaced_name \<Rightarrow> ('r, 'w, stop, 'r p2m) sysP" where
  "approach L K req =
     bindP (start_reconcile L K req) (\<lambda>m.
     bindP (check_namespace L K req m) (\<lambda>_.
     bindP (ensure_finalizer L K req m) (\<lambda>m.
     bindP (handle_deletion L K m) (\<lambda>_. retP m))))"

lemma bindP_assoc: "bindP (bindP m f) g = bindP m (\<lambda>x. bindP (f x) g)"
  by (rule ext) (simp add: bindP_def split: go.splits prod.splits)

lemma bindP_ret: "bindP (retP x) f = f x"
  by (simp add: bindP_def retP_def)

lemma reconcile_steps_eq: "reconcile_steps C L K req = bindP (approach L K req) (schedule C L K)"
  by (simp add: reconcile_steps_def approach_def bindP_assoc bindP_ret)

context manifest_policy
begin

lemma sends_approach: "sends allowed (approach L K req)"
  unfolding approach_def
  by (intro sends_bind sends_start sends_deletion sends_emits emits_namespace emits_ensure_finalizer emits_ret)

end

subsection \<open>The deletion goes on only when there is nothing to delete\<close>

lemma run_no_result_bind:
  assumes "sends P p" and "\<And>x. run_spec (f x) (\<lambda>s r tr s'. \<forall>y. r \<noteq> Ok y)"
  shows "run_spec (bindP p f) (\<lambda>s r tr s'. \<forall>y. r \<noteq> Ok y)"
  by (rule run_spec_bind [OF run_spec_sends [OF assms(1)] assms(2)]) auto

lemma run_release_no_result: "run_spec (release L K m) (\<lambda>s r tr s'. \<forall>y. r \<noteq> Ok y)"
  unfolding release_def Let_def
  by (rule run_no_result_bind [OF sends_emits [OF emits_raising [OF reporting.emits_update_status]]])
     (auto split: option.splits intro: run_spec_no_result
       intro!: run_no_result_bind [OF sends_emits [OF emits_raising [OF emits_invoke [of "\<lambda>_. True"]]]])

lemma run_finalize_no_result: "run_spec (finalize L K m) (\<lambda>s r tr s'. \<forall>y. r \<noteq> Ok y)"
  unfolding finalize_def
  by (rule run_no_result_bind [OF sends_emits [OF emits_raising [OF workless.emits_update_status]]],
      rule run_no_result_bind [OF sends_emits [OF emits_get [of no_work_write]]],
      rule run_no_result_bind [OF sends_emits [OF emits_raising [OF workless.emits_delete_owned]]],
      rule run_no_result_bind [OF sends_emits [OF emits_raising [OF workless.emits_installed]]],
      rule run_no_result_bind [OF sends_emits [OF emits_if [OF workless.emits_remove_links emits_ret]]],
      rule run_no_result_bind [OF sends_modify [where P = no_work_write]])
     (simp, rule run_release_no_result)

lemma run_deletion_result:
  "run_spec (handle_deletion L K m) (\<lambda>s r tr s'. \<forall>y. r = Ok y \<longrightarrow> \<not> p2m_deleting m \<and> s' = s)"
  unfolding handle_deletion_def
  by (intro run_spec_if run_spec_mono [OF run_finalize_no_result] run_spec_mono [OF run_spec_no_result(2)]
      run_spec_mono [OF run_spec_ret]) simp_all

subsection \<open>The result of the stages\<close>

text \<open>An update of the status that is answered: a read and the update, in this order.\<close>

lemma run_update_status:
  "run_spec (update_status L K m c ds) (\<lambda>s r tr s'. sys_owner s' = sys_owner s \<and> sys_bundles s' = sys_bundles s \<and>
     (\<forall>m'. r = Ok m' \<longrightarrow> (\<exists>q w. cl_get_manifest K \<lparr>nn_namespace = p2m_namespace m, nn_name = p2m_name m\<rparr>
        (sys_world s) = (Inr q, w) \<and> cl_update_status K (with_status L c ds q) w = (Inr m', sys_world s') \<and>
        tr = [(GetManifest \<lparr>nn_namespace = p2m_namespace m, nn_name = p2m_name m\<rparr>, True),
              (UpdateStatus (with_status L c ds q), True)])))"
  unfolding update_status_def Let_def
  by (rule run_spec_bind [OF run_spec_invoke run_spec_invoke]) (auto simp: answered_def)

lemma run_started:
  "run_spec (start_reconcile L K req) (\<lambda>s r tr s'.
     \<forall>m. r = Ok m \<longrightarrow> started L K req (sys_world s) m (sys_owner s') (sys_world s'))"
proof -
  let ?announce = "\<lambda>m1. case get_in_progress_state m1 of None \<Rightarrow> retP m1
     | Some c \<Rightarrow> raising (update_status L K m1 c [])"
  have announce: "run_spec (?announce m1) (\<lambda>s r tr s'. sys_owner s' = sys_owner s \<and>
      (\<forall>m. r = Ok m \<longrightarrow> announced L K m1 (sys_world s) m (sys_world s')))" for m1
  proof (cases "get_in_progress_state m1")
    case None
    then show ?thesis by (auto simp: announced_def intro: run_spec_mono [OF run_spec_ret])
  next
    case (Some c)
    have "run_spec (raising (update_status L K m1 c [])) (\<lambda>s r tr s'. sys_owner s' = sys_owner s \<and>
      (\<forall>m. r = Ok m \<longrightarrow> announced L K m1 (sys_world s) m (sys_world s')))"
      by (rule run_spec_raising [OF run_update_status]) (auto simp: announced_def Some)
    with Some show ?thesis by simp
  qed
  have label: "run_spec (bindP (modifyP (\<lambda>s. s\<lparr>sys_owner := owner\<rparr>)) (\<lambda>_. ?announce m1))
      (\<lambda>s r tr s'. sys_owner s' = owner \<and> (\<forall>m. r = Ok m \<longrightarrow> announced L K m1 (sys_world s) m (sys_world s')))" for owner m1
    by (rule run_spec_bind [OF run_spec_modify announce]) auto
  have named: "run_spec (bindP (raising (liftP (truncate_name_if_needed L (p2m_name m1)))) (\<lambda>owner.
      bindP (modifyP (\<lambda>s. s\<lparr>sys_owner := owner\<rparr>)) (\<lambda>_. ?announce m1)))
      (\<lambda>s r tr s'. \<forall>m. r = Ok m \<longrightarrow> truncate_name_if_needed L (p2m_name m1) = Ok (sys_owner s') \<and>
         announced L K m1 (sys_world s) m (sys_world s'))" for m1
    by (rule run_spec_bind [OF run_spec_raising [OF run_spec_lift,
          where Q = "\<lambda>s r tr s'. \<forall>x. r = Ok x \<longrightarrow> truncate_name_if_needed L (p2m_name m1) = Ok x \<and> s' = s"] label])
       auto
  have read: "run_spec (attemptP (invoke (GetManifest req) (cl_get_manifest K req)))
      (\<lambda>s r tr s'. \<forall>m. r = Ok (Inr m) \<longrightarrow> cl_get_manifest K req (sys_world s) = (Inr m, sys_world s'))"
    by (rule run_specI) (auto simp: attemptP_def invoke_def split: prod.splits sum.splits)
  show ?thesis
    unfolding start_reconcile_def
  proof (rule run_spec_bind [OF read, where ?Q2.0 = "\<lambda>q s r tr s'. \<forall>m. r = Ok m \<longrightarrow>
      (\<exists>m1. q = Inr m1 \<and> truncate_name_if_needed L (p2m_name m1) = Ok (sys_owner s') \<and>
         announced L K m1 (sys_world s) m (sys_world s'))"])
    fix q
    show "run_spec (case q of Inl (Api (NotFound t)) \<Rightarrow> stop_with Done | Inl e \<Rightarrow> failP (Raise e)
       | Inr m1 \<Rightarrow> bindP (raising (liftP (truncate_name_if_needed L (p2m_name m1)))) (\<lambda>owner.
         bindP (modifyP (\<lambda>s. s\<lparr>sys_owner := owner\<rparr>)) (\<lambda>_. ?announce m1)))
      (\<lambda>s r tr s'. \<forall>m. r = Ok m \<longrightarrow> (\<exists>m1. q = Inr m1 \<and> truncate_name_if_needed L (p2m_name m1) = Ok (sys_owner s') \<and>
         announced L K m1 (sys_world s) m (sys_world s')))"
      using named by (auto split: sum.splits go_error.splits api_error.splits intro: run_spec_no_result)
  qed (auto simp: started_def)
qed

lemma run_namespace_result:
  "run_spec (check_namespace L K req m) (\<lambda>s r tr s'.
     \<forall>y. r = Ok y \<longrightarrow> nn_namespace req = p2code_scheduler_namespace \<and> s' = s)"
proof -
  have no_result: "run_spec (report L K m c []) (\<lambda>s r tr s'. \<forall>y. r \<noteq> Ok y)" for c
    using ok_spec_report [where Q = "\<lambda>_ _. False"] unfolding ok_spec_def by (rule run_spec_mono) simp
  then show ?thesis
    unfolding check_namespace_def
    by (intro run_spec_if run_spec_mono [OF run_spec_ret] run_spec_mono [OF no_result]) simp_all
qed

lemma run_finalizer_result:
  "run_spec (ensure_finalizer L K req m0) (\<lambda>s r tr s'. sys_owner s' = sys_owner s \<and>
     (\<forall>m. r = Ok m \<longrightarrow> finalizer_added L K req m0 (sys_world s) m))"
proof (cases "contains_finalizer L (p2m_finalizers m0) finalizer")
  case True
  then show ?thesis
    by (auto simp: ensure_finalizer_def finalizer_added_def intro: run_spec_mono [OF run_spec_ret])
next
  case False
  let ?Q = "\<lambda>q s r tr s'. sys_owner s' = sys_owner s \<and> (\<forall>m. r = Ok m \<longrightarrow> (\<exists>fs w.
      add_finalizer L (p2m_finalizers q) finalizer = Some fs \<and>
      cl_update_manifest K (q\<lparr>p2m_finalizers := fs\<rparr>) (sys_world s) = (Inr m, w)))"
  have add: "run_spec (case add_finalizer L (p2m_finalizers q) finalizer of
          None \<Rightarrow> stop_with Requeue
        | Some fs \<Rightarrow> raising (invoke (UpdateManifest (q\<lparr>p2m_finalizers := fs\<rparr>))
            (cl_update_manifest K (q\<lparr>p2m_finalizers := fs\<rparr>)))) (?Q q)" for q
  proof (cases "add_finalizer L (p2m_finalizers q) finalizer")
    case None
    then show ?thesis by (auto simp: stop_with_def intro: run_spec_mono [OF run_spec_fail])
  next
    case (Some fs)
    show ?thesis
      unfolding Some option.case by (rule run_spec_raising [OF run_spec_invoke]) (auto simp: answered_def)
  qed
  have read: "run_spec (raising (invoke (GetManifest req) (cl_get_manifest K req))) (\<lambda>s r tr s'.
      sys_owner s' = sys_owner s \<and> (\<forall>q. r = Ok q \<longrightarrow> cl_get_manifest K req (sys_world s) = (Inr q, sys_world s')))"
    by (rule run_spec_raising [OF run_spec_invoke]) (auto simp: answered_def)
  show ?thesis
    unfolding ensure_finalizer_def Let_def if_not_P [OF False]
    by (rule run_spec_bind [OF read add]) (auto simp: finalizer_added_def False)
qed

lemma run_approach:
  "run_spec (approach L K req) (\<lambda>s r tr s'.
     \<forall>m. r = Ok m \<longrightarrow> scheduled_manifest L K req (sys_world s) m (sys_owner s'))"
proof -
  have 1: "run_spec (bindP (handle_deletion L K m) (\<lambda>_. retP m)) (\<lambda>s r tr s'.
      \<forall>x. r = Ok x \<longrightarrow> x = m \<and> \<not> p2m_deleting m \<and> s' = s)" for m
    by (rule run_spec_bind [OF run_deletion_result run_spec_ret]) auto
  have 2: "run_spec (bindP (ensure_finalizer L K req m0) (\<lambda>m. bindP (handle_deletion L K m) (\<lambda>_. retP m)))
      (\<lambda>s r tr s'. \<forall>m. r = Ok m \<longrightarrow> \<not> p2m_deleting m \<and> sys_owner s' = sys_owner s \<and>
         finalizer_added L K req m0 (sys_world s) m)" for m0
    by (rule run_spec_bind [OF run_finalizer_result 1]) auto
  have 3: "run_spec (bindP (check_namespace L K req m0) (\<lambda>_. bindP (ensure_finalizer L K req m0)
      (\<lambda>m. bindP (handle_deletion L K m) (\<lambda>_. retP m)))) (\<lambda>s r tr s'. \<forall>m. r = Ok m \<longrightarrow>
         nn_namespace req = p2code_scheduler_namespace \<and> \<not> p2m_deleting m \<and> sys_owner s' = sys_owner s \<and>
         finalizer_added L K req m0 (sys_world s) m)" for m0
    by (rule run_spec_bind [OF run_namespace_result 2]) auto
  show ?thesis
    unfolding approach_def
    by (rule run_spec_bind [OF run_started 3]) (auto simp: scheduled_manifest_def)
qed

text \<open>
  A run of \<open>Reconcile\<close>: from what its first stages send, and what the scheduling of its
  manifest does from the state they leave.
\<close>

lemma run_reconcile_by_stages:
  assumes "run_spec (approach L K req) A"
    and "\<And>m. run_spec (schedule C L K m) (B m)"
    and "\<And>s m t1 s1 r t2 s'. A s (Ok m) t1 s1 \<Longrightarrow> scheduled_manifest L K req (sys_world s) m (sys_owner s1) \<Longrightarrow>
       B m s1 r t2 s' \<Longrightarrow> Q s r (t1 @ t2) s'"
    and "\<And>s r t s'. A s r t s' \<Longrightarrow> (\<And>m. r \<noteq> Ok m) \<Longrightarrow> Q s (case r of Fail e \<Rightarrow> Fail e | _ \<Rightarrow> Panic) t s'"
  shows "run_spec (reconcile C L K req) (\<lambda>s r tr s'. \<exists>q. r = outcome q \<and> Q s q tr s')"
proof -
  have "run_spec (reconcile_steps C L K req) Q"
    unfolding reconcile_steps_eq
  proof (rule run_spec_bind [OF run_spec_conj [OF assms(1) run_approach] assms(2)])
    show "\<And>s e t1 s'. A s (Fail e) t1 s' \<and>
       (\<forall>m. Fail e = Ok m \<longrightarrow> scheduled_manifest L K req (sys_world s) m (sys_owner s')) \<Longrightarrow> Q s (Fail e) t1 s'"
      using assms(4) [of _ "Fail e" for e] by simp
    show "\<And>s t1 s'. A s Panic t1 s' \<and>
       (\<forall>m. Panic = Ok m \<longrightarrow> scheduled_manifest L K req (sys_world s) m (sys_owner s')) \<Longrightarrow> Q s Panic t1 s'"
      using assms(4) [of _ Panic] by simp
  qed (use assms(3) in auto)
  then show ?thesis
    unfolding reconcile_def by (rule run_spec_return) blast
qed

end
