(* ===== verification/P2_Ordering.thy ===== *)
theory P2_Ordering
  imports P2_Approach
begin

text \<open>
  The order of the requests of a run: ManifestWorks are written only after every bundle of
  the manifest has a cluster (all or nothing), and then one for each bundle, in order.
\<close>

section \<open>When a set of bundles may be rolled out\<close>

text \<open>
  \<open>assigned K tr b b'\<close>: \<open>b'\<close> is the bundle \<open>b\<close> on the cluster of a placement
  decision the run has read from the server.
\<close>

definition assigned ::
    "('r, 'w) client \<Rightarrow> 'r events \<Rightarrow> 'r workload_bundle \<Rightarrow> 'r workload_bundle \<Rightarrow> bool" where
  "assigned K tr b b' \<longleftrightarrow>
     (\<exists>n pd w w'. (GetDecision n, True) \<in> set tr \<and> cl_get_decision K n w = (Inr pd, w') \<and>
        pd_cluster_names pd \<noteq> [] \<and> b' = set_cluster (hd (pd_cluster_names pd)) b)"

text \<open>
  The placement of a bundle, as the server answered: the one read under the name of the
  bundle, or the one created with that name, the target cluster set and the rules of the
  bundle.
\<close>

definition placement_of_bundle ::
    "lib \<Rightarrow> ('r, 'w) client \<Rightarrow> 'r events \<Rightarrow> 'r p2m \<Rightarrow> 'r workload_bundle \<Rightarrow> placement \<Rightarrow> bool" where
  "placement_of_bundle L K tr m b p \<longleftrightarrow>
     (let d = scheduling_details b; key = scheduler_key (resource_name d)
      in (\<exists>w w'. (GetPlacement key, True) \<in> set tr \<and> cl_get_placement K key w = (Inr p, w')) \<or>
         (\<exists>n c q w w'. extract_target (global_annotations (p2m_spec m)) = Ok (n, c) \<and>
            set_controller_reference L (p2m_name m) (new_placement (resource_name d) n (placement_requests d)) = Inr q \<and>
            (CreatePlacement q, True) \<in> set tr \<and> cl_create_placement K q w = (Inr p, w')))"

text \<open>The cluster of the first decision of a placement, which the run has read.\<close>

definition decision_read :: "('r, 'w) client \<Rightarrow> 'r events \<Rightarrow> placement \<Rightarrow> string \<Rightarrow> bool" where
  "decision_read K tr p cluster \<longleftrightarrow>
     (\<exists>n ns gs pd w w'. pl_decision_groups p = (n # ns) # gs \<and> (GetDecision (scheduler_key n), True) \<in> set tr \<and>
        cl_get_decision K (scheduler_key n) w = (Inr pd, w') \<and>
        pd_cluster_names pd \<noteq> [] \<and> cluster = hd (pd_cluster_names pd))"

text \<open>\<open>b'\<close> is the bundle \<open>b\<close> on the cluster decided for its own, satisfied placement.\<close>

definition decided ::
    "lib \<Rightarrow> ('r, 'w) client \<Rightarrow> 'r events \<Rightarrow> 'r p2m \<Rightarrow> 'r workload_bundle \<Rightarrow> 'r workload_bundle \<Rightarrow> bool" where
  "decided L K tr m b b' \<longleftrightarrow>
     (\<exists>p c cluster. placement_of_bundle L K tr m b p \<and>
        find_status_condition L (pl_conditions p) ''PlacementSatisfied'' = Some c \<and> cond_status c = CondTrue \<and>
        decision_read K tr p cluster \<and> b' = set_cluster cluster b)"

definition placed_by_decision ::
    "'r codec \<Rightarrow> lib \<Rightarrow> ('r, 'w) client \<Rightarrow> 'r events \<Rightarrow> 'r p2m \<Rightarrow> 'r bundle_list \<Rightarrow> bool" where
  "placed_by_decision C L K tr m bl \<longleftrightarrow>
     (\<exists>built p. build_and_update_bundles C L [] m = Ok built \<and> list_all2 (decided L K tr m) built bl \<and>
        (UpdateStatus p, True) \<in> set tr \<and> decisions (p2m_status p) = get_scheduling_decisions bl)"

definition placed_by_target ::
    "'r codec \<Rightarrow> lib \<Rightarrow> 'r p2m \<Rightarrow> string \<Rightarrow> 'r bundle_list \<Rightarrow> bool" where
  "placed_by_target C L m cluster bl \<longleftrightarrow>
     cluster \<noteq> '''' \<and>
     (\<exists>resources. bulk_convert_to_resource_set C L (manifests (p2m_spec m)) = Ok resources \<and>
        bundle_for_target L [] (p2m_name m) cluster resources = Ok bl)"

definition authorised ::
    "'r codec \<Rightarrow> lib \<Rightarrow> ('r, 'w) client \<Rightarrow> 'r events \<Rightarrow> 'r p2m \<Rightarrow> 'r bundle_list \<Rightarrow> bool" where
  "authorised C L K tr m bl \<longleftrightarrow>
     (\<exists>set_name cluster. extract_target (global_annotations (p2m_spec m)) = Ok (set_name, cluster) \<and>
        (placed_by_target C L m cluster bl \<or>
         cluster = '''' \<and> placed_by_decision C L K tr m bl))"

text \<open>The status update with the decisions of a list of bundles, and the manifest it is answered with.\<close>

definition decisions_told ::
    "('r, 'w) client \<Rightarrow> 'r events \<Rightarrow> 'r bundle_list \<Rightarrow> 'r p2m \<Rightarrow> bool" where
  "decisions_told K tr bl m' \<longleftrightarrow>
     (\<exists>p w w'. (UpdateStatus p, True) \<in> set tr \<and> decisions (p2m_status p) = get_scheduling_decisions bl \<and>
        cl_update_status K p w = (Inr m', w'))"

text \<open>The manifest whose bundles are rolled out: the answer to that update, if there is one.\<close>

definition rolled_manifest ::
    "('r, 'w) client \<Rightarrow> 'r events \<Rightarrow> 'r p2m \<Rightarrow> 'r bundle_list \<Rightarrow> 'r p2m \<Rightarrow> bool" where
  "rolled_manifest K tr m bl m' \<longleftrightarrow>
     (\<exists>n cluster. extract_target (global_annotations (p2m_spec m)) = Ok (n, cluster) \<and>
        (if cluster \<noteq> '''' then m' = m else decisions_told K tr bl m'))"

lemma placement_of_bundle_mono:
  "placement_of_bundle L K tr m b p \<Longrightarrow> set tr \<subseteq> set tr' \<Longrightarrow> placement_of_bundle L K tr' m b p"
  unfolding placement_of_bundle_def Let_def by blast

lemma decision_read_mono: "decision_read K tr p c \<Longrightarrow> set tr \<subseteq> set tr' \<Longrightarrow> decision_read K tr' p c"
  unfolding decision_read_def by blast

lemma decided_mono: "decided L K tr m b b' \<Longrightarrow> set tr \<subseteq> set tr' \<Longrightarrow> decided L K tr' m b b'"
  unfolding decided_def using placement_of_bundle_mono decision_read_mono by blast

lemma decided_all_mono:
  assumes "list_all2 (decided L K tr m) xs ys" and "set tr \<subseteq> set tr'"
  shows "list_all2 (decided L K tr' m) xs ys"
  by (rule list_all2_mono [OF assms(1)]) (rule decided_mono [OF _ assms(2)])

lemma decided_assigned: "decided L K tr m b b' \<Longrightarrow> assigned K tr b b'"
  unfolding decided_def decision_read_def assigned_def by blast

lemma placed_by_decision_mono:
  "placed_by_decision C L K tr m bl \<Longrightarrow> set tr \<subseteq> set tr' \<Longrightarrow> placed_by_decision C L K tr' m bl"
  unfolding placed_by_decision_def using decided_all_mono by blast

lemma authorised_mono: "authorised C L K tr m bl \<Longrightarrow> set tr \<subseteq> set tr' \<Longrightarrow> authorised C L K tr' m bl"
  unfolding authorised_def using placed_by_decision_mono by blast

lemma decisions_told_mono: "decisions_told K tr bl m' \<Longrightarrow> set tr \<subseteq> set tr' \<Longrightarrow> decisions_told K tr' bl m'"
  unfolding decisions_told_def by blast

lemma rolled_manifest_mono: "rolled_manifest K tr m bl m' \<Longrightarrow> set tr \<subseteq> set tr' \<Longrightarrow> rolled_manifest K tr' m bl m'"
  unfolding rolled_manifest_def using decisions_told_mono by meson

lemma ok_get_selected: "ok_spec (get_selected_cluster K p) (\<lambda>c tr. decision_read K tr p c)"
proof -
  let ?D = "\<lambda>n c tr. \<exists>pd w w'. tr = [(GetDecision (scheduler_key n), True)] \<and>
    cl_get_decision K (scheduler_key n) w = (Inr pd, w') \<and> pd_cluster_names pd \<noteq> [] \<and> c = hd (pd_cluster_names pd)"
  have one: "ok_spec (bindP (invoke (GetDecision (scheduler_key n)) (cl_get_decision K (scheduler_key n)))
      (\<lambda>pd. liftP (index_go (pd_cluster_names pd) 0))) (?D n)" for n
  proof (rule ok_spec_bind [where ?Q1.0 = "\<lambda>pd tr. tr = [(GetDecision (scheduler_key n), True)] \<and>
      (\<exists>w w'. cl_get_decision K (scheduler_key n) w = (Inr pd, w'))"])
    show "ok_spec (liftP (index_go (pd_cluster_names pd) 0))
        (\<lambda>c tr. tr = [] \<and> pd_cluster_names pd \<noteq> [] \<and> c = hd (pd_cluster_names pd))" for pd
      by (rule ok_spec_lift) (auto simp: index_go_def hd_conv_nth split: if_splits)
  qed (auto intro!: ok_spec_invoke)
  have head: "ok_spec (liftP (index_go xs 0)) (\<lambda>x tr. tr = [] \<and> (\<exists>ys. xs = x # ys))" for xs :: "'x list"
    by (rule ok_spec_lift) (cases xs; auto simp: index_go_def split: if_splits)
  have two: "ok_spec (bindP (liftP (index_go g 0)) (\<lambda>n.
      bindP (invoke (GetDecision (scheduler_key n)) (cl_get_decision K (scheduler_key n)))
        (\<lambda>pd. liftP (index_go (pd_cluster_names pd) 0)))) (\<lambda>c tr. \<exists>n ns. g = n # ns \<and> ?D n c tr)" for g
    by (rule ok_spec_bind [OF ok_spec_lift one, where ?Q1.0 = "\<lambda>n tr. tr = [] \<and> (\<exists>ns. g = n # ns)"])
       (cases g; auto simp: index_go_def split: if_splits)+
  show ?thesis
    unfolding get_selected_cluster_def
    by (rule ok_spec_bind [OF ok_spec_lift two, where ?Q1.0 = "\<lambda>g tr. tr = [] \<and> (\<exists>gs. pl_decision_groups p = g # gs)"])
       (cases "pl_decision_groups p"; auto simp: index_go_def decision_read_def split: if_splits)+
qed

lemma ok_associated:
  "ok_spec (get_associated_placement L K b m) (\<lambda>p tr. placement_of_bundle L K tr m b p)"
proof -
  let ?d = "scheduling_details b" and ?key = "scheduler_key (resource_name (scheduling_details b))"
  let ?update = "\<lambda>q. bindP (invoke (UpdatePlacement q) (cl_update_placement K q)) (\<lambda>_.
       invoke (GetPlacement ?key) (cl_get_placement K ?key))"
  have read: "ok_spec (invoke (GetPlacement ?key) (cl_get_placement K ?key)) (\<lambda>p tr. placement_of_bundle L K tr m b p)"
    by (rule ok_spec_invoke) (auto simp: placement_of_bundle_def Let_def)
  have update: "ok_spec (?update q) (\<lambda>p tr. placement_of_bundle L K tr m b p)" for q
    by (rule ok_spec_bind [OF ok_spec_invoke [where Q = "\<lambda>_ _. True"] read])
       (auto elim: placement_of_bundle_mono)
  have create: "ok_spec (bindP (liftP (extract_target (global_annotations (p2m_spec m)))) (\<lambda>(cs, _).
      create_placement L K (resource_name ?d) cs (placement_requests ?d) m)) (\<lambda>p tr. placement_of_bundle L K tr m b p)"
  proof (rule ok_spec_bind [OF ok_spec_lift [where Q = "\<lambda>t tr. extract_target (global_annotations (p2m_spec m)) = Ok t \<and> tr = []"]])
    show "ok_spec (case t of (cs, _) \<Rightarrow> create_placement L K (resource_name ?d) cs (placement_requests ?d) m)
        (\<lambda>p tr. extract_target (global_annotations (p2m_spec m)) = Ok t \<longrightarrow> placement_of_bundle L K tr m b p)" for t
    proof (cases t)
      case (Pair cs c)
      have "ok_spec (create_placement L K (resource_name ?d) cs (placement_requests ?d) m)
        (\<lambda>p tr. extract_target (global_annotations (p2m_spec m)) = Ok (cs, c) \<longrightarrow> placement_of_bundle L K tr m b p)"
        unfolding create_placement_def
      proof (cases "set_controller_reference L (p2m_name m) (new_placement (resource_name ?d) cs (placement_requests ?d))")
        case (Inr q)
        have "ok_spec (invoke (CreatePlacement q) (cl_create_placement K q))
          (\<lambda>p tr. extract_target (global_annotations (p2m_spec m)) = Ok (cs, c) \<longrightarrow> placement_of_bundle L K tr m b p)"
          by (rule ok_spec_invoke) (use Inr in \<open>auto simp: placement_of_bundle_def Let_def\<close>)
        with Inr show "ok_spec (case set_controller_reference L (p2m_name m)
            (new_placement (resource_name ?d) cs (placement_requests ?d)) of
            Inl e \<Rightarrow> failP (Wrapped ''failed to set controller reference for placement: '' (PlainError e))
          | Inr p \<Rightarrow> handleP (invoke (CreatePlacement p) (cl_create_placement K p))
              (\<lambda>e. failP (Wrapped ''failed to create Placement: '' e)))
          (\<lambda>p tr. extract_target (global_annotations (p2m_spec m)) = Ok (cs, c) \<longrightarrow> placement_of_bundle L K tr m b p)"
          by (simp add: ok_spec_handle_fail)
      qed (simp add: ok_spec_failP)
      with Pair show ?thesis by simp
    qed
  qed auto
  have cont: "ok_spec (case q of
        Inl (Api (NotFound t)) \<Rightarrow> bindP (liftP (extract_target (global_annotations (p2m_spec m)))) (\<lambda>(cs, _).
          create_placement L K (resource_name ?d) cs (placement_requests ?d) m)
      | Inl _ \<Rightarrow> ?update (u zero_placement)
      | Inr p \<Rightarrow> ?update (u p)) (\<lambda>p tr. placement_of_bundle L K tr m b p)" for q and u :: "placement \<Rightarrow> placement"
    using create update by (auto split: sum.splits go_error.splits api_error.splits)
  show ?thesis
    unfolding get_associated_placement_def Let_def
    by (rule ok_spec_bind [OF ok_spec_emits [OF emits_attempt [OF workless.emits_read]] cont])
       (auto elim: placement_of_bundle_mono)
qed

lemma ok_or_misconfigured: "ok_spec (or_misconfigured L K m r) (\<lambda>x tr. r = Ok x)"
proof (cases r)
  case (Ok x)
  then show ?thesis by (simp add: or_misconfigured_def ok_spec_ret)
next
  case (Fail e)
  have "ok_spec (bindP (raising (liftP (sentence_case (error_text e)))) (\<lambda>text.
      report L K m (true_condition misconfigured ''MisconfiguredManifest'' text) [])) (\<lambda>x tr. r = Ok x)"
    by (rule ok_spec_bind [OF ok_spec_raising [OF ok_spec_lift [where Q = "\<lambda>_ _. True"]]
          ok_spec_report [where Q = "\<lambda>_ _. False"]]) simp_all
  with Fail show ?thesis by (simp add: or_misconfigured_def ok_spec_failP)
next
  case Panic
  have "ok_spec (liftP Panic) (\<lambda>x tr. r = Ok x)" by (rule ok_spec_lift) simp
  with Panic show ?thesis by (simp add: or_misconfigured_def)
qed

lemma ok_place_bundle: "ok_spec (place_bundle L K m b) (\<lambda>b' tr. decided L K tr m b b')"
  unfolding place_bundle_def
proof (rule ok_spec_bind [OF ok_spec_raising [OF ok_associated]])
  fix p
  let ?Q = "\<lambda>b' tr. \<exists>c cluster. find_status_condition L (pl_conditions p) ''PlacementSatisfied'' = Some c \<and>
      cond_status c = CondTrue \<and> decision_read K tr p cluster \<and> b' = set_cluster cluster b"
  have selected: "ok_spec (bindP (handleP (get_selected_cluster K p) (\<lambda>e. failP (h e))) (\<lambda>cluster.
       retP (set_cluster cluster b))) (\<lambda>b' tr. \<exists>cluster. decision_read K tr p cluster \<and> b' = set_cluster cluster b)" for h
    by (rule ok_spec_bind [OF ok_spec_handle_fail [OF ok_get_selected] ok_spec_ret
          [where Q = "\<lambda>b' tr. b' = set_cluster x b \<and> tr = []" and x = "set_cluster x b" for x]]) auto
  have failed: "ok_spec (bindP (raising (liftP (index_go (pl_cluster_sets p) 0))) (\<lambda>set_name.
       bindP (raising (extract_failed_condition K c set_name)) (\<lambda>c'. report L K m c' []))) ?Q" for c
    by (rule ok_spec_bind [OF ok_spec_raising [OF ok_spec_lift [where Q = "\<lambda>_ _. True"]]
          ok_spec_bind [OF ok_spec_emits [OF emits_raising [OF reporting.emits_failed_condition]]
          ok_spec_report [where Q = "\<lambda>_ _. False"], where Q = "\<lambda>_ _. False"]]) simp_all
  show "ok_spec (if length (pl_conditions p) < 1 then stop_with (RequeueAfter requeue_delay)
     else case find_status_condition L (pl_conditions p) ''PlacementSatisfied'' of
       None \<Rightarrow> stop_with (RequeueAfter requeue_delay)
     | Some c \<Rightarrow>
       if cond_status c = CondTrue
       then bindP (handleP (get_selected_cluster K p) (\<lambda>e. failP (Raise (PlainError
           (''unable to read placement decision for '' @ pl_name p @ '' placement''))))) (\<lambda>cluster.
         retP (set_cluster cluster b))
       else bindP (raising (liftP (index_go (pl_cluster_sets p) 0))) (\<lambda>set_name.
         bindP (raising (extract_failed_condition K c set_name)) (\<lambda>c'. report L K m c' []))) ?Q"
    by (intro ok_spec_if ok_spec_case_option ok_spec_stop failed ok_spec_mono [OF selected]) auto
next
  fix p b' t1 t2
  assume "placement_of_bundle L K t1 m b p"
    and "\<exists>c cluster. find_status_condition L (pl_conditions p) ''PlacementSatisfied'' = Some c \<and>
      cond_status c = CondTrue \<and> decision_read K t2 p cluster \<and> b' = set_cluster cluster b"
  then show "decided L K (t1 @ t2) m b b'"
    unfolding decided_def
    using placement_of_bundle_mono [of L K t1 m b p "t1 @ t2"] decision_read_mono [of K t2 p _ "t1 @ t2"] by auto
qed

lemma ok_place_bundles:
  "ok_spec (place_bundles L K m bl) (\<lambda>bl' tr. list_all2 (decided L K tr m) bl bl')"
proof -
  have "ok_spec (loopP (\<lambda>b placed. bindP (place_bundle L K m b) (\<lambda>b'. retP (placed @ [b']))) bl acc)
    (\<lambda>r tr. \<exists>bl'. r = acc @ bl' \<and> list_all2 (decided L K tr m) bl bl')" for acc
  proof (induction bl arbitrary: acc)
    case Nil
    show ?case by (simp add: ok_spec_ret)
  next
    case (Cons b bl)
    have step: "ok_spec (bindP (place_bundle L K m b) (\<lambda>b'. retP (acc @ [b'])))
        (\<lambda>r tr. \<exists>b'. r = acc @ [b'] \<and> decided L K tr m b b')"
      by (rule ok_spec_bind [OF ok_place_bundle ok_spec_ret
            [where Q = "\<lambda>r tr. r = acc @ [x] \<and> tr = []" and x = "acc @ [x]" for x]]) auto
    show ?case
      unfolding loopP.simps
    proof (rule ok_spec_bind [OF step Cons.IH])
      fix x y t1 t2
      assume "\<exists>b'. x = acc @ [b'] \<and> decided L K t1 m b b'"
        and "\<exists>bl'. y = x @ bl' \<and> list_all2 (decided L K t2 m) bl bl'"
      then obtain b' bl' where bs: "x = acc @ [b']" "decided L K t1 m b b'" "y = x @ bl'"
        "list_all2 (decided L K t2 m) bl bl'" by blast
      have "decided L K (t1 @ t2) m b b'" by (rule decided_mono [OF bs(2)]) simp
      moreover have "list_all2 (decided L K (t1 @ t2) m) bl bl'" by (rule decided_all_mono [OF bs(4)]) simp
      ultimately show "\<exists>bl'. y = acc @ bl' \<and> list_all2 (decided L K (t1 @ t2) m) (b # bl) bl'"
        using bs(1,3) by (intro exI [of _ "b' # bl'"]) simp
    qed
  qed
  from this [of "[]"] show ?thesis by (simp add: place_bundles_def)
qed

lemma decisions_with_status: "decisions (p2m_status (with_status L c ds m)) = ds"
  by (simp add: with_status_def)

lemma ok_announce: "ok_spec (announce_placement L K m bl) (\<lambda>m' tr. decisions_told K tr bl m')"
proof -
  have told: "decisions_told K tr bl m'"
    if "cl_update_status K (with_status L c (get_scheduling_decisions bl) q) w = (Inr m', w')"
      and "(UpdateStatus (with_status L c (get_scheduling_decisions bl) q), True) \<in> set tr" for tr m' c q w w'
    unfolding decisions_told_def using that decisions_with_status by blast
  have "run_spec (raising (update_status L K m c (get_scheduling_decisions bl)))
      (\<lambda>s r tr s'. \<forall>m'. r = Ok m' \<longrightarrow> decisions_told K tr bl m')" for c
    by (rule run_spec_raising [OF run_update_status]) (auto intro: told)
  then show ?thesis by (simp add: announce_placement_def ok_spec_def)
qed

lemma ok_target_bundles:
  assumes "c \<noteq> ''''"
  shows "ok_spec (target_cluster_bundles C L K m n c []) (\<lambda>bl tr. placed_by_target C L m c bl)"
  unfolding target_cluster_bundles_def
proof (rule ok_spec_bind [OF ok_spec_emits [OF emits_raising [OF reporting.emits_in_set]]],
    intro ok_spec_if ok_spec_report)
  show "ok_spec (bindP (or_misconfigured L K m (bulk_convert_to_resource_set C L (manifests (p2m_spec m)))) (\<lambda>resources.
     raising (liftP (bundle_for_target L [] (p2m_name m) c resources)))) (\<lambda>bl tr. placed_by_target C L m c bl)"
    by (rule ok_spec_bind [OF ok_or_misconfigured ok_spec_raising [OF ok_spec_lift
          [where Q = "\<lambda>bl tr. bundle_for_target L [] (p2m_name m) c x = Ok bl" and
             q = "bundle_for_target L [] (p2m_name m) c x" for x]]])
       (use assms in \<open>auto simp: placed_by_target_def\<close>)
qed

lemma ok_placed_bundles:
  fixes K :: "('r, 'w) client"
  shows "ok_spec (placed_workload_bundles C L K m [])
    (\<lambda>mb tr. placed_by_decision C L K tr m (snd mb) \<and> decisions_told K tr (snd mb) (fst mb))"
  unfolding placed_workload_bundles_def
proof (rule ok_spec_bind [OF ok_or_misconfigured])
  fix built
  let ?Q = "\<lambda>mb tr. list_all2 (decided L K tr m) built (snd mb) \<and> decisions_told K tr (snd mb) (fst mb)"
  have tell: "ok_spec (bindP (announce_placement L K m placed) (\<lambda>m'. retP (m', placed)))
      (\<lambda>mb tr. snd mb = placed \<and> decisions_told K tr placed (fst mb))" for placed
    by (rule ok_spec_bind [OF ok_announce ok_spec_ret [where Q = "\<lambda>mb tr. mb = (x, placed) \<and> tr = []" for x]]) auto
  show "ok_spec (bindP (place_bundles L K m built) (\<lambda>placed.
      bindP (announce_placement L K m placed) (\<lambda>m'. retP (m', placed)))) ?Q"
  proof (rule ok_spec_bind [OF ok_place_bundles tell])
    fix placed and mb :: "'r p2m \<times> 'r bundle_list" and t1 t2 :: "'r events"
    assume 1: "list_all2 (decided L K t1 m) built placed"
      and 2: "snd mb = placed \<and> decisions_told K t2 placed (fst mb)"
    have "list_all2 (decided L K (t1 @ t2) m) built placed" by (rule decided_all_mono [OF 1]) simp
    with 2 show "?Q mb (t1 @ t2)" by (auto simp: decisions_told_def)
  qed
next
  fix built and mb :: "'r p2m \<times> 'r bundle_list" and t1 t2 :: "'r events"
  assume built: "build_and_update_bundles C L [] m = Ok built"
    and placed: "list_all2 (decided L K t2 m) built (snd mb) \<and> decisions_told K t2 (snd mb) (fst mb)"
  then have "placed_by_decision C L K t2 m (snd mb)"
    unfolding placed_by_decision_def decisions_told_def by blast
  with placed show "placed_by_decision C L K (t1 @ t2) m (snd mb) \<and> decisions_told K (t1 @ t2) (snd mb) (fst mb)"
    by (auto elim: placed_by_decision_mono decisions_told_mono)
qed

lemma ok_choose:
  assumes "extract_target (global_annotations (p2m_spec m)) = Ok (n, c)"
  shows "ok_spec (choose_clusters C L K m n c)
    (\<lambda>mb tr. authorised C L K tr m (snd mb) \<and> rolled_manifest K tr m (snd mb) (fst mb))"
  unfolding choose_clusters_def
proof (rule ok_spec_if)
  assume c: "c \<noteq> ''''"
  from ok_target_bundles [OF this]
  show "ok_spec (bindP (target_cluster_bundles C L K m n c []) (\<lambda>bundles. retP (m, bundles)))
      (\<lambda>mb tr. authorised C L K tr m (snd mb) \<and> rolled_manifest K tr m (snd mb) (fst mb))"
    by (rule ok_spec_bind [OF _ ok_spec_ret [where Q = "\<lambda>mb tr. mb = (m, x)" and x = "(m, x)" for x]])
       (use assms c in \<open>auto simp: authorised_def rolled_manifest_def\<close>)
next
  assume "\<not> c \<noteq> ''''"
  with assms show "ok_spec (placed_workload_bundles C L K m [])
      (\<lambda>mb tr. authorised C L K tr m (snd mb) \<and> rolled_manifest K tr m (snd mb) (fst mb))"
    by (intro ok_spec_mono [OF ok_placed_bundles]) (auto simp: authorised_def rolled_manifest_def)
qed

section \<open>All or nothing\<close>

text \<open>
  \<open>serves K owner b c\<close>: the request creates the ManifestWork of the bundle \<open>b\<close>, or updates the
  one the server returned under its name (the zero object, if that read failed) with its spec.
\<close>

definition serves :: "('r, 'w) client \<Rightarrow> string \<Rightarrow> 'r workload_bundle \<Rightarrow> 'r call \<Rightarrow> bool" where
  "serves K owner b c \<longleftrightarrow>
     c = CreateWork (work_of owner b) \<or>
     (\<exists>old. c = UpdateWork (old\<lparr>work_spec := work_spec (work_of owner b)\<rparr>) \<and>
        (old = zero_work \<or> (\<exists>w w'. cl_get_work K (work_key b) w = (Inr old, w'))))"

text \<open>The writes to ManifestWorks among the requests, in their order.\<close>

definition work_writes :: "'r events \<Rightarrow> 'r call list" where
  "work_writes tr = filter is_work_write (map fst tr)"

text \<open>The requests write the ManifestWorks of the first bundles of \<open>bl\<close>, one for each, in order.\<close>

definition rolled_out :: "('r, 'w) client \<Rightarrow> string \<Rightarrow> 'r bundle_list \<Rightarrow> 'r events \<Rightarrow> bool" where
  "rolled_out K owner bl tr \<longleftrightarrow> (\<exists>k. list_all2 (serves K owner) (take k bl) (work_writes tr))"

lemma work_writes_append [simp]: "work_writes (t1 @ t2) = work_writes t1 @ work_writes t2"
  by (simp add: work_writes_def)

lemma work_writes_none_iff: "work_writes tr = [] \<longleftrightarrow> list_all (\<lambda>e. no_work_write (fst e)) tr"
  by (induction tr) (auto simp: work_writes_def no_work_write_def)

lemma rolled_out_none [simp]: "work_writes tr = [] \<Longrightarrow> rolled_out K owner bl tr"
  by (auto simp: rolled_out_def intro: exI [of _ 0])

definition reads_or_writes_works :: "'r call \<Rightarrow> bool" where
  "reads_or_writes_works c \<longleftrightarrow> is_read c \<or> is_work_write c"

lemma emits_apply: "emits reads_or_writes_works (apply_bundles K owner bl)"
  unfolding apply_bundles_def apply_bundle_def Let_def
  by (intro emits_intros) (auto split: go_error.splits api_error.splits intro!: emits_intros
      simp: reads_or_writes_works_def)

lemma run_apply_bundle:
  fixes K :: "('r, 'w) client"
  shows "run_spec (apply_bundle K owner b n) (\<lambda>s r tr s'. \<exists>c. work_writes tr = [c] \<and> serves K owner b c)"
proof -
  let ?k = "work_key b" and ?w = "work_of owner b"
  let ?sends = "\<lambda>old s r tr s'. \<exists>c. work_writes tr = [c] \<and> (c = CreateWork ?w \<or>
      c = UpdateWork (old\<lparr>work_spec := work_spec ?w\<rparr>))"
  have read: "run_spec (attemptP (invoke (GetWork ?k) (cl_get_work K ?k))) (\<lambda>s r tr s'. work_writes tr = [] \<and>
      (\<exists>q. r = Ok q \<and> (\<forall>old. q = Inr old \<longrightarrow> (\<exists>w w'. cl_get_work K ?k w = (Inr old, w')))))"
    by (rule run_specI) (fastforce simp: attemptP_def invoke_def work_writes_def split: prod.splits sum.splits)
  have send: "run_spec (raising (invoke c f)) (\<lambda>s r tr s'. map fst tr = [c])"
    for c :: "'r call" and f :: "'w \<Rightarrow> (api_error + unit) \<times> 'w"
    by (rule run_spec_raising [OF run_spec_invoke]) (auto simp: answered_def)
  have sent: "run_spec (bindP (raising (invoke c f)) (\<lambda>_. retP k)) (\<lambda>s r tr s'. map fst tr = [c])"
    for c :: "'r call" and f :: "'w \<Rightarrow> (api_error + unit) \<times> 'w" and k
    by (rule run_spec_bind [OF send run_spec_ret]) auto
  have put: "run_spec (bindP (case q of
             Inl (Api (NotFound t)) \<Rightarrow> raising (invoke (CreateWork ?w) (cl_create_work K ?w))
           | Inl _ \<Rightarrow> raising (invoke (UpdateWork (zero_work\<lparr>work_spec := work_spec ?w\<rparr>))
               (cl_update_work K (zero_work\<lparr>work_spec := work_spec ?w\<rparr>)))
           | Inr old \<Rightarrow> raising (invoke (UpdateWork (old\<lparr>work_spec := work_spec ?w\<rparr>))
               (cl_update_work K (old\<lparr>work_spec := work_spec ?w\<rparr>)))) (\<lambda>_. retP k))
      (\<lambda>s r tr s'. ?sends (case q of Inl _ \<Rightarrow> zero_work | Inr old \<Rightarrow> old) s r tr s')" for q k
    by (auto split: sum.splits go_error.splits api_error.splits
        intro!: run_spec_mono [OF sent] simp: work_writes_def)
  show ?thesis
    unfolding apply_bundle_def Let_def
  proof (rule run_spec_bind [OF read put])
    fix s s1 s' :: "('r, 'w) sys" and q r and t1 t2 :: "'r events"
    assume "work_writes t1 = [] \<and> (\<exists>p. Ok q = Ok p \<and> (\<forall>old. p = Inr old \<longrightarrow> (\<exists>w w'. cl_get_work K ?k w = (Inr old, w'))))"
      and "?sends (case q of Inl _ \<Rightarrow> zero_work | Inr old \<Rightarrow> old) s1 r t2 s'"
    then show "\<exists>c. work_writes (t1 @ t2) = [c] \<and> serves K owner b c"
      unfolding serves_def by (cases q) auto
  qed auto
qed

lemma run_apply:
  "run_spec (apply_bundles K owner bl) (\<lambda>s r tr s'. rolled_out K owner bl tr \<and>
     (\<forall>n. r = Ok n \<longrightarrow> list_all2 (serves K owner) bl (work_writes tr)))"
proof -
  have "run_spec (loopP (apply_bundle K owner) bl n) (\<lambda>s r tr s'. rolled_out K owner bl tr \<and>
     (\<forall>n. r = Ok n \<longrightarrow> list_all2 (serves K owner) bl (work_writes tr)))" for n
  proof (induction bl arbitrary: n)
    case Nil
    show ?case unfolding loopP.simps by (rule run_spec_mono [OF run_spec_ret]) (simp add: work_writes_def)
  next
    case (Cons b bl)
    have one: "rolled_out K owner (b # bl) tr" if "work_writes tr = [c]" "serves K owner b c" for tr c
      using that by (auto simp: rolled_out_def intro: exI [of _ 1])
    have more: "rolled_out K owner (b # bl) (t1 @ t2)"
      if c: "work_writes t1 = [c]" "serves K owner b c" and rest: "rolled_out K owner bl t2" for t1 t2 c
    proof -
      from rest obtain k where "list_all2 (serves K owner) (take k bl) (work_writes t2)"
        by (auto simp: rolled_out_def)
      with c have "list_all2 (serves K owner) (take (Suc k) (b # bl)) (work_writes (t1 @ t2))" by simp
      then show ?thesis unfolding rolled_out_def by blast
    qed
    show ?case
      unfolding loopP.simps by (rule run_spec_bind [OF run_apply_bundle Cons.IH]) (auto intro: one more)
  qed
  from this [of 0] show ?thesis by (simp add: apply_bundles_def)
qed

lemma run_roll_out_writes:
  "run_spec (roll_out L K m bl) (\<lambda>s r tr s'. rolled_out K (sys_owner s) bl tr)"
proof -
  have quiet: "run_spec p (\<lambda>s r tr s'. work_writes tr = [])" if "sends no_work_write p" for p
    by (rule run_spec_mono [OF run_spec_sends [OF that]]) (simp add: work_writes_none_iff)
  have after: "run_spec (bindP (check_works L K owner m bl) (\<lambda>_. bindP (connect_bundles L K m bl) (\<lambda>_.
      complete L K m bl n))) (\<lambda>s r tr s'. work_writes tr = [])" for owner n
    by (intro quiet sends_bind sends_emits [OF workless.emits_check_works] sends_emits [OF workless.emits_connect]
        workless.sends_complete)
  have app: "run_spec (bindP (apply_bundles K owner bl) (\<lambda>placed. bindP (check_works L K owner m bl) (\<lambda>_.
      bindP (connect_bundles L K m bl) (\<lambda>_. complete L K m bl placed)))) (\<lambda>s r tr s'. rolled_out K owner bl tr)" for owner
    by (rule run_spec_bind [OF run_apply after]) (auto simp: rolled_out_def)
  have get: "run_spec (bindP (getP sys_owner) (\<lambda>owner. bindP (apply_bundles K owner bl) (\<lambda>placed.
      bindP (check_works L K owner m bl) (\<lambda>_. bindP (connect_bundles L K m bl) (\<lambda>_. complete L K m bl placed)))))
      (\<lambda>s r tr s'. rolled_out K (sys_owner s) bl tr)"
    by (rule run_spec_bind [OF run_spec_get app]) auto
  have clean: "run_spec (clean_up_old_bundles K (p2m_name m) bl) (\<lambda>s r tr s'. sys_owner s' = sys_owner s \<and> work_writes tr = [])"
    by (rule run_spec_mono [OF run_spec_emits [OF workless.emits_clean_up]]) (simp add: work_writes_none_iff)
  show ?thesis
    unfolding roll_out_def by (rule run_spec_bind [OF clean get]) (auto simp: rolled_out_def)
qed

lemma ok_validate:
  "ok_spec (validate_manifest L K m) (\<lambda>t tr. extract_target (global_annotations (p2m_spec m)) = Ok t)"
proof -
  have read: "ok_spec (read_target L K m) (\<lambda>t tr. extract_target (global_annotations (p2m_spec m)) = Ok t)"
    unfolding read_target_def by (auto split: go.splits intro: ok_spec_ret ok_spec_report ok_spec_lift)
  have annotations: "ok_spec (check_annotations L K m) (\<lambda>_ _. True)"
    by (rule ok_spec_emits [where P = only_reports]) (simp add: check_annotations_def emits_intros
        reporting.emits_report split: go.splits)
  have cluster_set: "ok_spec (check_cluster_set L K m n) (\<lambda>_ _. True)" for n
    by (rule ok_spec_emits [where P = only_reports]) (unfold check_cluster_set_def, intro emits_intros
        reporting.emits_report reporting.emits_does_exist reporting.emits_empty reporting.emits_bound)
  have last: "ok_spec (bindP (check_cluster_set L K m (fst t)) (\<lambda>_. retP t)) (\<lambda>y tr. y = t)" for t
    by (rule ok_spec_bind [OF cluster_set ok_spec_ret [where Q = "\<lambda>y tr. y = t"]]) simp_all
  have middle: "ok_spec (bindP (read_target L K m) (\<lambda>t. bindP (check_cluster_set L K m (fst t)) (\<lambda>_. retP t)))
      (\<lambda>t tr. extract_target (global_annotations (p2m_spec m)) = Ok t)"
    by (rule ok_spec_bind [OF read last]) simp
  show ?thesis
    unfolding validate_manifest_def by (rule ok_spec_bind [OF annotations middle]) simp
qed

text \<open>
  The requests of a run split in two: no ManifestWork is written in the first part, which
  authorises a list of bundles, and the second writes those of these bundles, in order.
\<close>

definition all_or_nothing ::
    "'r codec \<Rightarrow> lib \<Rightarrow> ('r, 'w) client \<Rightarrow> string \<Rightarrow> 'r p2m \<Rightarrow> 'r events \<Rightarrow> bool" where
  "all_or_nothing C L K owner m tr \<longleftrightarrow> work_writes tr = [] \<or>
     (\<exists>before rest bl. tr = before @ rest \<and> work_writes before = [] \<and>
        authorised C L K before m bl \<and> rolled_out K owner bl rest)"

lemma all_or_nothing_prefix:
  assumes "work_writes t1 = []" and "all_or_nothing C L K owner m t2"
  shows "all_or_nothing C L K owner m (t1 @ t2)"
proof (cases "work_writes t2 = []")
  case False
  with assms(2) obtain before rest bl where t2: "t2 = before @ rest" "work_writes before = []"
    "authorised C L K before m bl" "rolled_out K owner bl rest"
    unfolding all_or_nothing_def by blast
  have "authorised C L K (t1 @ before) m bl" by (rule authorised_mono [OF t2(3)]) simp
  with t2 assms(1) show ?thesis
    unfolding all_or_nothing_def by (intro disjI2 exI [of _ "t1 @ before"] exI [of _ rest]) auto
qed (use assms(1) in \<open>simp add: all_or_nothing_def\<close>)

lemma run_schedule: "run_spec (schedule C L K m) (\<lambda>s r tr s'. all_or_nothing C L K (sys_owner s) m tr)"
proof -
  have validate: "run_spec (validate_manifest L K m) (\<lambda>s r tr s'. sys_owner s' = sys_owner s \<and> work_writes tr = [] \<and>
      (\<forall>t. r = Ok t \<longrightarrow> extract_target (global_annotations (p2m_spec m)) = Ok t))"
    by (rule run_spec_mono [OF run_spec_ok [OF workless.emits_validate ok_validate]]) (simp add: work_writes_none_iff)
  have rest: "run_spec (bindP (choose_clusters C L K m n c) (\<lambda>mb. roll_out L K (fst mb) (snd mb)))
      (\<lambda>s r tr s'. extract_target (global_annotations (p2m_spec m)) = Ok (n, c) \<longrightarrow>
        all_or_nothing C L K (sys_owner s) m tr)" for n c
  proof (cases "extract_target (global_annotations (p2m_spec m)) = Ok (n, c)")
    case True
    have choose: "run_spec (choose_clusters C L K m n c) (\<lambda>s r tr s'. sys_owner s' = sys_owner s \<and> work_writes tr = [] \<and>
        (\<forall>mb. r = Ok mb \<longrightarrow> authorised C L K tr m (snd mb)))"
      by (rule run_spec_mono [OF run_spec_ok [OF workless.emits_choose ok_choose [OF True]]])
         (simp add: work_writes_none_iff)
    show ?thesis
      by (rule run_spec_bind [OF choose run_roll_out_writes]) (auto simp: all_or_nothing_def)
  next
    case False
    have "run_spec (choose_clusters C L K m n c) (\<lambda>s r tr s'. True)"
      by (rule run_spec_mono [OF run_spec_emits [OF workless.emits_choose]]) simp
    with False show ?thesis by (intro run_spec_bind [OF _ run_roll_out_writes]) auto
  qed
  have "run_spec (bindP (validate_manifest L K m) (\<lambda>t. bindP (choose_clusters C L K m (fst t) (snd t))
      (\<lambda>mb. roll_out L K (fst mb) (snd mb)))) (\<lambda>s r tr s'. all_or_nothing C L K (sys_owner s) m tr)"
    by (rule run_spec_bind [OF validate rest]) (auto intro: all_or_nothing_prefix, simp_all add: all_or_nothing_def)
  then show ?thesis by (simp add: schedule_def case_prod_beta')
qed

lemma run_reconcile:
  "run_spec (reconcile C L K req) (\<lambda>s r tr s'. work_writes tr = [] \<or>
     (\<exists>m owner. scheduled_manifest L K req (sys_world s) m owner \<and> all_or_nothing C L K owner m tr))"
proof -
  let ?Q = "\<lambda>s (r :: (stop, ctrl_result) go) tr s'. work_writes tr = [] \<or>
     (\<exists>m owner. scheduled_manifest L K req (sys_world s) m owner \<and> all_or_nothing C L K owner m tr)"
  have approach: "run_spec (approach L K req) (\<lambda>s r tr s'. work_writes tr = [])"
    by (rule run_spec_mono [OF run_spec_sends [OF workless.sends_approach]]) (simp add: work_writes_none_iff)
  have "run_spec (reconcile C L K req) (\<lambda>s r tr s'. \<exists>q. r = outcome q \<and> ?Q s q tr s')"
    by (rule run_reconcile_by_stages [OF approach run_schedule]) (blast intro: all_or_nothing_prefix)+
  then show ?thesis by (rule run_spec_mono) blast
qed

lemma split_before_member:
  assumes "xs @ x # ys = before @ rest" and "x \<notin> set before"
  shows "\<exists>mid. xs = before @ mid \<and> rest = mid @ x # ys"
  using assms by (auto simp: append_eq_append_conv2 Cons_eq_append_conv)

lemma work_write_authorised:
  assumes "all_or_nothing C L K owner m (pre @ (c, ok) # post)" and "is_work_write c"
  shows "\<exists>bl before mid. pre = before @ mid \<and> work_writes before = [] \<and> authorised C L K before m bl \<and>
    rolled_out K owner bl (mid @ (c, ok) # post)"
proof -
  have "work_writes (pre @ (c, ok) # post) \<noteq> []" using assms(2) by (simp add: work_writes_def)
  with assms(1) obtain before rest bl where split: "pre @ (c, ok) # post = before @ rest"
    and bl: "work_writes before = []" "authorised C L K before m bl" "rolled_out K owner bl rest"
    unfolding all_or_nothing_def by blast
  have "(c, ok) \<notin> set before"
    using bl(1) assms(2) by (auto simp: work_writes_none_iff list_all_iff no_work_write_def)
  from split_before_member [OF split this] bl show ?thesis by blast
qed

end
