(* ===== verification/P2_Finalize.thy ===== *)
theory P2_Finalize
  imports P2_Ordering
begin

text \<open>
  Deletion: the finalizer of a P2CodeSchedulingManifest is removed only when its
  ManifestWorks are deleted, its network links removed (where the MultiClusterNetwork API
  is installed) and its bundles forgotten.
\<close>

section \<open>The steps of the clean-up\<close>

lemma ok_delete_all:
  "ok_spec (loopP (\<lambda>w _. invoke (DeleteWork w) (cl_delete_work K w)) ws u)
     (\<lambda>_ tr. tr = map (\<lambda>w. (DeleteWork w, True)) ws)"
proof (induction ws arbitrary: u)
  case Nil
  show ?case by (simp add: ok_spec_ret)
next
  case (Cons w ws)
  have "ok_spec (invoke (DeleteWork w) (cl_delete_work K w)) (\<lambda>_ tr. tr = [(DeleteWork w, True)])"
    by (rule ok_spec_invoke) simp
  then show ?case
    unfolding loopP.simps by (rule ok_spec_bind [OF _ Cons.IH]) simp
qed

definition works_deleted :: "lib \<Rightarrow> ('r, 'w) client \<Rightarrow> string \<Rightarrow> 'r events \<Rightarrow> bool" where
  "works_deleted L K owner tr \<longleftrightarrow>
     (\<exists>sel ws w w'. owner_selector L owner = Inr sel \<and> cl_list_works K sel w = (Inr ws, w') \<and>
        tr = (ListWorks sel, True) # map (\<lambda>v. (DeleteWork v, True)) ws)"

lemma ok_delete_owned:
  "ok_spec (delete_owned_manifest_work_list L K owner) (\<lambda>_ tr. works_deleted L K owner tr)"
proof -
  have list: "ok_spec (get_owned_manifest_work_list L K owner)
      (\<lambda>ws tr. \<exists>sel w w'. owner_selector L owner = Inr sel \<and> cl_list_works K sel w = (Inr ws, w') \<and>
         tr = [(ListWorks sel, True)])"
    unfolding get_owned_manifest_work_list_def
    by (auto split: sum.splits intro: ok_spec_failP intro!: ok_spec_invoke)
  show ?thesis
    unfolding delete_owned_manifest_work_list_def
    by (rule ok_spec_bind [OF list ok_delete_all]) (fastforce simp: works_deleted_def)
qed

text \<open>Discovery: three requests for the REST client, then the lookup of the kind.\<close>

lemma ok_installed:
  "ok_spec (is_multi_cluster_network_installed K)
     (\<lambda>b tr. tr = [(RestDiscovery, True), (RestDiscovery, True), (RestDiscovery, True), (RestDiscovery, b)])"
proof -
  let ?last = "bindP (attemptP (invoke RestDiscovery (cl_rest_mapping K ''MultiClusterNetwork''))) (\<lambda>r.
       case r of Inr _ \<Rightarrow> retP True
       | Inl e \<Rightarrow> (case e of Api a \<Rightarrow> if is_no_match a then retP False else failP e | _ \<Rightarrow> failP e))"
  have once: "ok_spec (invoke RestDiscovery f) (\<lambda>_ tr. tr = [(RestDiscovery, True)])" for f :: "'b \<Rightarrow> (api_error + unit) \<times> 'b"
    by (rule ok_spec_invoke) simp
  have last: "ok_spec ?last (\<lambda>b tr. tr = [(RestDiscovery, b)])"
    unfolding ok_spec_def
    by (rule run_specI)
       (auto simp: bindP_def attemptP_def invoke_def retP_def failP_def
         split: prod.splits sum.splits go_error.splits if_splits)
  have 3: "ok_spec (bindP (invoke RestDiscovery (cl_rest_mapper K)) (\<lambda>_. ?last))
      (\<lambda>b tr. tr = [(RestDiscovery, True), (RestDiscovery, b)])"
    by (rule ok_spec_bind [OF once last]) simp
  have 2: "ok_spec (bindP (invoke RestDiscovery (cl_http_client K)) (\<lambda>_.
      bindP (invoke RestDiscovery (cl_rest_mapper K)) (\<lambda>_. ?last)))
      (\<lambda>b tr. tr = [(RestDiscovery, True), (RestDiscovery, True), (RestDiscovery, b)])"
    by (rule ok_spec_bind [OF once 3]) simp
  show ?thesis
    unfolding is_multi_cluster_network_installed_def by (rule ok_spec_bind [OF once 2]) simp
qed

lemma ok_delete_links:
  "ok_spec (delete_network_links L K ncs) (\<lambda>_ tr. \<exists>n. (UpdateNetwork n, True) \<in> set tr)"
proof -
  have send: "ok_spec (bindP (liftP q) (\<lambda>links. let n' = n\<lparr>mcn_links := links\<rparr>
      in invoke (UpdateNetwork n') (cl_update_network K n'))) (\<lambda>_ tr. \<exists>n. (UpdateNetwork n, True) \<in> set tr)" for q n
    unfolding Let_def
    by (rule ok_spec_bind [OF ok_spec_lift [where Q = "\<lambda>_ _. True"] ok_spec_invoke
          [where Q = "\<lambda>_ tr. \<exists>n. (UpdateNetwork n, True) \<in> set tr"]]) auto
  show ?thesis
    unfolding delete_network_links_def
    by (rule ok_spec_bind [OF ok_spec_emits [OF workless.emits_fetch_network] send]) auto
qed

lemma ok_remove_links:
  "ok_spec (remove_stored_links L K name) (\<lambda>_ tr. \<exists>n. (UpdateNetwork n, True) \<in> set tr)"
proof -
  have lifted: "ok_spec (bindP (raising (liftP q)) (\<lambda>ncs. raising (delete_network_links L K ncs)))
      (\<lambda>_ tr. \<exists>n. (UpdateNetwork n, True) \<in> set tr)" for q
    by (rule ok_spec_bind [OF ok_spec_raising [OF ok_spec_lift [where Q = "\<lambda>_ _. True"]]
          ok_spec_raising [OF ok_delete_links]]) auto
  show ?thesis
    unfolding remove_stored_links_def
    by (rule ok_spec_bind [OF ok_spec_emits [OF emits_get] lifted]) auto
qed

section \<open>No finalizer is removed early\<close>

definition no_manifest_write :: "'r call \<Rightarrow> bool" where
  "no_manifest_write c \<longleftrightarrow> \<not> is_manifest_write c"

lemma manifest_write_cases: "is_manifest_write c \<Longrightarrow> \<exists>m. c = UpdateManifest m"
  by (cases c) simp_all

interpretation unreleased: scheduling_policy no_manifest_write
  by unfold_locales (auto simp: no_manifest_write_def dest!: manifest_write_cases)

definition cleaned_up :: "lib \<Rightarrow> ('r, 'w) client \<Rightarrow> string \<Rightarrow> 'r events \<Rightarrow> bool" where
  "cleaned_up L K owner tr \<longleftrightarrow>
     (\<exists>start works installed links. works_deleted L K owner works \<and>
        tr = start @ works @ [(RestDiscovery, True), (RestDiscovery, True), (RestDiscovery, True),
               (RestDiscovery, installed)] @ links \<and>
        (installed \<longrightarrow> (\<exists>n. (UpdateNetwork n, True) \<in> set links)))"

lemma cleaned_up_extend:
  assumes "cleaned_up L K owner tr"
  shows "cleaned_up L K owner (pre @ tr @ post)"
proof -
  from assms obtain start works installed links where *: "works_deleted L K owner works"
    "tr = start @ works @ [(RestDiscovery, True), (RestDiscovery, True), (RestDiscovery, True),
       (RestDiscovery, installed)] @ links"
    "installed \<longrightarrow> (\<exists>n. (UpdateNetwork n, True) \<in> set links)"
    unfolding cleaned_up_def by blast
  then show ?thesis
    unfolding cleaned_up_def
    by (intro exI [of _ "pre @ start"] exI [of _ works] exI [of _ installed] exI [of _ "links @ post"]) auto
qed

text \<open>
  An execution of the deletion stage either stops in the clean-up, with the stored bundles
  as they were and no write to the manifest, or passes it first.
\<close>

definition quiet_run :: "('r, 'w) sys \<Rightarrow> 'r events \<Rightarrow> ('r, 'w) sys \<Rightarrow> bool" where
  "quiet_run s tr s' \<longleftrightarrow>
     sys_bundles s' = sys_bundles s \<and> list_all (\<lambda>e. no_manifest_write (fst e)) tr"

definition forgot :: "('r, 'w) sys \<Rightarrow> ('r, 'w) sys \<Rightarrow> bool" where
  "forgot s s' \<longleftrightarrow> (\<exists>name. sys_bundles s' = delete_bundles (sys_bundles s) name)"

abbreviation discovered :: "bool \<Rightarrow> 'r events" where
  "discovered b \<equiv> [(RestDiscovery, True), (RestDiscovery, True), (RestDiscovery, True), (RestDiscovery, b)]"

definition links_phase :: "bool \<Rightarrow> ('r, 'w) sys \<Rightarrow> 'r events \<Rightarrow> ('r, 'w) sys \<Rightarrow> bool" where
  "links_phase installed s tr s' \<longleftrightarrow> quiet_run s tr s' \<or>
     (\<exists>links t. tr = links @ t \<and> list_all (\<lambda>e. no_manifest_write (fst e)) links \<and>
        (installed \<longrightarrow> (\<exists>n. (UpdateNetwork n, True) \<in> set links)) \<and> forgot s s')"

definition network_phase :: "('r, 'w) sys \<Rightarrow> 'r events \<Rightarrow> ('r, 'w) sys \<Rightarrow> bool" where
  "network_phase s tr s' \<longleftrightarrow> quiet_run s tr s' \<or>
     (\<exists>installed links t. tr = discovered installed @ links @ t \<and>
        list_all (\<lambda>e. no_manifest_write (fst e)) links \<and>
        (installed \<longrightarrow> (\<exists>n. (UpdateNetwork n, True) \<in> set links)) \<and> forgot s s')"

definition clean_phase :: "lib \<Rightarrow> ('r, 'w) client \<Rightarrow> string \<Rightarrow> ('r, 'w) sys \<Rightarrow> 'r events \<Rightarrow> ('r, 'w) sys \<Rightarrow> bool" where
  "clean_phase L K owner s tr s' \<longleftrightarrow> quiet_run s tr s' \<or>
     (\<exists>t0 t. tr = t0 @ t \<and> list_all (\<lambda>e. no_manifest_write (fst e)) t0 \<and>
        cleaned_up L K owner t0 \<and> forgot s s')"

lemma quiet_run_trans: "quiet_run s t1 s1 \<Longrightarrow> quiet_run s1 t2 s2 \<Longrightarrow> quiet_run s (t1 @ t2) s2"
  by (simp add: quiet_run_def)

lemma forgot_after: "sys_bundles s1 = sys_bundles s \<Longrightarrow> forgot s1 s2 \<Longrightarrow> forgot s s2"
  by (simp add: forgot_def)

lemma network_phase_step:
  assumes "sys_bundles s1 = sys_bundles s" and "links_phase installed s1 t2 s2"
  shows "network_phase s (discovered installed @ t2) s2"
  using assms unfolding links_phase_def network_phase_def
  by (auto simp: quiet_run_def no_manifest_write_def intro: forgot_after)

lemma clean_phase_works:
  assumes "sys_bundles s1 = sys_bundles s" and "list_all (\<lambda>e. no_manifest_write (fst e)) t1"
    and "works_deleted L K owner t1" and "network_phase s1 t2 s2"
  shows "clean_phase L K owner s (t1 @ t2) s2"
  using assms(4) unfolding network_phase_def
proof
  assume "quiet_run s1 t2 s2"
  with assms(1,2) show ?thesis by (simp add: clean_phase_def quiet_run_def)
next
  assume "\<exists>installed links t. t2 = discovered installed @ links @ t \<and>
        list_all (\<lambda>e. no_manifest_write (fst e)) links \<and>
        (installed \<longrightarrow> (\<exists>n. (UpdateNetwork n, True) \<in> set links)) \<and> forgot s1 s2"
  then obtain installed links t where *: "t2 = discovered installed @ links @ t"
    "list_all (\<lambda>e. no_manifest_write (fst e)) links"
    "installed \<longrightarrow> (\<exists>n. (UpdateNetwork n, True) \<in> set links)" "forgot s1 s2" by blast
  have "cleaned_up L K owner (t1 @ discovered installed @ links)"
    unfolding cleaned_up_def using assms(3) *(3)
    by (intro exI [of _ "[]"] exI [of _ t1] exI [of _ installed] exI [of _ links]) simp
  moreover have "list_all (\<lambda>e. no_manifest_write (fst e)) (t1 @ discovered installed @ links)"
    using assms(2) *(2) by (simp add: no_manifest_write_def)
  moreover have "forgot s s2" by (rule forgot_after [OF assms(1) *(4)])
  moreover have "t1 @ t2 = (t1 @ discovered installed @ links) @ t" by (simp add: *(1))
  ultimately show ?thesis unfolding clean_phase_def by blast
qed

lemma clean_phase_prefix:
  assumes "sys_bundles s1 = sys_bundles s" and "list_all (\<lambda>e. no_manifest_write (fst e)) t1"
    and "clean_phase L K owner s1 t2 s2"
  shows "clean_phase L K owner s (t1 @ t2) s2"
  using assms(3) unfolding clean_phase_def
proof
  assume "quiet_run s1 t2 s2"
  with assms(1,2) show "quiet_run s (t1 @ t2) s2 \<or> (\<exists>t0 t. t1 @ t2 = t0 @ t \<and>
      list_all (\<lambda>e. no_manifest_write (fst e)) t0 \<and> cleaned_up L K owner t0 \<and> forgot s s2)"
    by (simp add: quiet_run_def)
next
  assume "\<exists>t0 t. t2 = t0 @ t \<and> list_all (\<lambda>e. no_manifest_write (fst e)) t0 \<and>
        cleaned_up L K owner t0 \<and> forgot s1 s2"
  then obtain t0 t where *: "t2 = t0 @ t" "list_all (\<lambda>e. no_manifest_write (fst e)) t0"
    "cleaned_up L K owner t0" "forgot s1 s2" by blast
  have "cleaned_up L K owner (t1 @ t0)" using cleaned_up_extend [OF *(3), of t1 "[]"] by simp
  with * assms(2) forgot_after [OF assms(1) *(4)] show "quiet_run s (t1 @ t2) s2 \<or> (\<exists>t0 t. t1 @ t2 = t0 @ t \<and>
      list_all (\<lambda>e. no_manifest_write (fst e)) t0 \<and> cleaned_up L K owner t0 \<and> forgot s s2)"
    by (intro disjI2 exI [of _ "t1 @ t0"] exI [of _ t]) simp
qed

lemma run_links_phase:
  "run_spec (bindP (if installed then remove_stored_links L K name else retP ()) (\<lambda>_.
     bindP (modifyP (\<lambda>s. s\<lparr>sys_bundles := delete_bundles (sys_bundles s) name\<rparr>)) (\<lambda>_. release L K m)))
     (\<lambda>s r tr s'. links_phase installed s tr s')"
proof -
  have links: "run_spec (if installed then remove_stored_links L K name else retP ())
      (\<lambda>s r tr s'. quiet_run s tr s' \<and> (r = Ok () \<longrightarrow> installed \<longrightarrow> (\<exists>n. (UpdateNetwork n, True) \<in> set tr)))"
  proof (cases installed)
    case True
    have "emits no_manifest_write (remove_stored_links L K name)"
      by (rule unreleased.emits_remove_links)
    note ok = run_spec_ok [OF this ok_remove_links]
    have "run_spec (remove_stored_links L K name)
      (\<lambda>s r tr s'. quiet_run s tr s' \<and> (r = Ok () \<longrightarrow> installed \<longrightarrow> (\<exists>n. (UpdateNetwork n, True) \<in> set tr)))"
      by (rule run_spec_mono [OF ok]) (simp add: quiet_run_def)
    with True show ?thesis by simp
  next
    case False
    have "run_spec (retP ())
      (\<lambda>s r tr s'. quiet_run s tr s' \<and> (r = Ok () \<longrightarrow> installed \<longrightarrow> (\<exists>n. (UpdateNetwork n, True) \<in> set tr)))"
      by (rule run_spec_mono [OF run_spec_ret]) (simp add: quiet_run_def False)
    with False show ?thesis by simp
  qed
  have rel: "run_spec (release L K m) (\<lambda>s r tr s'. sys_bundles s' = sys_bundles s)"
    by (rule run_spec_mono [OF run_spec_emits [OF workless.emits_release]]) simp
  have rest: "run_spec (bindP (modifyP (\<lambda>s. s\<lparr>sys_bundles := delete_bundles (sys_bundles s) name\<rparr>))
      (\<lambda>_. release L K m)) (\<lambda>s r tr s'. forgot s s')"
    by (rule run_spec_bind [OF run_spec_modify rel]) (auto simp: forgot_def)
  show ?thesis
    by (rule run_spec_bind [OF links rest])
       (auto simp: links_phase_def quiet_run_def intro: forgot_after)
qed

lemma run_clean_phase:
  fixes K :: "('r, 'w) client"
  shows "run_spec (bindP (raising (delete_owned_manifest_work_list L K owner)) (\<lambda>_.
     bindP (raising (is_multi_cluster_network_installed K)) (\<lambda>installed.
     bindP (if installed then remove_stored_links L K name else retP ()) (\<lambda>_.
     bindP (modifyP (\<lambda>s. s\<lparr>sys_bundles := delete_bundles (sys_bundles s) name\<rparr>)) (\<lambda>_.
       release L K m))))) (\<lambda>s r tr s'. clean_phase L K owner s tr s')"
proof -
  have disc: "run_spec (raising (is_multi_cluster_network_installed K)) (\<lambda>s r tr s'. quiet_run s tr s' \<and>
      (\<forall>b. r = Ok b \<longrightarrow> tr = discovered b))"
    by (rule run_spec_mono [OF run_spec_ok [OF emits_raising [OF unreleased.emits_installed]
          ok_spec_raising [OF ok_installed]]]) (simp add: quiet_run_def)
  have net: "run_spec (bindP (raising (is_multi_cluster_network_installed K)) (\<lambda>installed.
     bindP (if installed then remove_stored_links L K name else retP ()) (\<lambda>_.
     bindP (modifyP (\<lambda>s. s\<lparr>sys_bundles := delete_bundles (sys_bundles s) name\<rparr>)) (\<lambda>_.
       release L K m)))) (\<lambda>s r tr s'. network_phase s tr s')"
  proof (rule run_spec_bind [OF disc run_links_phase])
    fix s s1 s' :: "('r, 'w) sys" and x and t1 t2 :: "'r events"
    assume "quiet_run s t1 s1 \<and> (\<forall>b. Ok x = Ok b \<longrightarrow> t1 = discovered b)" and "links_phase x s1 t2 s'"
    then show "network_phase s (t1 @ t2) s'"
      using network_phase_step [of s1 s x t2 s'] by (simp add: quiet_run_def)
  qed (simp_all add: network_phase_def)
  have works: "run_spec (raising (delete_owned_manifest_work_list L K owner)) (\<lambda>s r tr s'. quiet_run s tr s' \<and>
      (\<forall>x. r = Ok x \<longrightarrow> works_deleted L K owner tr))"
    by (rule run_spec_mono [OF run_spec_ok [OF emits_raising [OF unreleased.emits_delete_owned]
          ok_spec_raising [OF ok_delete_owned]]]) (simp add: quiet_run_def)
  show ?thesis
  proof (rule run_spec_bind [OF works net])
    fix s s1 s' :: "('r, 'w) sys" and x and t1 t2 :: "'r events"
    assume "quiet_run s t1 s1 \<and> (\<forall>y. Ok x = Ok y \<longrightarrow> works_deleted L K owner t1)" and "network_phase s1 t2 s'"
    then show "clean_phase L K owner s (t1 @ t2) s'"
      by (intro clean_phase_works) (auto simp: quiet_run_def)
  qed (simp_all add: clean_phase_def)
qed

lemma run_finalize: "run_spec (finalize L K m) (\<lambda>s r tr s'. clean_phase L K (sys_owner s) s tr s')"
proof -
  have status: "run_spec (raising (update_status L K m c ds)) (\<lambda>s r tr s'. sys_bundles s' = sys_bundles s \<and>
      sys_owner s' = sys_owner s \<and> list_all (\<lambda>e. no_manifest_write (fst e)) tr)" for m c ds
    by (rule run_spec_emits [OF emits_raising [OF unreleased.emits_update_status]])
  have rest: "run_spec (bindP (getP sys_owner) (\<lambda>owner.
     bindP (raising (delete_owned_manifest_work_list L K owner)) (\<lambda>_.
     bindP (raising (is_multi_cluster_network_installed K)) (\<lambda>installed.
     bindP (if installed then remove_stored_links L K (p2m_name m) else retP ()) (\<lambda>_.
     bindP (modifyP (\<lambda>s. s\<lparr>sys_bundles := delete_bundles (sys_bundles s) (p2m_name m)\<rparr>)) (\<lambda>_.
       release L K m)))))) (\<lambda>s r tr s'. clean_phase L K (sys_owner s) s tr s')" for m
    by (rule run_spec_bind [OF run_spec_get run_clean_phase]) auto
  show ?thesis
    unfolding finalize_def
    by (rule run_spec_bind [OF status rest])
       (metis clean_phase_prefix, auto simp: clean_phase_def quiet_run_def)
qed

section \<open>The whole run\<close>

definition adds_finalizer :: "lib \<Rightarrow> 'r p2m \<Rightarrow> bool" where
  "adds_finalizer L m \<longleftrightarrow> (\<exists>fs. add_finalizer L fs finalizer = Some (p2m_finalizers m))"

definition released_in_order :: "lib \<Rightarrow> ('r, 'w) client \<Rightarrow> string \<Rightarrow> 'r events \<Rightarrow> bool" where
  "released_in_order L K owner tr \<longleftrightarrow>
     (\<forall>pre m ok post. tr = pre @ (UpdateManifest m, ok) # post \<longrightarrow>
        adds_finalizer L m \<or> cleaned_up L K owner pre)"

lemma released_quiet:
  assumes "list_all (\<lambda>e. no_manifest_write (fst e)) tr"
  shows "released_in_order L K owner tr"
  unfolding released_in_order_def
proof (intro allI impI)
  fix pre m ok post
  assume "tr = pre @ (UpdateManifest m, ok) # post"
  with assms show "adds_finalizer L m \<or> cleaned_up L K owner pre"
    by (simp add: no_manifest_write_def)
qed

lemma released_append:
  assumes "released_in_order L K owner t1" and "released_in_order L K owner t2"
  shows "released_in_order L K owner (t1 @ t2)"
  unfolding released_in_order_def
proof (intro allI impI)
  fix pre m ok post
  assume split: "t1 @ t2 = pre @ (UpdateManifest m, ok) # post"
  then consider post' where "t1 = pre @ (UpdateManifest m, ok) # post'"
    | pre' where "pre = t1 @ pre'" "t2 = pre' @ (UpdateManifest m, ok) # post"
    by (auto simp: append_eq_append_conv2 Cons_eq_append_conv append_eq_Cons_conv)
  then show "adds_finalizer L m \<or> cleaned_up L K owner pre"
  proof cases
    case 1
    with assms(1) show ?thesis unfolding released_in_order_def by blast
  next
    case (2 pre')
    with assms(2) have "adds_finalizer L m \<or> cleaned_up L K owner pre'"
      unfolding released_in_order_def by blast
    then show ?thesis using cleaned_up_extend [of L K owner pre' t1 "[]"] 2(1) by auto
  qed
qed

lemma clean_phase_released:
  assumes "clean_phase L K owner s tr s'"
  shows "released_in_order L K owner tr"
  using assms unfolding clean_phase_def
proof
  assume "quiet_run s tr s'"
  then show ?thesis by (simp add: quiet_run_def released_quiet)
next
  assume "\<exists>t0 t. tr = t0 @ t \<and> list_all (\<lambda>e. no_manifest_write (fst e)) t0 \<and> cleaned_up L K owner t0 \<and> forgot s s'"
  then obtain t0 t where t0: "tr = t0 @ t" "list_all (\<lambda>e. no_manifest_write (fst e)) t0"
    "cleaned_up L K owner t0" by blast
  have "released_in_order L K owner (t0 @ t)"
    unfolding released_in_order_def
  proof (intro allI impI disjI2)
    fix pre m ok post
    assume split: "t0 @ t = pre @ (UpdateManifest m, ok) # post"
    have "(UpdateManifest m, ok) \<notin> set t0" using t0(2) by (auto simp: list_all_iff no_manifest_write_def)
    from append_not_member [OF split this] obtain mid where "pre = t0 @ mid" by blast
    then show "cleaned_up L K owner pre" using cleaned_up_extend [OF t0(3), of "[]" mid] by simp
  qed
  with t0(1) show ?thesis by simp
qed

lemma sends_apply_quiet: "emits no_manifest_write (apply_bundles K owner bl)"
  unfolding apply_bundles_def apply_bundle_def Let_def
  by (intro emits_intros) (auto split: go_error.splits api_error.splits intro!: emits_intros
      simp: no_manifest_write_def)

lemma sends_schedule_quiet: "sends no_manifest_write (schedule C L K m)"
proof -
  have roll: "sends no_manifest_write (roll_out L K m bl)" for m bl
    unfolding roll_out_def
    by (intro sends_bind sends_emits [OF unreleased.emits_clean_up] sends_emits [OF emits_get]
        sends_emits [OF sends_apply_quiet] sends_emits [OF unreleased.emits_check_works]
        sends_emits [OF unreleased.emits_connect] unreleased.sends_complete)
  have choose: "sends no_manifest_write (bindP (choose_clusters C L K m n c) (\<lambda>(m', bl). roll_out L K m' bl))" for n c
    by (rule sends_bind [OF sends_emits [OF unreleased.emits_choose]]) (auto intro: roll split: prod.splits)
  show ?thesis
    unfolding schedule_def
    by (rule sends_bind [OF sends_emits [OF unreleased.emits_validate]]) (auto intro: choose split: prod.splits)
qed

text \<open>The stage that adds the finalizer writes nothing else to the manifest.\<close>

lemma emits_ensure: "emits (\<lambda>c. \<forall>m. c = UpdateManifest m \<longrightarrow> adds_finalizer L m) (ensure_finalizer L K req m)"
  unfolding ensure_finalizer_def Let_def adds_finalizer_def
  by (intro emits_intros) auto

lemma released_ensure:
  "list_all (\<lambda>e. \<forall>m. fst e = UpdateManifest m \<longrightarrow> adds_finalizer L m) tr \<Longrightarrow> released_in_order L K owner tr"
  unfolding released_in_order_def by auto

lemma run_deletion:
  "run_spec (handle_deletion L K m) (\<lambda>s r tr s'. released_in_order L K (sys_owner s) tr)"
proof -
  have "run_spec (finalize L K m) (\<lambda>s r tr s'. released_in_order L K (sys_owner s) tr)"
    by (rule run_spec_mono [OF run_finalize clean_phase_released])
  then show ?thesis
    unfolding handle_deletion_def
    by (intro run_spec_if) (assumption, unfold stop_with_def,
        rule run_spec_mono [OF run_spec_fail], simp add: released_quiet,
        rule run_spec_mono [OF run_spec_ret], simp add: released_quiet)
qed

text \<open>The label is that of the manifest the run has read.\<close>

definition labels :: "lib \<Rightarrow> ('r, 'w) client \<Rightarrow> namespaced_name \<Rightarrow> string \<Rightarrow> bool" where
  "labels L K req owner \<longleftrightarrow>
     (\<exists>m w w'. cl_get_manifest K req w = (Inr m, w') \<and> truncate_name_if_needed L (p2m_name m) = Ok owner)"

lemma run_start:
  "run_spec (start_reconcile L K req) (\<lambda>s r tr s'. list_all (\<lambda>e. no_manifest_write (fst e)) tr \<and>
     (\<forall>m. r = Ok m \<longrightarrow> labels L K req (sys_owner s')))"
proof -
  have update: "run_spec (case get_in_progress_state m of None \<Rightarrow> retP m | Some c \<Rightarrow> raising (update_status L K m c []))
      (\<lambda>s r tr s'. sys_owner s' = sys_owner s)" for m
    by (rule run_spec_mono [OF run_spec_emits [where P = only_reports]])
       (intro emits_intros reporting.emits_update_status, simp)
  have label: "run_spec (bindP (modifyP (\<lambda>s. s\<lparr>sys_owner := owner\<rparr>)) (\<lambda>_. case get_in_progress_state m of
      None \<Rightarrow> retP m | Some c \<Rightarrow> raising (update_status L K m c []))) (\<lambda>s r tr s'. sys_owner s' = owner)" for owner m
    by (rule run_spec_bind [OF run_spec_modify update]) auto
  have name: "run_spec (bindP (raising (liftP (truncate_name_if_needed L (p2m_name m)))) (\<lambda>owner.
      bindP (modifyP (\<lambda>s. s\<lparr>sys_owner := owner\<rparr>)) (\<lambda>_. case get_in_progress_state m of
      None \<Rightarrow> retP m | Some c \<Rightarrow> raising (update_status L K m c []))))
      (\<lambda>s r tr s'. \<forall>x. r = Ok x \<longrightarrow> truncate_name_if_needed L (p2m_name m) = Ok (sys_owner s'))" for m
    by (rule run_spec_bind [OF run_spec_raising [OF run_spec_lift,
          where Q = "\<lambda>s r tr s'. \<forall>x. r = Ok x \<longrightarrow> truncate_name_if_needed L (p2m_name m) = Ok x"] label]) auto
  have read: "run_spec (attemptP (invoke (GetManifest req) (cl_get_manifest K req)))
      (\<lambda>s r tr s'. \<forall>m. r = Ok (Inr m) \<longrightarrow> (\<exists>w w'. cl_get_manifest K req w = (Inr m, w')))"
    by (rule run_specI) (fastforce simp: attemptP_def invoke_def split: prod.splits sum.splits)
  have "run_spec (start_reconcile L K req) (\<lambda>s r tr s'. \<forall>m. r = Ok m \<longrightarrow> labels L K req (sys_owner s'))"
    unfolding start_reconcile_def
  proof (rule run_spec_bind [OF read, where ?Q2.0 = "\<lambda>q s r tr s'. \<forall>x. r = Ok x \<longrightarrow>
      (\<exists>m. q = Inr m \<and> truncate_name_if_needed L (p2m_name m) = Ok (sys_owner s'))"])
    fix q
    show "run_spec (case q of Inl (Api (NotFound t)) \<Rightarrow> stop_with Done | Inl e \<Rightarrow> failP (Raise e)
       | Inr m \<Rightarrow> bindP (raising (liftP (truncate_name_if_needed L (p2m_name m)))) (\<lambda>owner.
         bindP (modifyP (\<lambda>s. s\<lparr>sys_owner := owner\<rparr>)) (\<lambda>_. case get_in_progress_state m of
           None \<Rightarrow> retP m | Some c \<Rightarrow> raising (update_status L K m c []))))
      (\<lambda>s r tr s'. \<forall>x. r = Ok x \<longrightarrow> (\<exists>m. q = Inr m \<and> truncate_name_if_needed L (p2m_name m) = Ok (sys_owner s')))"
      using name by (auto split: sum.splits go_error.splits api_error.splits intro: run_spec_no_result)
  qed (auto simp: labels_def)
  from run_spec_conj [OF run_spec_sends [OF unreleased.sends_start] this] show ?thesis .
qed

lemma run_reconcile_released:
  "run_spec (reconcile C L K req) (\<lambda>s r tr s'. \<exists>owner. released_in_order L K owner tr \<and>
     (labels L K req owner \<or> list_all (\<lambda>e. no_manifest_write (fst e)) tr))"
proof -
  let ?R = "\<lambda>s r tr s'. released_in_order L K (sys_owner s) tr"
  have ns: "run_spec (check_namespace L K req m) (\<lambda>s r tr s'. sys_owner s' = sys_owner s \<and>
      released_in_order L K (sys_owner s) tr)" for m
    by (rule run_spec_mono [OF run_spec_emits [OF unreleased.emits_namespace]]) (simp add: released_quiet)
  have fin: "run_spec (ensure_finalizer L K req m) (\<lambda>s r tr s'. sys_owner s' = sys_owner s \<and>
      released_in_order L K (sys_owner s) tr)" for m
    by (rule run_spec_mono [OF run_spec_emits [OF emits_ensure]]) (simp add: released_ensure)
  have sched: "run_spec (schedule C L K m) (\<lambda>s r tr s'. \<forall>owner. released_in_order L K owner tr)" for m
    by (rule run_spec_mono [OF run_spec_sends [OF sends_schedule_quiet]]) (simp add: released_quiet)
  have 1: "run_spec (bindP (handle_deletion L K m) (\<lambda>_. schedule C L K m)) ?R" for m
    by (rule run_spec_bind [OF run_deletion sched]) (auto intro: released_append)
  have 2: "run_spec (bindP (ensure_finalizer L K req m) (\<lambda>m. bindP (handle_deletion L K m) (\<lambda>_. schedule C L K m))) ?R" for m
    by (rule run_spec_bind [OF fin 1]) (auto intro: released_append)
  have 3: "run_spec (bindP (check_namespace L K req m) (\<lambda>_. bindP (ensure_finalizer L K req m)
      (\<lambda>m. bindP (handle_deletion L K m) (\<lambda>_. schedule C L K m)))) ?R" for m
    by (rule run_spec_bind [OF ns 2]) (auto intro: released_append)
  let ?Q = "\<lambda>s r tr s'. \<exists>owner. released_in_order L K owner tr \<and>
     (labels L K req owner \<or> list_all (\<lambda>e. no_manifest_write (fst e)) tr)"
  have 4: "run_spec (reconcile_steps C L K req) ?Q"
    unfolding reconcile_steps_def
    by (rule run_spec_bind [OF run_start 3]) (auto intro: released_append released_quiet)
  show ?thesis
    unfolding reconcile_def by (rule run_spec_return [OF 4])
qed

end
