(* ===== verification/P2_Connect.thy ===== *)
theory P2_Connect
  imports P2_Finalize
begin

text \<open>
  The network stage of a run: what the update of the MultiClusterNetwork resource holds
  when the stage lets the run go on.
\<close>

section \<open>The MultiClusterNetwork resource\<close>

text \<open>The network the server has, or the empty one the controller has just created.\<close>

definition fetched :: "('r, 'w) client \<Rightarrow> multi_cluster_network \<Rightarrow> bool" where
  "fetched K n \<longleftrightarrow> (\<exists>w w'. cl_get_network K network_key w = (Inr n, w') \<or>
     cl_create_network K empty_network w = (Inr n, w'))"

lemma ok_fetch: "ok_spec (fetch_multi_cluster_network K) (\<lambda>n tr. fetched K n)"
  unfolding ok_spec_def
  by (rule run_specI)
     (fastforce simp: fetch_multi_cluster_network_def handleP_def invoke_def failP_def fetched_def
       split: prod.splits sum.splits api_error.splits)

definition network_sent :: "('r, 'w) client \<Rightarrow> (multi_cluster_link list \<Rightarrow> multi_cluster_link list \<Rightarrow> bool) \<Rightarrow> 'r events \<Rightarrow> bool" where
  "network_sent K changed tr \<longleftrightarrow>
     (\<exists>n n' pre. tr = pre @ [(UpdateNetwork n', True)] \<and> fetched K n \<and> changed (mcn_links n) (mcn_links n'))"

lemma ok_register:
  "ok_spec (register_network_links L K ncs) (\<lambda>_ tr. network_sent K (\<lambda>ls ls'. ls' = register_links L ncs ls) tr)"
proof -
  have send: "ok_spec (let n' = n\<lparr>mcn_links := register_links L ncs (mcn_links n)\<rparr>
      in invoke (UpdateNetwork n') (cl_update_network K n'))
    (\<lambda>_ tr. tr = [(UpdateNetwork (n\<lparr>mcn_links := register_links L ncs (mcn_links n)\<rparr>), True)])" for n
    unfolding Let_def by (rule ok_spec_invoke) simp
  show ?thesis
    unfolding register_network_links_def
    by (rule ok_spec_bind [OF ok_fetch send]) (fastforce simp: network_sent_def)
qed

lemma ok_delete:
  "ok_spec (delete_network_links L K ncs)
     (\<lambda>_ tr. network_sent K (\<lambda>ls ls'. delete_links L ncs ls = Ok ls') tr)"
proof -
  have send: "ok_spec (bindP (liftP (delete_links L ncs (mcn_links n))) (\<lambda>links.
      let n' = n\<lparr>mcn_links := links\<rparr> in invoke (UpdateNetwork n') (cl_update_network K n')))
    (\<lambda>_ tr. \<exists>links. delete_links L ncs (mcn_links n) = Ok links \<and> tr = [(UpdateNetwork (n\<lparr>mcn_links := links\<rparr>), True)])" for n
    unfolding Let_def
    by (rule ok_spec_bind [OF ok_spec_lift [where Q = "\<lambda>links tr. delete_links L ncs (mcn_links n) = Ok links \<and> tr = []"]
          ok_spec_invoke [where Q = "\<lambda>_ tr. tr = [(UpdateNetwork (n\<lparr>mcn_links := x\<rparr>), True)]" for x]])
       auto
  show ?thesis
    unfolding delete_network_links_def
    by (rule ok_spec_bind [OF ok_fetch send]) (fastforce simp: network_sent_def)
qed

text \<open>The network stage of a run, when it goes on.\<close>

lemma network_sent_prefix: "network_sent K P t \<Longrightarrow> network_sent K P (pre @ t)"
  unfolding network_sent_def by (metis append_assoc)

lemma ok_connect:
  "ok_spec (connect_bundles L K m bl) (\<lambda>_ tr. \<exists>ncs. get_network_connections bl = Ok ncs \<and>
     (ncs \<noteq> [] \<longrightarrow> network_sent K (\<lambda>ls ls'. ls' = register_links L ncs ls) tr))"
proof -
  let ?S = "\<lambda>ncs tr. ncs \<noteq> [] \<longrightarrow> network_sent K (\<lambda>ls ls'. ls' = register_links L ncs ls) tr"
  let ?Q = "\<lambda>_ tr. \<exists>ncs. get_network_connections bl = Ok ncs \<and> ?S ncs tr"
  have last: "ok_spec (bindP (raising (liftP (get_network_connections bl))) (\<lambda>connections.
     if length connections \<noteq> 0
     then if \<not> installed
       then report L K m (true_condition unreliably_scheduled ''MultiClusterNetworkResourceMissing''
              unreliable_message) (get_scheduling_decisions bl)
       else raising (register_network_links L K connections)
     else retP ())) ?Q" for installed
  proof (rule ok_spec_bind [OF ok_spec_raising [OF ok_spec_lift
          [where Q = "\<lambda>c tr. get_network_connections bl = Ok c \<and> tr = []"]]])
    show "ok_spec (if length c \<noteq> 0
       then if \<not> installed
         then report L K m (true_condition unreliably_scheduled ''MultiClusterNetworkResourceMissing''
                unreliable_message) (get_scheduling_decisions bl)
         else raising (register_network_links L K c)
       else retP ()) (\<lambda>_ tr. ?S c tr)" for c
      by (intro ok_spec_if ok_spec_report ok_spec_mono [OF ok_spec_raising [OF ok_register]] ok_spec_ret) simp_all
  qed auto
  have delete: "ok_spec (if b then raising (delete_network_links L K old) else retP ()) (\<lambda>_ _. True)" for b old
    by (rule ok_spec_emits [where P = no_work_write]) (intro emits_intros workless.emits_delete_links)
  note 1 = ok_spec_bind [OF delete last, where Q = ?Q]
  note 2 = ok_spec_bind [OF ok_spec_emits [OF emits_raising [OF emits_lift [of no_work_write]]] 1, where Q = ?Q]
  note 3 = ok_spec_bind [OF ok_spec_emits [OF emits_get [of no_work_write]] 2, where Q = ?Q]
  show ?thesis
    unfolding connect_bundles_def
    by (rule ok_spec_bind [OF ok_spec_emits [OF emits_raising [OF workless.emits_installed]] 3])
       (auto intro: network_sent_prefix)
qed

text \<open>
  The connections of a list of bundles were registered: if there are any, an update of the
  network resource was accepted that adds their links to those the server had.
\<close>

definition links_registered :: "lib \<Rightarrow> ('r, 'w) client \<Rightarrow> 'r bundle_list \<Rightarrow> 'r events \<Rightarrow> bool" where
  "links_registered L K bl tr \<longleftrightarrow>
     (\<exists>ncs. get_network_connections bl = Ok ncs \<and>
        (ncs \<noteq> [] \<longrightarrow> (\<exists>n n'. (UpdateNetwork n', True) \<in> set tr \<and> fetched K n \<and>
           mcn_links n' = register_links L ncs (mcn_links n))))"

lemma links_registered_mono: "links_registered L K bl tr \<Longrightarrow> set tr \<subseteq> set tr' \<Longrightarrow> links_registered L K bl tr'"
  unfolding links_registered_def by blast

lemma ok_connect_bundles: "ok_spec (connect_bundles L K m bl) (\<lambda>_ tr. links_registered L K bl tr)"
proof -
  have "links_registered L K bl tr"
    if "get_network_connections bl = Ok ncs"
      and "ncs \<noteq> [] \<longrightarrow> network_sent K (\<lambda>ls ls'. ls' = register_links L ncs ls) tr" for ncs tr
    using that unfolding links_registered_def network_sent_def by fastforce
  then show ?thesis by (intro ok_spec_mono [OF ok_connect]) blast
qed

end
