(* ===== verification/P2_Reachable.thy ===== *)
theory P2_Reachable
  imports P2_Connect
begin

text \<open>
  What the operator remembers between runs: the bundles of a manifest are stored only by a
  run that ends in success, and every stored bundle has at most one workload when it has
  connections. The latter is an invariant of the operator (runs, restarts, and changes of
  the cluster by others), so the stored bundles always have network connections to remove.
\<close>

section \<open>Validation of ManifestWorks\<close>

lemma fold_go_check:
  "fold_go (\<lambda>x _. if bad x then Fail (err x) else Ok ()) xs u = Ok v \<longleftrightarrow> (\<forall>x \<in> set xs. \<not> bad x)"
  by (induction xs arbitrary: u) auto

lemma fold_go_check_Fail:
  assumes "fold_go (\<lambda>x _. if bad x then Fail (err x) else Ok ()) xs u = Fail e"
  shows "\<exists>x \<in> set xs. bad x \<and> e = err x"
  using assms by (induction xs arbitrary: u) (auto split: if_splits)

lemma fold_go_unit_Ok:
  fixes f :: "'a \<Rightarrow> unit \<Rightarrow> ('e, unit) go"
  shows "fold_go f xs () = Ok () \<longleftrightarrow> (\<forall>x \<in> set xs. f x () = Ok ())"
  by (induction xs) (auto simp: bind_go_Ok_iff)

lemma validate_work_Ok_iff:
  "validate_manifest_work_applied w = Ok () \<longleftrightarrow>
     work_status w \<noteq> [] \<and> (\<forall>conds \<in> set (work_status w). \<forall>c \<in> set conds. \<not> condition_fails c)"
  unfolding validate_manifest_work_applied_def fold_go_unit_Ok
  by (auto simp: fold_go_unit_Ok fold_go_check)

section \<open>Success\<close>

text \<open>
  The server listed, under the owner label, as many ManifestWorks as there are bundles, and
  each was found applied.
\<close>

definition works_applied :: "lib \<Rightarrow> ('r, 'w) client \<Rightarrow> string \<Rightarrow> 'r bundle_list \<Rightarrow> 'r events \<Rightarrow> bool" where
  "works_applied L K owner bl tr \<longleftrightarrow>
     (\<exists>sel works w w'. owner_selector L owner = Inr sel \<and> (ListWorks sel, True) \<in> set tr \<and>
        cl_list_works K sel w = (Inr works, w') \<and> length works = length bl \<and>
        (\<forall>v \<in> set works. validate_manifest_work_applied v = Ok ()))"

definition placed_count :: "'r bundle_list \<Rightarrow> nat" where
  "placed_count bl = sum_list (map (\<lambda>b. length (bundle_resources b)) bl)"

text \<open>
  The last request is an accepted status SchedulingSuccessful with the decisions of \<open>bl\<close>,
  answered with a manifest of that name.
\<close>

definition success_reported ::
    "('r, 'w) client \<Rightarrow> 'r bundle_list \<Rightarrow> string \<Rightarrow> 'r events \<Rightarrow> ('r, 'w) sys \<Rightarrow> bool" where
  "success_reported K bl name tr s' \<longleftrightarrow>
     (\<exists>pre p m' w. tr = pre @ [(UpdateStatus p, True)] \<and> state (p2m_status p) = scheduling_successful \<and>
        decisions (p2m_status p) = get_scheduling_decisions bl \<and>
        cl_update_status K p w = (Inr m', sys_world s') \<and> name = p2m_name m')"

text \<open>The last stage with success: nothing is left over or absent, and the bundles are stored.\<close>

definition completes ::
    "('r, 'w) client \<Rightarrow> 'r p2m \<Rightarrow> 'r bundle_list \<Rightarrow> nat \<Rightarrow> ('r, 'w) sys \<Rightarrow> (stop, ctrl_result) go
       \<Rightarrow> 'r events \<Rightarrow> ('r, 'w) sys \<Rightarrow> bool" where
  "completes K m bl placed s r tr s' \<longleftrightarrow>
     r = Ok Done \<and> length (manifests (p2m_spec m)) \<le> placed \<and> (\<forall>b \<in> set bl. absent_resources b = []) \<and>
     (\<exists>name. success_reported K bl name tr s' \<and> sys_bundles s' = (sys_bundles s)(name \<mapsto> bl))"

definition stores_on_success ::
    "lib \<Rightarrow> ('r, 'w) client \<Rightarrow> string \<Rightarrow> 'r p2m \<Rightarrow> 'r bundle_list \<Rightarrow> ('r, 'w) sys \<Rightarrow> (stop, ctrl_result) go
       \<Rightarrow> 'r events \<Rightarrow> ('r, 'w) sys \<Rightarrow> bool" where
  "stores_on_success L K owner m bl s r tr s' \<longleftrightarrow>
     list_all2 (serves K owner) bl (work_writes tr) \<and> works_applied L K owner bl tr \<and>
     links_registered L K bl tr \<and> completes K m bl (placed_count bl) s r tr s'"

lemma absent_warning_empty_iff: "absent_resources_warning bl = '''' \<longleftrightarrow> (\<forall>b \<in> set bl. absent_resources b = [])"
  by (auto simp: absent_resources_warning_def)

lemma works_applied_mono: "works_applied L K owner bl tr \<Longrightarrow> set tr \<subseteq> set tr' \<Longrightarrow> works_applied L K owner bl tr'"
  unfolding works_applied_def by blast

lemma completes_prefix:
  assumes "sys_bundles s1 = sys_bundles s" and "completes K m bl n s1 r t2 s'"
  shows "completes K m bl n s r (t1 @ t2) s'"
  using assms unfolding completes_def success_reported_def by (metis append_assoc)

lemma stores_prefix:
  assumes "sys_bundles s1 = sys_bundles s" and "work_writes t1 = []"
    and "stores_on_success L K owner m bl s1 r t2 s'"
  shows "stores_on_success L K owner m bl s r (t1 @ t2) s'"
  using assms
  by (auto simp: stores_on_success_def intro: works_applied_mono links_registered_mono completes_prefix)

lemma ok_apply: "ok_spec (apply_bundles K owner bl) (\<lambda>n tr. n = placed_count bl)"
proof -
  have one: "ok_spec (apply_bundle K owner b n) (\<lambda>n' tr. n' = n + length (bundle_resources b))" for b n
  proof -
    have send: "ok_spec (raising (invoke c f)) (\<lambda>_ _. True)" for c :: "'a call" and f :: "'b \<Rightarrow> (api_error + unit) \<times> 'b"
      by (rule ok_spec_raising [OF ok_spec_invoke]) simp
    have step: "ok_spec (bindP (case q of
             Inl (Api (NotFound t)) \<Rightarrow> raising (invoke (CreateWork w) (cl_create_work K w))
           | Inl _ \<Rightarrow> raising (invoke (UpdateWork (zero_work\<lparr>work_spec := work_spec w\<rparr>))
               (cl_update_work K (zero_work\<lparr>work_spec := work_spec w\<rparr>)))
           | Inr old \<Rightarrow> raising (invoke (UpdateWork (old\<lparr>work_spec := work_spec w\<rparr>))
               (cl_update_work K (old\<lparr>work_spec := work_spec w\<rparr>)))) (\<lambda>_. retP k)) (\<lambda>n' tr. n' = k)" for q w k
      by (rule ok_spec_bind [OF _ ok_spec_ret [where Q = "\<lambda>n' tr. n' = k"], where ?Q1.0 = "\<lambda>_ _. True"])
         (auto split: sum.splits go_error.splits api_error.splits intro: send)
    show ?thesis
      unfolding apply_bundle_def Let_def
      by (rule ok_spec_bind [OF ok_spec_emits [OF emits_attempt [OF workless.emits_read]] step]) simp_all
  qed
  have "ok_spec (loopP (apply_bundle K owner) bl n) (\<lambda>n' tr. n' = n + placed_count bl)" for n
  proof (induction bl arbitrary: n)
    case Nil
    show ?case by (simp add: ok_spec_ret placed_count_def)
  next
    case (Cons b bl)
    show ?case
      unfolding loopP.simps by (rule ok_spec_bind [OF one Cons.IH]) (simp add: placed_count_def)
  qed
  from this [of 0] show ?thesis by (simp add: apply_bundles_def)
qed

lemma ok_check_work: "ok_spec (check_work L K m bl w u) (\<lambda>_ tr. validate_manifest_work_applied w = Ok ())"
proof (cases "validate_manifest_work_applied w")
  case (Fail e)
  have "ok_spec (bindP (raising (liftP (sentence_case (error_text e)))) (\<lambda>text.
      report L K m (true_condition scheduling_failed ''ManifestWorkFailed'' text)
        (get_scheduling_decisions bl))) (\<lambda>(_ :: unit) tr. False)"
    by (rule ok_spec_bind [OF ok_spec_raising [OF ok_spec_lift [where Q = "\<lambda>_ _. True"]]
          ok_spec_report [where Q = "\<lambda>_ _. False"]]) simp_all
  with Fail show ?thesis by (simp add: check_work_def ok_spec_stop ok_spec_failP)
next
  case Panic
  have "ok_spec (liftP Panic) (\<lambda>_ tr. False)" by (rule ok_spec_lift) simp
  with Panic show ?thesis by (simp add: check_work_def)
qed (simp add: check_work_def ok_spec_ret)

lemma ok_check_works: "ok_spec (check_works L K owner m bl) (\<lambda>_ tr. works_applied L K owner bl tr)"
proof -
  have list: "ok_spec (raising (get_owned_manifest_work_list L K owner))
      (\<lambda>ws tr. \<exists>sel w w'. owner_selector L owner = Inr sel \<and> cl_list_works K sel w = (Inr ws, w') \<and>
         (ListWorks sel, True) \<in> set tr)"
    unfolding get_owned_manifest_work_list_def
    by (rule ok_spec_raising) (auto split: sum.splits intro: ok_spec_failP intro!: ok_spec_invoke)
  have loop: "ok_spec (loopP (check_work L K m bl) ws u)
      (\<lambda>_ tr. \<forall>v \<in> set ws. validate_manifest_work_applied v = Ok ())" for ws u
  proof (induction ws arbitrary: u)
    case Nil
    show ?case by (simp add: ok_spec_ret)
  next
    case (Cons w ws)
    show ?case
      unfolding loopP.simps by (rule ok_spec_bind [OF ok_check_work Cons.IH]) auto
  qed
  have rest: "ok_spec (if length bl \<noteq> length ws then stop_with (RequeueAfter requeue_delay)
      else loopP (check_work L K m bl) ws ()) (\<lambda>_ tr. length bl = length ws \<and>
        (\<forall>v \<in> set ws. validate_manifest_work_applied v = Ok ()))" for ws
    by (rule ok_spec_if) (auto intro: ok_spec_stop loop)
  show ?thesis
    unfolding check_works_def
    by (rule ok_spec_bind [OF list rest]) (simp add: works_applied_def, metis)
qed

lemma run_complete:
  "run_spec (complete L K m bl n) (\<lambda>s r tr s'. sys_bundles s' = sys_bundles s \<or> completes K m bl n s r tr s')"
  unfolding complete_def Let_def
proof (rule run_spec_if)
  show "run_spec (report L K m (final_condition m bl n) (get_scheduling_decisions bl))
      (\<lambda>s r tr s'. sys_bundles s' = sys_bundles s \<or> completes K m bl n s r tr s')"
    by (rule run_spec_mono [OF run_spec_emits [OF reporting.emits_report]]) simp
next
  assume "\<not> (n < length (manifests (p2m_spec m)) \<or> absent_resources_warning bl \<noteq> '''')"
  then have n: "length (manifests (p2m_spec m)) \<le> n" and absent: "\<forall>b \<in> set bl. absent_resources b = []"
    and fc: "cond_type (final_condition m bl n) = scheduling_successful"
    by (auto simp: absent_warning_empty_iff final_condition_def true_condition_def)
  have reported: "success_reported K bl (p2m_name m') (pre @ [(UpdateStatus p, True)]) s'"
    if "p = with_status L (final_condition m bl n) (get_scheduling_decisions bl) q"
      "cl_update_status K p w = (Inr m', sys_world s')" for pre p q w m' s'
    using that unfolding success_reported_def by (fastforce simp: with_status_def fc)
  let ?U = "\<lambda>m' s tr s'. sys_bundles s' = sys_bundles s \<and>
     (\<forall>s''. sys_world s'' = sys_world s' \<longrightarrow> success_reported K bl (p2m_name m') tr s'')"
  have upd: "run_spec (raising (update_status L K m (final_condition m bl n) (get_scheduling_decisions bl)))
      (\<lambda>s r tr s'. sys_bundles s' = sys_bundles s \<and> (\<forall>m'. r = Ok m' \<longrightarrow> ?U m' s tr s'))"
    by (rule run_spec_raising [OF run_update_status])
       (auto simp: reported [where pre = "[_]", simplified])
  have store: "run_spec (bindP (modifyP (\<lambda>s. s\<lparr>sys_bundles := (sys_bundles s)(p2m_name m' \<mapsto> bl)\<rparr>)) (\<lambda>_. retP Done))
      (\<lambda>s r tr s'. r = Ok Done \<and> tr = [] \<and> sys_bundles s' = (sys_bundles s)(p2m_name m' \<mapsto> bl) \<and>
         sys_world s' = sys_world s)" for m'
    by (rule run_spec_bind [OF run_spec_modify run_spec_ret]) auto
  show "run_spec (bindP (raising (update_status L K m (final_condition m bl n) (get_scheduling_decisions bl)))
      (\<lambda>m'. bindP (modifyP (\<lambda>s. s\<lparr>sys_bundles := (sys_bundles s)(p2m_name m' \<mapsto> bl)\<rparr>)) (\<lambda>_. retP Done)))
    (\<lambda>s r tr s'. sys_bundles s' = sys_bundles s \<or> completes K m bl n s r tr s')"
    by (rule run_spec_bind [OF upd store]) (use n absent in \<open>auto simp: completes_def\<close>)
qed

lemma run_roll_out:
  "run_spec (roll_out L K m bl) (\<lambda>s r tr s'. sys_bundles s' = sys_bundles s \<or>
     stores_on_success L K (sys_owner s) m bl s r tr s')"
proof -
  have clean: "run_spec (clean_up_old_bundles K (p2m_name m) bl) (\<lambda>s r tr s'. sys_bundles s' = sys_bundles s \<and>
      sys_owner s' = sys_owner s \<and> work_writes tr = [])"
    by (rule run_spec_mono [OF run_spec_emits [OF workless.emits_clean_up]]) (simp add: work_writes_none_iff)
  have connect: "run_spec (connect_bundles L K m bl) (\<lambda>s r tr s'. sys_bundles s' = sys_bundles s \<and>
      work_writes tr = [] \<and> (\<forall>x. r = Ok x \<longrightarrow> links_registered L K bl tr))"
    by (rule run_spec_mono [OF run_spec_ok [OF workless.emits_connect ok_connect_bundles]])
       (simp add: work_writes_none_iff)
  have check: "run_spec (check_works L K owner m bl) (\<lambda>s r tr s'. sys_bundles s' = sys_bundles s \<and>
      work_writes tr = [] \<and> (\<forall>x. r = Ok x \<longrightarrow> works_applied L K owner bl tr))" for owner
    by (rule run_spec_mono [OF run_spec_ok [OF workless.emits_check_works ok_check_works]])
       (simp add: work_writes_none_iff)
  have app: "run_spec (apply_bundles K owner bl) (\<lambda>s r tr s'. sys_bundles s' = sys_bundles s \<and>
      (\<forall>n. r = Ok n \<longrightarrow> n = placed_count bl \<and> list_all2 (serves K owner) bl (work_writes tr)))" for owner
    by (rule run_spec_mono [OF run_spec_conj [OF run_spec_ok [OF emits_apply ok_apply] run_apply]]) simp
  have last: "run_spec (complete L K m bl n) (\<lambda>s r tr s'. work_writes tr = [] \<and>
      (sys_bundles s' = sys_bundles s \<or> completes K m bl n s r tr s'))" for n
    by (rule run_spec_mono [OF run_spec_conj [OF run_spec_sends [OF workless.sends_complete] run_complete]])
       (simp add: work_writes_none_iff)
  let ?S = "\<lambda>n s r tr s'. work_writes tr = [] \<and> (sys_bundles s' = sys_bundles s \<or>
      links_registered L K bl tr \<and> completes K m bl n s r tr s')"
  have 1: "run_spec (bindP (connect_bundles L K m bl) (\<lambda>_. complete L K m bl n)) (?S n)" for n
    by (rule run_spec_bind [OF connect last]) (auto intro: links_registered_mono completes_prefix)
  have 2: "run_spec (bindP (check_works L K owner m bl) (\<lambda>_. bindP (connect_bundles L K m bl) (\<lambda>_. complete L K m bl n)))
      (\<lambda>s r tr s'. ?S n s r tr s' \<and> (sys_bundles s' = sys_bundles s \<or> works_applied L K owner bl tr))" for owner n
    by (rule run_spec_bind [OF check 1]) (auto intro: works_applied_mono links_registered_mono completes_prefix)
  have 3: "run_spec (bindP (apply_bundles K owner bl) (\<lambda>placed. bindP (check_works L K owner m bl) (\<lambda>_.
      bindP (connect_bundles L K m bl) (\<lambda>_. complete L K m bl placed))))
      (\<lambda>s r tr s'. sys_bundles s' = sys_bundles s \<or> stores_on_success L K owner m bl s r tr s')" for owner
    by (rule run_spec_bind [OF app 2])
       (auto simp: stores_on_success_def intro: works_applied_mono links_registered_mono completes_prefix)
  have 4: "run_spec (bindP (getP sys_owner) (\<lambda>owner. bindP (apply_bundles K owner bl) (\<lambda>placed.
      bindP (check_works L K owner m bl) (\<lambda>_. bindP (connect_bundles L K m bl) (\<lambda>_. complete L K m bl placed)))))
      (\<lambda>s r tr s'. sys_bundles s' = sys_bundles s \<or> stores_on_success L K (sys_owner s) m bl s r tr s')"
    by (rule run_spec_bind [OF run_spec_get 3]) auto
  show ?thesis
    unfolding roll_out_def by (rule run_spec_bind [OF clean 4]) (auto intro: stores_prefix)
qed

section \<open>The bundles after a run\<close>

text \<open>
  A deletion forgets the bundles of the manifest the server answered a status update of the
  run with.
\<close>

definition forgotten :: "('r, 'w) client \<Rightarrow> ('r, 'w) sys \<Rightarrow> 'r events \<Rightarrow> ('r, 'w) sys \<Rightarrow> bool" where
  "forgotten K s tr s' \<longleftrightarrow>
     (\<exists>p m' w w'. (UpdateStatus p, True) \<in> set tr \<and> state (p2m_status p) = finalizing \<and>
        cl_update_status K p w = (Inr m', w') \<and> sys_bundles s' = delete_bundles (sys_bundles s) (p2m_name m'))"

text \<open>
  The three things a run for \<open>req\<close> can do to the stored bundles: nothing; forget those of
  the manifest it deletes, after the clean-up under the label of the manifest it has read;
  or store the bundles of the manifest it has scheduled.
\<close>

definition bundles_after ::
    "'r codec \<Rightarrow> lib \<Rightarrow> ('r, 'w) client \<Rightarrow> namespaced_name \<Rightarrow> ('r, 'w) sys \<Rightarrow> (stop, ctrl_result) go
       \<Rightarrow> 'r events \<Rightarrow> ('r, 'w) sys \<Rightarrow> bool" where
  "bundles_after C L K req s r tr s' \<longleftrightarrow>
     sys_bundles s' = sys_bundles s \<or>
     (\<exists>m w owner. started L K req (sys_world s) m owner w \<and> cleaned_up L K owner tr \<and> forgotten K s tr s') \<or>
     (\<exists>m owner m' bl. scheduled_manifest L K req (sys_world s) m owner \<and> authorised C L K tr m bl \<and>
        rolled_manifest K tr m bl m' \<and> stores_on_success L K owner m' bl s r tr s')"

definition schedule_stores ::
    "'r codec \<Rightarrow> lib \<Rightarrow> ('r, 'w) client \<Rightarrow> 'r p2m \<Rightarrow> ('r, 'w) sys \<Rightarrow> (stop, ctrl_result) go
       \<Rightarrow> 'r events \<Rightarrow> ('r, 'w) sys \<Rightarrow> bool" where
  "schedule_stores C L K m s r tr s' \<longleftrightarrow> sys_bundles s' = sys_bundles s \<or>
     (\<exists>m' bl. authorised C L K tr m bl \<and> rolled_manifest K tr m bl m' \<and>
        stores_on_success L K (sys_owner s) m' bl s r tr s')"

lemma schedule_stores_prefix:
  assumes "sys_bundles s1 = sys_bundles s" and "sys_owner s1 = sys_owner s" and "work_writes t1 = []"
    and "schedule_stores C L K m s1 r t2 s'"
  shows "schedule_stores C L K m s r (t1 @ t2) s'"
proof (cases "sys_bundles s' = sys_bundles s1")
  case False
  with assms(4) obtain m' bl where "authorised C L K t2 m bl" "rolled_manifest K t2 m bl m'"
    "stores_on_success L K (sys_owner s1) m' bl s1 r t2 s'" unfolding schedule_stores_def by blast
  then have "authorised C L K (t1 @ t2) m bl" "rolled_manifest K (t1 @ t2) m bl m'"
    "stores_on_success L K (sys_owner s) m' bl s r (t1 @ t2) s'"
    using assms(1-3) by (auto elim: authorised_mono rolled_manifest_mono intro: stores_prefix)
  then show ?thesis unfolding schedule_stores_def by blast
qed (use assms(1) in \<open>simp add: schedule_stores_def\<close>)

lemma run_schedule_bundles: "run_spec (schedule C L K m) (schedule_stores C L K m)"
proof -
  have validate: "run_spec (validate_manifest L K m) (\<lambda>s r tr s'. sys_bundles s' = sys_bundles s \<and>
      sys_owner s' = sys_owner s \<and> work_writes tr = [] \<and>
      (\<forall>t. r = Ok t \<longrightarrow> extract_target (global_annotations (p2m_spec m)) = Ok t))"
    by (rule run_spec_mono [OF run_spec_ok [OF workless.emits_validate ok_validate]]) (simp add: work_writes_none_iff)
  have rest: "run_spec (bindP (choose_clusters C L K m n c) (\<lambda>mb. roll_out L K (fst mb) (snd mb)))
      (\<lambda>s r tr s'. extract_target (global_annotations (p2m_spec m)) = Ok (n, c) \<longrightarrow> schedule_stores C L K m s r tr s')" for n c
  proof (cases "extract_target (global_annotations (p2m_spec m)) = Ok (n, c)")
    case True
    have choose: "run_spec (choose_clusters C L K m n c) (\<lambda>s r tr s'. sys_bundles s' = sys_bundles s \<and>
        sys_owner s' = sys_owner s \<and> work_writes tr = [] \<and>
        (\<forall>mb. r = Ok mb \<longrightarrow> authorised C L K tr m (snd mb) \<and> rolled_manifest K tr m (snd mb) (fst mb)))"
      by (rule run_spec_mono [OF run_spec_ok [OF workless.emits_choose ok_choose [OF True]]])
         (simp add: work_writes_none_iff)
    have step: "schedule_stores C L K m s r (t1 @ t2) s'"
      if "sys_bundles s1 = sys_bundles s" "sys_owner s1 = sys_owner s" "work_writes t1 = []"
        "authorised C L K t1 m bl" "rolled_manifest K t1 m bl m'"
        "sys_bundles s' = sys_bundles s1 \<or> stores_on_success L K (sys_owner s) m' bl s1 r t2 s'" for s s1 r t1 t2 s' bl m'
    proof (cases "sys_bundles s' = sys_bundles s1")
      case False
      with that(6) have "stores_on_success L K (sys_owner s) m' bl s1 r t2 s'" by blast
      then have "stores_on_success L K (sys_owner s) m' bl s r (t1 @ t2) s'" using that(1-3) by (auto intro: stores_prefix)
      moreover have "authorised C L K (t1 @ t2) m bl" by (rule authorised_mono [OF that(4)]) simp
      moreover have "rolled_manifest K (t1 @ t2) m bl m'" by (rule rolled_manifest_mono [OF that(5)]) simp
      ultimately show ?thesis unfolding schedule_stores_def by blast
    qed (use that(1) in \<open>simp add: schedule_stores_def\<close>)
    show ?thesis
      by (rule run_spec_bind [OF choose run_roll_out]) (auto intro: step, simp_all add: schedule_stores_def)
  next
    case False
    have "run_spec (choose_clusters C L K m n c) (\<lambda>s r tr s'. True)"
      by (rule run_spec_mono [OF run_spec_emits [OF workless.emits_choose]]) simp
    with False show ?thesis by (intro run_spec_bind [OF _ run_roll_out]) auto
  qed
  have "run_spec (bindP (validate_manifest L K m) (\<lambda>t. bindP (choose_clusters C L K m (fst t) (snd t))
      (\<lambda>mb. roll_out L K (fst mb) (snd mb)))) (schedule_stores C L K m)"
    by (rule run_spec_bind [OF validate rest]) (auto intro: schedule_stores_prefix, simp_all add: schedule_stores_def)
  then show ?thesis by (simp add: schedule_def case_prod_beta')
qed

text \<open>The stages before: only a deletion changes the stored bundles.\<close>

lemma run_finalize_forgets:
  fixes K :: "('r, 'w) client"
  shows "run_spec (finalize L K m) (\<lambda>s r tr s'. sys_bundles s' = sys_bundles s \<or>
     cleaned_up L K (sys_owner s) tr \<and> forgotten K s tr s')"
proof -
  have status: "run_spec (raising (update_status L K m (true_condition finalizing x y) [])) (\<lambda>s r tr s'.
      sys_bundles s' = sys_bundles s \<and> (\<forall>m'. r = Ok m' \<longrightarrow> (\<exists>p w w'. (UpdateStatus p, True) \<in> set tr \<and>
        state (p2m_status p) = finalizing \<and> cl_update_status K p w = (Inr m', w'))))" for x y
    by (rule run_spec_raising [OF run_update_status]) (fastforce simp: with_status_def true_condition_def)+
  have release: "run_spec (release L K m) (\<lambda>s r tr s'. sys_bundles s' = sys_bundles s)" for m
    by (rule run_spec_mono [OF run_spec_emits [OF workless.emits_release]]) simp
  let ?F = "\<lambda>m s r tr s'. sys_bundles s' = sys_bundles s \<or> sys_bundles s' = delete_bundles (sys_bundles s) (p2m_name m)"
  have 1: "run_spec (bindP (modifyP (\<lambda>s. s\<lparr>sys_bundles := delete_bundles (sys_bundles s) (p2m_name m)\<rparr>)) (\<lambda>_. release L K m))
      (?F m)" for m
    by (rule run_spec_bind [OF run_spec_modify release]) auto
  have same: "run_spec p (\<lambda>s r tr s'. sys_bundles s' = sys_bundles s)" if "emits no_work_write p" for p :: "('r, 'w, stop, 'c) sysP"
    by (rule run_spec_mono [OF run_spec_emits [OF that]]) simp
  have 2: "run_spec (bindP (if b then remove_stored_links L K (p2m_name m) else retP ()) (\<lambda>_.
      bindP (modifyP (\<lambda>s. s\<lparr>sys_bundles := delete_bundles (sys_bundles s) (p2m_name m)\<rparr>)) (\<lambda>_. release L K m))) (?F m)" for b m
    by (rule run_spec_bind [OF same [OF emits_if [OF workless.emits_remove_links emits_ret]] 1]) auto
  have 3: "run_spec (bindP (raising (is_multi_cluster_network_installed K)) (\<lambda>b.
      bindP (if b then remove_stored_links L K (p2m_name m) else retP ()) (\<lambda>_.
      bindP (modifyP (\<lambda>s. s\<lparr>sys_bundles := delete_bundles (sys_bundles s) (p2m_name m)\<rparr>)) (\<lambda>_. release L K m)))) (?F m)" for m
    by (rule run_spec_bind [OF same [OF emits_raising [OF workless.emits_installed]] 2]) auto
  have 4: "run_spec (bindP (raising (delete_owned_manifest_work_list L K owner)) (\<lambda>_.
      bindP (raising (is_multi_cluster_network_installed K)) (\<lambda>b.
      bindP (if b then remove_stored_links L K (p2m_name m) else retP ()) (\<lambda>_.
      bindP (modifyP (\<lambda>s. s\<lparr>sys_bundles := delete_bundles (sys_bundles s) (p2m_name m)\<rparr>)) (\<lambda>_. release L K m))))) (?F m)" for owner m
    by (rule run_spec_bind [OF same [OF emits_raising [OF workless.emits_delete_owned]] 3]) auto
  have 5: "run_spec (bindP (getP sys_owner) (\<lambda>owner. bindP (raising (delete_owned_manifest_work_list L K owner)) (\<lambda>_.
      bindP (raising (is_multi_cluster_network_installed K)) (\<lambda>b.
      bindP (if b then remove_stored_links L K (p2m_name m) else retP ()) (\<lambda>_.
      bindP (modifyP (\<lambda>s. s\<lparr>sys_bundles := delete_bundles (sys_bundles s) (p2m_name m)\<rparr>)) (\<lambda>_. release L K m)))))) (?F m)" for m
    by (rule run_spec_bind [OF run_spec_get 4]) auto
  have "run_spec (finalize L K m) (\<lambda>s r tr s'. sys_bundles s' = sys_bundles s \<or> forgotten K s tr s')"
    unfolding finalize_def
  proof (rule run_spec_bind [OF status 5])
    fix s s1 s' :: "('r, 'w) sys" and m1 :: "'r p2m" and t1 t2 :: "'r events"
    assume 1: "sys_bundles s1 = sys_bundles s \<and> (\<forall>m'. Ok m1 = Ok m' \<longrightarrow> (\<exists>p w w'. (UpdateStatus p, True) \<in> set t1 \<and>
        state (p2m_status p) = finalizing \<and> cl_update_status K p w = (Inr m', w')))"
      and 2: "sys_bundles s' = sys_bundles s1 \<or> sys_bundles s' = delete_bundles (sys_bundles s1) (p2m_name m1)"
    from 1 obtain p w w' where "(UpdateStatus p, True) \<in> set (t1 @ t2)" "state (p2m_status p) = finalizing"
      "cl_update_status K p w = (Inr m1, w')" by auto
    with 1 2 show "sys_bundles s' = sys_bundles s \<or> forgotten K s (t1 @ t2) s'"
      unfolding forgotten_def by auto
  qed simp_all
  then show ?thesis
    by (rule run_spec_mono [OF run_spec_conj [OF run_finalize]])
       (auto simp: clean_phase_def quiet_run_def dest: cleaned_up_extend [where pre = "[]", simplified])
qed

lemma run_deletion_bundles:
  "run_spec (handle_deletion L K m) (\<lambda>s r tr s'. sys_bundles s' = sys_bundles s \<or>
     cleaned_up L K (sys_owner s) tr \<and> forgotten K s tr s')"
  unfolding handle_deletion_def
  by (intro run_spec_if run_finalize_forgets) (unfold stop_with_def,
      rule run_spec_mono [OF run_spec_fail], simp, rule run_spec_mono [OF run_spec_ret], simp)

lemma run_start_bundles: "run_spec (start_reconcile L K req) (\<lambda>s r tr s'. sys_bundles s' = sys_bundles s)"
proof -
  have update: "run_spec (case get_in_progress_state m of None \<Rightarrow> retP m | Some c \<Rightarrow> raising (update_status L K m c []))
      (\<lambda>s r tr s'. sys_bundles s' = sys_bundles s)" for m
    by (rule run_spec_mono [OF run_spec_emits [where P = only_reports]])
       (intro emits_intros reporting.emits_update_status, simp)
  have label: "run_spec (bindP (modifyP (\<lambda>s. s\<lparr>sys_owner := owner\<rparr>)) (\<lambda>_. case get_in_progress_state m of
      None \<Rightarrow> retP m | Some c \<Rightarrow> raising (update_status L K m c []))) (\<lambda>s r tr s'. sys_bundles s' = sys_bundles s)" for owner m
    by (rule run_spec_bind [OF run_spec_modify update]) auto
  have name: "run_spec (bindP (raising (liftP (truncate_name_if_needed L (p2m_name m)))) (\<lambda>owner.
      bindP (modifyP (\<lambda>s. s\<lparr>sys_owner := owner\<rparr>)) (\<lambda>_. case get_in_progress_state m of
      None \<Rightarrow> retP m | Some c \<Rightarrow> raising (update_status L K m c []))))
      (\<lambda>s r tr s'. sys_bundles s' = sys_bundles s)" for m
    by (rule run_spec_bind [OF run_spec_mono [OF run_spec_emits [OF emits_raising [OF emits_lift]]] label]) auto
  have fails: "run_spec (failP e) (\<lambda>s r tr s'. sys_bundles s' = sys_bundles s)"
    "run_spec (stop_with q) (\<lambda>s r tr s'. sys_bundles s' = sys_bundles s)" for e q
    by (simp_all add: run_spec_def failP_def stop_with_def)
  show ?thesis
    unfolding start_reconcile_def
    by (rule run_spec_bind [OF run_spec_emits [OF emits_attempt [OF emits_invoke [of "\<lambda>_. True"]]],
          where ?Q2.0 = "\<lambda>x s r tr s'. sys_bundles s' = sys_bundles s"])
       (use name in \<open>auto split: sum.splits go_error.splits api_error.splits intro: fails\<close>)
qed

lemma forgotten_prefix:
  assumes "sys_bundles s1 = sys_bundles s" and "forgotten K s1 t2 s'"
  shows "forgotten K s (t1 @ t2) s'"
  using assms unfolding forgotten_def by auto

lemma run_approach_bundles:
  "run_spec (approach L K req) (\<lambda>s r tr s'. work_writes tr = [] \<and> (\<forall>m. r = Ok m \<longrightarrow> sys_bundles s' = sys_bundles s) \<and>
     (sys_bundles s' = sys_bundles s \<or>
      (\<exists>m w owner. started L K req (sys_world s) m owner w \<and> cleaned_up L K owner tr \<and> forgotten K s tr s')))"
proof -
  let ?F = "\<lambda>s r tr s'. (\<forall>m. r = Ok m \<longrightarrow> sys_bundles s' = sys_bundles s) \<and> (sys_bundles s' = sys_bundles s \<or>
     cleaned_up L K (sys_owner s) tr \<and> forgotten K s tr s')"
  have extend: "cleaned_up L K owner (t1 @ t2)" if "cleaned_up L K owner t2" for owner t1 t2
    using cleaned_up_extend [OF that, of t1 "[]"] by simp
  have start: "run_spec (start_reconcile L K req) (\<lambda>s r tr s'. sys_bundles s' = sys_bundles s \<and>
      (\<forall>m. r = Ok m \<longrightarrow> started L K req (sys_world s) m (sys_owner s') (sys_world s')))"
    by (rule run_spec_mono [OF run_spec_conj [OF run_start_bundles run_started]]) simp
  have ns: "run_spec (check_namespace L K req m) (\<lambda>s r tr s'. sys_bundles s' = sys_bundles s \<and> sys_owner s' = sys_owner s)" for m
    by (rule run_spec_mono [OF run_spec_emits [OF workless.emits_namespace]]) simp
  have fin: "run_spec (ensure_finalizer L K req m) (\<lambda>s r tr s'. sys_bundles s' = sys_bundles s \<and> sys_owner s' = sys_owner s)" for m
    by (rule run_spec_mono [OF run_spec_emits [OF workless.emits_ensure_finalizer]]) simp
  have 1: "run_spec (bindP (handle_deletion L K m) (\<lambda>_. retP m)) ?F" for m
    by (rule run_spec_bind [OF run_spec_conj [OF run_deletion_bundles run_deletion_result] run_spec_ret]) auto
  have 2: "run_spec (bindP (ensure_finalizer L K req m0) (\<lambda>m. bindP (handle_deletion L K m) (\<lambda>_. retP m))) ?F" for m0
    by (rule run_spec_bind [OF fin 1]) (auto intro: extend forgotten_prefix)
  have 3: "run_spec (bindP (check_namespace L K req m0) (\<lambda>_. bindP (ensure_finalizer L K req m0)
      (\<lambda>m. bindP (handle_deletion L K m) (\<lambda>_. retP m)))) ?F" for m0
    by (rule run_spec_bind [OF ns 2]) (auto intro: extend forgotten_prefix)
  have "run_spec (approach L K req) (\<lambda>s r tr s'. (\<forall>m. r = Ok m \<longrightarrow> sys_bundles s' = sys_bundles s) \<and>
     (sys_bundles s' = sys_bundles s \<or>
      (\<exists>m w owner. started L K req (sys_world s) m owner w \<and> cleaned_up L K owner tr \<and> forgotten K s tr s')))"
    unfolding approach_def
    by (rule run_spec_bind [OF start 3]) (auto, (blast intro: extend forgotten_prefix)+)
  from run_spec_conj [OF run_spec_sends [OF workless.sends_approach] this] show ?thesis
    by (rule run_spec_mono) (simp add: work_writes_none_iff)
qed

section \<open>The operator\<close>

text \<open>
  The states of the operator: it starts with no bundles, a run of \<open>Reconcile\<close> for some
  request changes its state, a restart forgets the fields of the reconciler, and between
  the runs others may change the world in any way.
\<close>

inductive reachable :: "'r codec \<Rightarrow> lib \<Rightarrow> ('r, 'w) client \<Rightarrow> ('r, 'w) sys \<Rightarrow> bool" for C L K where
  start: "reachable C L K \<lparr>sys_world = w, sys_bundles = Map.empty, sys_owner = '''', sys_trace = []\<rparr>"
| run: "reachable C L K s \<Longrightarrow> reconcile C L K req s = (r, s') \<Longrightarrow> reachable C L K s'"
| restart: "reachable C L K s \<Longrightarrow> reachable C L K (s\<lparr>sys_bundles := Map.empty, sys_owner := ''''\<rparr>)"
| others: "reachable C L K s \<Longrightarrow> reachable C L K (s\<lparr>sys_world := w\<rparr>)"

lemma run_reconcile_bundles:
  fixes K :: "('r, 'w) client"
  shows "run_spec (reconcile C L K req) (\<lambda>s r tr s'. \<exists>q. r = outcome q \<and> bundles_after C L K req s q tr s')"
proof (rule run_reconcile_by_stages [OF run_approach_bundles run_schedule_bundles])
  fix s m t1 s1 r t2 s'
  assume "work_writes t1 = [] \<and> (\<forall>y. Ok m = Ok y \<longrightarrow> sys_bundles s1 = sys_bundles s) \<and>
     (sys_bundles s1 = sys_bundles s \<or>
      (\<exists>m w owner. started L K req (sys_world s) m owner w \<and> cleaned_up L K owner t1 \<and> forgotten K s t1 s1))"
    and sched: "scheduled_manifest L K req (sys_world s) m (sys_owner s1)"
    and stores: "schedule_stores C L K m s1 r t2 s'"
  then have "work_writes t1 = []" "sys_bundles (s1\<lparr>sys_owner := sys_owner s1\<rparr>) = sys_bundles s" by auto
  show "bundles_after C L K req s r (t1 @ t2) s'"
  proof (cases "sys_bundles s' = sys_bundles s1")
    case True
    with \<open>sys_bundles (s1\<lparr>sys_owner := sys_owner s1\<rparr>) = sys_bundles s\<close> show ?thesis by (simp add: bundles_after_def)
  next
    case False
    with stores obtain m' bl where "authorised C L K t2 m bl" "rolled_manifest K t2 m bl m'"
      "stores_on_success L K (sys_owner s1) m' bl s1 r t2 s'" unfolding schedule_stores_def by blast
    then have "authorised C L K (t1 @ t2) m bl" "rolled_manifest K (t1 @ t2) m bl m'"
      "stores_on_success L K (sys_owner s1) m' bl s r (t1 @ t2) s'"
      using \<open>work_writes t1 = []\<close> \<open>sys_bundles (s1\<lparr>sys_owner := sys_owner s1\<rparr>) = sys_bundles s\<close>
      by (auto elim: authorised_mono rolled_manifest_mono intro: stores_prefix)
    with sched show ?thesis unfolding bundles_after_def by blast
  qed
next
  fix s s' :: "('r, 'w) sys" and r :: "(stop, 'r p2m) go" and t
  assume "work_writes t = [] \<and> (\<forall>m. r = Ok m \<longrightarrow> sys_bundles s' = sys_bundles s) \<and>
     (sys_bundles s' = sys_bundles s \<or>
      (\<exists>m w owner. started L K req (sys_world s) m owner w \<and> cleaned_up L K owner t \<and> forgotten K s t s'))"
  then show "bundles_after C L K req s (case r of Fail e \<Rightarrow> Fail e | _ \<Rightarrow> Panic) t s'"
    unfolding bundles_after_def by blast
qed

text \<open>A list of bundles that was not stored before has its links registered.\<close>

lemma new_bundles_registered:
  assumes "bundles_after C L K req s r tr s'" and "sys_bundles s' name = Some bl" and "sys_bundles s name \<noteq> Some bl"
  shows "links_registered L K bl tr"
  using assms unfolding bundles_after_def forgotten_def delete_bundles_def stores_on_success_def completes_def
  by (elim disjE exE conjE) (auto split: if_splits)

lemma set_cluster_simps [simp]:
  "bundle_name (set_cluster c b) = bundle_name b" "bundle_resources (set_cluster c b) = bundle_resources b"
  "absent_resources (set_cluster c b) = absent_resources b"
  "external_connections (set_cluster c b) = external_connections b"
  by (simp_all add: set_cluster_def)

lemma set_cluster_connectable [simp]: "connectable (set_cluster c b) = connectable b"
  by (simp add: connectable_def bundle_workloads_def)

lemma assigned_well_bundled:
  assumes "list_all2 (assigned K tr) built bl" and "well_bundled built"
  shows "well_bundled bl"
proof -
  have "\<exists>c. b' = set_cluster c b" if "assigned K tr b b'" for b b'
    using that by (auto simp: assigned_def)
  with assms(1) have rel: "list_all2 (\<lambda>b b'. \<exists>c. b' = set_cluster c b) built bl"
    by (auto elim: list_all2_mono)
  have "map bundle_name bl = map bundle_name built \<and>
    (\<forall>b' \<in> set bl. \<exists>b \<in> set built. \<exists>c. b' = set_cluster c b)"
    using rel by (induction rule: list_all2_induct) auto
  with assms(2) show ?thesis unfolding well_bundled_def by fastforce
qed

lemma authorised_well_bundled:
  assumes "authorised C L K tr m bl"
  shows "well_bundled bl"
proof -
  from assms consider cluster where "placed_by_target C L m cluster bl" | "placed_by_decision C L K tr m bl"
    unfolding authorised_def by blast
  then show ?thesis
  proof cases
    case (1 cluster)
    then obtain resources rn where conv: "bulk_convert_to_resource_set C L (manifests (p2m_spec m)) = Ok resources"
      and bl: "bl = [\<lparr>bundle_name = p2m_name m, bundle_resources = resources, absent_resources = [],
             external_connections = [],
             scheduling_details = zero_details\<lparr>cluster_name := cluster, resource_name := rn\<rparr>\<rparr>]"
      by (auto simp: placed_by_target_def bundle_for_target_def bind_go_Ok_iff add_bundle_def)
    with bulk_convert_sound [OF conv] show ?thesis by (simp add: well_bundled_def connectable_def)
  next
    case 2
    then obtain built where "build_and_update_bundles C L [] m = Ok built" "list_all2 (decided L K tr m) built bl"
      unfolding placed_by_decision_def by blast
    moreover from this(2) have "list_all2 (assigned K tr) built bl"
      by (rule list_all2_mono) (rule decided_assigned)
    ultimately show ?thesis using assigned_well_bundled build_well by blast
  qed
qed

definition remembered_well :: "(string \<rightharpoonup> 'r bundle_list) \<Rightarrow> bool" where
  "remembered_well bundles \<longleftrightarrow>
     (\<forall>name bl. bundles name = Some bl \<longrightarrow> well_bundled bl \<and> (\<forall>b \<in> set bl. absent_resources b = []))"

lemma remembered_well_after:
  assumes "bundles_after C L K req s r tr s'" and "remembered_well (sys_bundles s)"
  shows "remembered_well (sys_bundles s')"
  using assms authorised_well_bundled
  unfolding bundles_after_def forgotten_def delete_bundles_def stores_on_success_def completes_def remembered_well_def
  by (elim disjE exE conjE) (auto split: if_splits)

lemma reachable_remembered_well: "reachable C L K s \<Longrightarrow> remembered_well (sys_bundles s)"
proof (induction rule: reachable.induct)
  case (run s req r s')
  from run_specD [OF run_reconcile_bundles run.hyps(2)] obtain tr q where "bundles_after C L K req s q tr s'" by blast
  then show ?case using run.IH by (rule remembered_well_after)
qed (simp_all add: remembered_well_def)

lemma stored_well_bundled:
  assumes "reachable C L K s"
  shows "well_bundled (stored_bundles s name)"
  using reachable_remembered_well [OF assms]
  by (cases "sys_bundles s name") (auto simp: remembered_well_def stored_bundles_def well_bundled_def)

lemma well_bundled_connections:
  assumes "well_bundled bl"
  shows "\<exists>ncs. get_network_connections bl = Ok ncs \<and>
    set ncs = {nc. is_link_required nc \<and>
      (\<exists>b w other c s. needs bl b other c s \<and> bundle_workloads b = [w] \<and> nc = connection_of b other c s w)}"
  by (rule get_network_connections_connectable) (use assms in \<open>simp add: well_bundled_def\<close>)

end
