(* ===== verification/P2_Scheduling.thy ===== *)
theory P2_Scheduling
  imports P2_Reachable
begin

text \<open>
  Properties of single stages of a run: what a manifest that cannot be scheduled causes,
  how placements are created and updated, what the clean-up of old bundles does, and what
  is sent to the MultiClusterNetwork resource.
\<close>

section \<open>Runs that only report\<close>

lemma run_bind_stop:
  assumes "run_spec m (\<lambda>s r tr s'. Q s tr s')" and "run_spec m (\<lambda>s r tr s'. \<forall>y. r \<noteq> Ok y)"
  shows "run_spec (bindP m f) (\<lambda>s r tr s'. Q s tr s' \<and> (\<forall>y. r \<noteq> Ok y))"
proof (rule run_specI)
  fix s r s'
  assume run: "bindP m f s = (r, s')"
  obtain q s1 where q: "m s = (q, s1)" by fastforce
  from run_specD [OF run_spec_conj [OF assms] q] obtain tr where
    tr: "sys_trace s1 = sys_trace s @ tr" "Q s tr s1" "\<forall>y. q \<noteq> Ok y" by blast
  then have "s' = s1 \<and> (\<forall>y. r \<noteq> Ok y)" using run q by (cases q) (auto simp: bindP_def)
  with tr show "\<exists>tr. sys_trace s' = sys_trace s @ tr \<and> Q s tr s' \<and> (\<forall>y. r \<noteq> Ok y)" by blast
qed

definition reports_only :: "('r, 'w) sys \<Rightarrow> 'r events \<Rightarrow> ('r, 'w) sys \<Rightarrow> bool" where
  "reports_only s tr s' \<longleftrightarrow> sys_bundles s' = sys_bundles s \<and> list_all (\<lambda>e. only_reports (fst e)) tr"

lemma reports_only_append:
  "reports_only s t1 s1 \<Longrightarrow> reports_only s1 t2 s2 \<Longrightarrow> reports_only s (t1 @ t2) s2"
  by (simp add: reports_only_def)

lemma run_reports: "emits only_reports m \<Longrightarrow> run_spec m (\<lambda>s r tr s'. reports_only s tr s')"
  by (drule run_spec_emits, erule run_spec_mono) (simp add: reports_only_def)

lemma run_report_no_result: "run_spec (report L K m c ds) (\<lambda>s r tr s'. \<forall>y. r \<noteq> Ok y)"
  unfolding report_def
  by (rule run_no_result_bind [OF sends_emits [OF emits_raising [OF reporting.emits_update_status]]])
     (rule run_spec_no_result)

lemma run_start_reports: "run_spec (start_reconcile L K req) (\<lambda>s r tr s'. reports_only s tr s')"
  by (rule run_spec_mono [OF run_spec_conj [OF run_start_bundles run_spec_sends [OF reporting.sends_start]]])
     (simp add: reports_only_def)

text \<open>A request for another namespace.\<close>

lemma run_wrong_namespace:
  fixes K :: "('r, 'w) client"
  assumes "nn_namespace req \<noteq> p2code_scheduler_namespace"
  shows "run_spec (reconcile C L K req) (\<lambda>s r tr s'. reports_only s tr s')"
proof -
  have ns: "run_spec (check_namespace L K req m) (\<lambda>s r tr s'. reports_only s tr s')" for m
    by (rule run_reports [OF reporting.emits_namespace])
  have stop: "run_spec (check_namespace L K req m) (\<lambda>s r tr s'. \<forall>y. r \<noteq> Ok y)" for m
    using assms unfolding check_namespace_def by (intro run_spec_if run_report_no_result) simp
  have "run_spec (bindP (check_namespace L K req m) f) (\<lambda>s r tr s'. reports_only s tr s')" for m
      and f :: "unit \<Rightarrow> ('r, 'w, stop, ctrl_result) sysP"
    by (rule run_spec_mono [OF run_bind_stop [OF ns stop]]) simp
  then have "run_spec (reconcile_steps C L K req) (\<lambda>s r tr s'. reports_only s tr s')"
    unfolding reconcile_steps_def
    by (rule run_spec_bind [OF run_start_reports]) (auto intro: reports_only_append)
  then show ?thesis unfolding reconcile_def by (rule run_spec_return)
qed

text \<open>
  The manifests the scheduler can act on: supported annotations, a target cluster set, and
  manifests that convert and bundle.
\<close>

definition schedulable :: "'r codec \<Rightarrow> lib \<Rightarrow> 'r p2m \<Rightarrow> bool" where
  "schedulable C L m \<longleftrightarrow>
     validate_annotations_supported m = Ok () \<and>
     (case extract_target (global_annotations (p2m_spec m)) of
        Ok (n, c) \<Rightarrow>
          if c \<noteq> '''' then (\<exists>rs. bulk_convert_to_resource_set C L (manifests (p2m_spec m)) = Ok rs)
          else (\<exists>bl. build_and_update_bundles C L [] m = Ok bl)
      | _ \<Rightarrow> False)"

lemma run_or_misconfigured_stop:
  assumes "\<And>x. r \<noteq> Ok x"
  shows "run_spec (or_misconfigured L K m r) (\<lambda>s q tr s'. \<forall>y. q \<noteq> Ok y)"
  by (rule run_spec_mono [OF ok_or_misconfigured [unfolded ok_spec_def]]) (use assms in blast)

text \<open>The stage that chooses the clusters of a manifest that does not convert or bundle.\<close>

lemma run_choose_unschedulable:
  assumes "\<not> schedulable C L m" and ok: "validate_annotations_supported m = Ok ()"
    and target: "extract_target (global_annotations (p2m_spec m)) = Ok (n, c)"
  shows "run_spec (choose_clusters C L K m n c) (\<lambda>s r tr s'. reports_only s tr s' \<and> (\<forall>y. r \<noteq> Ok y))"
proof (cases "c = ''''")
  case False
  with ok target assms(1) have fails: "\<And>x. bulk_convert_to_resource_set C L (manifests (p2m_spec m)) \<noteq> Ok x"
    by (auto simp: schedulable_def)
  have "run_spec (bindP (or_misconfigured L K m (bulk_convert_to_resource_set C L (manifests (p2m_spec m))))
      (\<lambda>resources. raising (liftP (bundle_for_target L [] (p2m_name m) c resources))))
      (\<lambda>s r tr s'. reports_only s tr s' \<and> (\<forall>y. r \<noteq> Ok y))"
    by (rule run_bind_stop [OF run_reports [OF reporting.emits_or_misconfigured] run_or_misconfigured_stop [OF fails]])
  then have "run_spec (target_cluster_bundles C L K m n c [])
      (\<lambda>s r tr s'. reports_only s tr s' \<and> (\<forall>y. r \<noteq> Ok y))"
    unfolding target_cluster_bundles_def
    by (intro run_spec_bind [OF run_reports [OF emits_raising [OF reporting.emits_in_set]],
          where ?Q2.0 = "\<lambda>x s r tr s'. reports_only s tr s' \<and> (\<forall>y. r \<noteq> Ok y)"] run_spec_if)
       (auto intro: reports_only_append run_spec_conj [OF run_reports [OF reporting.emits_report] run_report_no_result])
  from run_spec_mono [OF this, of "\<lambda>s r tr s'. reports_only s tr s'"] run_spec_mono [OF this, of "\<lambda>s r tr s'. \<forall>y. r \<noteq> Ok y"]
  have "run_spec (bindP (target_cluster_bundles C L K m n c []) (\<lambda>bundles. retP (m, bundles)))
      (\<lambda>s r tr s'. reports_only s tr s' \<and> (\<forall>y. r \<noteq> Ok y))"
    by (intro run_bind_stop) blast+
  with False show ?thesis by (simp add: choose_clusters_def)
next
  case True
  then have fails: "\<And>x. build_and_update_bundles C L [] m \<noteq> Ok x"
    using ok target assms(1) by (auto simp: schedulable_def)
  have "run_spec (placed_workload_bundles C L K m []) (\<lambda>s r tr s'. reports_only s tr s' \<and> (\<forall>y. r \<noteq> Ok y))"
    unfolding placed_workload_bundles_def
    by (rule run_bind_stop [OF run_reports [OF reporting.emits_or_misconfigured] run_or_misconfigured_stop [OF fails]])
  with True show ?thesis by (simp add: choose_clusters_def)
qed

lemma run_unschedulable:
  assumes "\<not> schedulable C L m"
  shows "run_spec (schedule C L K m) (\<lambda>s r tr s'. reports_only s tr s' \<and> (\<forall>y. r \<noteq> Ok y))"
proof -
  have val: "run_spec (validate_manifest L K m) (\<lambda>s r tr s'. reports_only s tr s')"
    by (rule run_reports [OF reporting.emits_validate])
  show ?thesis
  proof (cases "validate_annotations_supported m = Ok () \<and>
      (\<exists>t. extract_target (global_annotations (p2m_spec m)) = Ok t)")
    case False
    have ann: "ok_spec (check_annotations L K m) (\<lambda>_ _. validate_annotations_supported m = Ok ())"
      unfolding check_annotations_def
      by (auto split: go.splits intro: ok_spec_ret ok_spec_report ok_spec_lift)
    have rest: "ok_spec (bindP (read_target L K m) (\<lambda>t. bindP (check_cluster_set L K m (fst t)) (\<lambda>_. retP t)))
        (\<lambda>_ _. True)"
      by (rule ok_spec_emits [where P = only_reports])
         (unfold read_target_def check_cluster_set_def, intro emits_intros reporting.emits_report
           reporting.emits_does_exist reporting.emits_empty reporting.emits_bound)
    have "ok_spec (validate_manifest L K m) (\<lambda>_ _. validate_annotations_supported m = Ok ())"
      unfolding validate_manifest_def by (rule ok_spec_bind [OF ann rest]) simp
    note both = run_spec_conj [OF this [unfolded ok_spec_def] ok_validate [unfolded ok_spec_def]]
    have "run_spec (validate_manifest L K m) (\<lambda>s r tr s'. \<forall>y. r \<noteq> Ok y)"
      by (rule run_spec_mono [OF both]) (use False in blast)
    then show ?thesis unfolding schedule_def by (rule run_bind_stop [OF val])
  next
    case True
    then obtain n c where target: "extract_target (global_annotations (p2m_spec m)) = Ok (n, c)" by auto
    from True have "validate_annotations_supported m = Ok ()" by simp
    note choose = run_choose_unschedulable [OF assms this target, where K = K]
    have both: "run_spec (choose_clusters C L K m n c) (\<lambda>s r tr s'. reports_only s tr s')"
      "run_spec (choose_clusters C L K m n c) (\<lambda>s r tr s'. \<forall>y. r \<noteq> Ok y)"
      by (rule run_spec_mono [OF choose], simp)+
    have rest: "run_spec (bindP (choose_clusters C L K m (fst t) (snd t)) (\<lambda>mb. roll_out L K (fst mb) (snd mb)))
        (\<lambda>s r tr s'. t = (n, c) \<longrightarrow> reports_only s tr s' \<and> (\<forall>y. r \<noteq> Ok y))" for t
    proof (cases "t = (n, c)")
      case True
      with run_bind_stop [OF both] show ?thesis by simp
    next
      case False
      have "run_spec (bindP (choose_clusters C L K m (fst t) (snd t)) (\<lambda>mb. roll_out L K (fst mb) (snd mb))) (\<lambda>s r tr s'. True)"
        by (rule run_spec_bind [OF run_spec_emits [OF workless.emits_choose] run_roll_out]) auto
      with False show ?thesis by simp
    qed
    have val': "run_spec (validate_manifest L K m) (\<lambda>s r tr s'. reports_only s tr s' \<and> (\<forall>t. r = Ok t \<longrightarrow> t = (n, c)))"
      by (rule run_spec_mono [OF run_spec_conj [OF val ok_validate [unfolded ok_spec_def]]]) (simp add: target)
    have "run_spec (bindP (validate_manifest L K m) (\<lambda>t. bindP (choose_clusters C L K m (fst t) (snd t))
        (\<lambda>mb. roll_out L K (fst mb) (snd mb)))) (\<lambda>s r tr s'. reports_only s tr s' \<and> (\<forall>y. r \<noteq> Ok y))"
      by (rule run_spec_bind [OF val' rest]) (auto intro: reports_only_append)
    then show ?thesis by (simp add: schedule_def case_prod_beta')
  qed
qed

section \<open>Placements\<close>

text \<open>
  Every placement request of the stage: a created placement has the name of the bundle, asks
  for one cluster of the target cluster set that meets the rules of the bundle, and has its
  owner set; an update changes the predicates of
  the placement it has read, and nothing else.
\<close>

definition placement_request ::
    "lib \<Rightarrow> ('r, 'w) client \<Rightarrow> 'r p2m \<Rightarrow> 'r workload_bundle \<Rightarrow> 'r call \<Rightarrow> bool" where
  "placement_request L K m b c \<longleftrightarrow>
     (\<forall>p. c = CreatePlacement p \<longrightarrow> (\<exists>n t. extract_target (global_annotations (p2m_spec m)) = Ok (n, t) \<and>
        (\<exists>q. set_controller_reference L (p2m_name m) q = Inr p \<and>
           pl_name q = resource_name (scheduling_details b) \<and> pl_namespace q = ''p2code-scheduler-system'' \<and>
           pl_number_of_clusters q = Some 1 \<and> pl_cluster_sets q = [n] \<and>
           concat (pl_predicates q) = match_expressions_of (placement_requests (scheduling_details b)) \<and>
           pl_conditions q = [] \<and> pl_decision_groups q = []))) \<and>
     (\<forall>p. c = UpdatePlacement p \<longrightarrow> (\<exists>old. p = old\<lparr>pl_predicates :=
        [match_expressions_of (placement_requests (scheduling_details b))]\<rparr> \<and>
        (old = zero_placement \<or> (\<exists>w w'. cl_get_placement K (scheduler_key (resource_name (scheduling_details b))) w = (Inr old, w')))))"

lemma new_placement_fields:
  "pl_name (new_placement n cs reqs) = n"
  "pl_namespace (new_placement n cs reqs) = ''p2code-scheduler-system''"
  "pl_number_of_clusters (new_placement n cs reqs) = Some 1"
  "pl_cluster_sets (new_placement n cs reqs) = [cs]"
  "concat (pl_predicates (new_placement n cs reqs)) = match_expressions_of reqs"
  "pl_conditions (new_placement n cs reqs) = []"
  "pl_decision_groups (new_placement n cs reqs) = []"
  by (simp_all add: new_placement_def zero_placement_def p2code_scheduler_namespace_def match_expressions_of_def
      split: option.splits)

lemma placement_request_read: "is_read c \<Longrightarrow> placement_request L K m b c"
  by (auto simp: placement_request_def)

lemma bind_lift:
  "bindP (liftP (Ok x)) f = f x" "bindP (liftP (Fail e)) f = failP e" "bindP (liftP Panic) f = liftP Panic"
  by (simp_all add: bindP_def liftP_def failP_def)

lemma run_new_placement:
  "run_spec (bindP (liftP (extract_target (global_annotations (p2m_spec m)))) (\<lambda>(cluster_set, _).
      create_placement L K (resource_name (scheduling_details b)) cluster_set (placement_requests (scheduling_details b)) m))
    (\<lambda>s r tr s'. list_all (\<lambda>e. placement_request L K m b (fst e)) tr)"
proof (cases "extract_target (global_annotations (p2m_spec m))")
  case (Ok nt)
  let ?d = "scheduling_details b"
  obtain n t where nt: "nt = (n, t)" by fastforce
  have "run_spec (create_placement L K (resource_name ?d) n (placement_requests ?d) m)
      (\<lambda>s r tr s'. list_all (\<lambda>e. placement_request L K m b (fst e)) tr)"
    unfolding create_placement_def
    by (rule run_spec_sends [OF sends_emits])
       (intro emits_intros, use Ok nt in \<open>auto simp: placement_request_def new_placement_fields
          intro!: exI [of _ "new_placement (resource_name ?d) n (placement_requests ?d)"]\<close>)
  then show ?thesis by (simp add: Ok nt bind_lift)
qed (simp_all add: bind_lift run_spec_mono [OF run_spec_fail] run_spec_mono [OF run_spec_lift])

lemma run_associated:
  "run_spec (get_associated_placement L K b m) (\<lambda>s r tr s'. list_all (\<lambda>e. placement_request L K m b (fst e)) tr)"
proof -
  let ?d = "scheduling_details b"
  let ?key = "scheduler_key (resource_name ?d)"
  let ?P = "placement_request L K m b"
  let ?Q = "\<lambda>s r tr s'. list_all (\<lambda>e. ?P (fst e)) tr"
  let ?update = "\<lambda>p. bindP (invoke (UpdatePlacement (p\<lparr>pl_predicates := [match_expressions_of (placement_requests ?d)]\<rparr>))
      (cl_update_placement K (p\<lparr>pl_predicates := [match_expressions_of (placement_requests ?d)]\<rparr>)))
      (\<lambda>_. invoke (GetPlacement ?key) (cl_get_placement K ?key))"
  have read: "run_spec (attemptP (invoke (GetPlacement ?key) (cl_get_placement K ?key)))
      (\<lambda>s r tr s'. ?Q s r tr s' \<and> (\<forall>p. r = Ok (Inr p) \<longrightarrow> (\<exists>w w'. cl_get_placement K ?key w = (Inr p, w'))))"
    by (rule run_specI)
       (fastforce simp: attemptP_def invoke_def placement_request_def split: prod.splits sum.splits)
  have update: "run_spec (?update p) ?Q"
    if "p = zero_placement \<or> (\<exists>w w'. cl_get_placement K ?key w = (Inr p, w'))" for p
    by (rule run_spec_sends [OF sends_emits])
       (intro emits_intros, use that in \<open>auto simp: placement_request_def\<close>)
  note create = run_new_placement [of m L K b]
  show ?thesis
    unfolding get_associated_placement_def Let_def
  proof (rule run_spec_bind [OF read, where ?Q2.0 = "\<lambda>q s r tr s'.
      (\<forall>p. q = Inr p \<longrightarrow> (\<exists>w w'. cl_get_placement K ?key w = (Inr p, w'))) \<longrightarrow> list_all (\<lambda>e. ?P (fst e)) tr"])
    fix q :: "go_error + placement"
    let ?next = "case q of
           Inl (Api (NotFound t)) \<Rightarrow>
             bindP (liftP (extract_target (global_annotations (p2m_spec m)))) (\<lambda>(cluster_set, _).
               create_placement L K (resource_name ?d) cluster_set (placement_requests ?d) m)
         | Inl _ \<Rightarrow> ?update zero_placement
         | Inr p \<Rightarrow> ?update p"
    have zero: "run_spec (?update zero_placement) ?Q" by (rule update) simp
    show "run_spec ?next (\<lambda>s r tr s'.
        (\<forall>p. q = Inr p \<longrightarrow> (\<exists>w w'. cl_get_placement K ?key w = (Inr p, w'))) \<longrightarrow> list_all (\<lambda>e. ?P (fst e)) tr)"
    proof (cases q)
      case (Inl e)
      have "run_spec ?next ?Q"
        unfolding Inl sum.case
        by (cases e; (rename_tac a, case_tac a)?) (simp_all add: zero create)
      then show ?thesis by (rule run_spec_mono) simp
    next
      case (Inr p)
      show ?thesis
      proof (cases "\<exists>w w'. cl_get_placement K ?key w = (Inr p, w')")
        case True
        show ?thesis
          unfolding Inr sum.case by (rule run_spec_mono [OF update]) (use True in simp_all)
      next
        case False
        have "run_spec (?update p) (\<lambda>s r tr s'. True)"
          by (rule run_spec_mono [OF run_spec_emits [where P = no_work_write]])
             (intro emits_intros, simp_all add: no_work_write_def)
        with False Inr show ?thesis by simp
      qed
    qed
  qed auto
qed

section \<open>The clean-up of old bundles\<close>

text \<open>An old bundle needs no clean-up when the new bundle of its name is on the same cluster.\<close>

definition unmoved :: "'r bundle_list \<Rightarrow> 'r workload_bundle \<Rightarrow> bool" where
  "unmoved bl b \<longleftrightarrow>
     (\<exists>new. get_bundle bl (bundle_name b) = Some new \<and>
        cluster_name (scheduling_details new) = cluster_name (scheduling_details b))"

lemma get_bundle_self:
  assumes "distinct (map bundle_name bl)" and "b \<in> set bl"
  shows "get_bundle bl (bundle_name b) = Some b"
  by (rule bundle_by_name.search_unique) (use assms in \<open>auto simp: distinct_map dest: inj_onD\<close>)

lemma clean_up_unmoved:
  assumes "distinct (map bundle_name old)" and "b \<in> set old" and "unmoved bl b"
  shows "clean_up_bundle K old bl b u = retP ()"
  using assms(3) get_bundle_self [OF assms(1,2)]
  by (auto simp: clean_up_bundle_def unmoved_def Let_def)

lemma clean_up_loop_unmoved:
  assumes "distinct (map bundle_name old)" and "set bs \<subseteq> set old" and "\<forall>b \<in> set bs. unmoved bl b"
  shows "loopP (clean_up_bundle K old bl) bs () = retP ()"
  using assms(2,3)
proof (induction bs)
  case (Cons b bs)
  then have "clean_up_bundle K old bl b () = retP ()"
    by (intro clean_up_unmoved [OF assms(1)]) auto
  with Cons show ?case by (simp add: bindP_def retP_def fun_eq_iff)
qed simp

text \<open>What is deleted belongs to an old bundle.\<close>

definition clean_up_request :: "('r, 'w) client \<Rightarrow> 'r bundle_list \<Rightarrow> 'r bundle_list \<Rightarrow> 'r call \<Rightarrow> bool" where
  "clean_up_request K old bl c \<longleftrightarrow> is_read c \<or>
     (\<exists>b \<in> set old. \<not> unmoved bl b \<and>
        ((\<exists>w s s'. c = DeleteWork w \<and> cl_get_work K (work_key b) s = (Inr w, s')) \<or>
         (\<exists>p s s'. c = DeletePlacement p \<and> get_bundle bl (bundle_name b) = None \<and>
            cl_get_placement K (scheduler_key (resource_name (scheduling_details b))) s = (Inr p, s'))))"

text \<open>Reading an object and passing it on: the request that follows may depend on the answer.\<close>

lemma run_read_then:
  assumes "is_read c" and "\<And>e. P (fst e) \<longleftrightarrow> Q e" and "P c"
    and "\<And>x w w'. f w = (Inr x, w') \<Longrightarrow> emits P (g x)"
  shows "run_spec (bindP (attemptP (invoke c f)) (\<lambda>r. case r of Inl _ \<Rightarrow> retP () | Inr x \<Rightarrow> g x))
    (\<lambda>s r tr s'. sys_bundles s' = sys_bundles s \<and> list_all Q tr)"
proof (rule run_specI)
  fix s r s'
  assume run: "bindP (attemptP (invoke c f)) (\<lambda>r. case r of Inl _ \<Rightarrow> retP () | Inr x \<Rightarrow> g x) s = (r, s')"
  have Q: "Q = (\<lambda>e. P (fst e))" using assms(2) by auto
  show "\<exists>tr. sys_trace s' = sys_trace s @ tr \<and> sys_bundles s' = sys_bundles s \<and> list_all Q tr"
  proof (cases "f (sys_world s)")
    case (Pair a w)
    show ?thesis
    proof (cases a)
      case (Inl e)
      with Pair run assms(3) show ?thesis
        by (auto simp: bindP_def attemptP_def invoke_def retP_def Q)
    next
      case (Inr x)
      let ?s = "s\<lparr>sys_world := w, sys_trace := sys_trace s @ [(c, True)]\<rparr>"
      from Pair Inr run have "g x ?s = (r, s')"
        by (simp add: bindP_def attemptP_def invoke_def)
      from emitsD [OF assms(4) this] Pair Inr assms(3) show ?thesis by (fastforce simp: Q)
    qed
  qed
qed

lemma run_delete_work:
  assumes "b \<in> set old" and "\<not> unmoved bl b"
  shows "run_spec (delete_manifest_work K (resource_name (scheduling_details b)) (cluster_name (scheduling_details b)))
    (\<lambda>s r tr s'. sys_bundles s' = sys_bundles s \<and> list_all (\<lambda>e. clean_up_request K old bl (fst e)) tr)"
  unfolding delete_manifest_work_def Let_def
proof (rule run_read_then)
  show "emits (clean_up_request K old bl) (invoke (DeleteWork w) (cl_delete_work K w))"
    if "cl_get_work K \<lparr>nn_namespace = cluster_name (scheduling_details b), nn_name = resource_name (scheduling_details b)\<rparr> s = (Inr w, s')"
    for w s s'
    by (rule emits_invoke) (use that assms in \<open>auto simp: clean_up_request_def work_key_def\<close>)
qed (simp_all add: clean_up_request_def)

lemma run_delete_placement:
  assumes "b \<in> set old" and "get_bundle bl (bundle_name b) = None"
  shows "run_spec (delete_placement K (resource_name (scheduling_details b)))
    (\<lambda>s r tr s'. sys_bundles s' = sys_bundles s \<and> list_all (\<lambda>e. clean_up_request K old bl (fst e)) tr)"
  unfolding delete_placement_def
proof (rule run_read_then)
  show "emits (clean_up_request K old bl) (invoke (DeletePlacement p) (cl_delete_placement K p))"
    if "cl_get_placement K (scheduler_key (resource_name (scheduling_details b))) s = (Inr p, s')" for p s s'
    by (rule emits_invoke, unfold clean_up_request_def, rule disjI2, rule bexI [OF _ assms(1)])
       (use that assms(2) in \<open>auto simp: unmoved_def\<close>)
qed (simp_all add: clean_up_request_def)

lemma run_clean_up_bundle:
  fixes K :: "('r, 'w) client"
  assumes "distinct (map bundle_name old)" and "b \<in> set old"
  shows "run_spec (clean_up_bundle K old bl b u)
    (\<lambda>s r tr s'. r \<noteq> Panic \<and> sys_bundles s' = sys_bundles s \<and> list_all (\<lambda>e. clean_up_request K old bl (fst e)) tr)"
proof -
  let ?Q = "\<lambda>s r tr s'. sys_bundles s' = sys_bundles s \<and> list_all (\<lambda>e. clean_up_request K old bl (fst e)) tr"
  let ?w = "delete_manifest_work K (resource_name (scheduling_details b)) (cluster_name (scheduling_details b))"
  let ?p = "delete_placement K (resource_name (scheduling_details b))"
  have raising: "run_spec (raising m) (\<lambda>s r tr s'. r \<noteq> Panic \<and> ?Q s r tr s')"
    if "run_spec m ?Q" "\<And>s. fst (m s) \<noteq> Panic" for m :: "('r, 'w, go_error, unit) sysP"
  proof (rule run_specI)
    fix s r s'
    assume run: "raising m s = (r, s')"
    obtain q t where q: "m s = (q, t)" by fastforce
    from that(2) [of s] q have "q \<noteq> Panic" by simp
    with run q have "r \<noteq> Panic" "s' = t" by (cases q; auto simp: raising_def handleP_def failP_def)+
    with run_specD [OF that(1) q] show "\<exists>tr. sys_trace s' = sys_trace s @ tr \<and> r \<noteq> Panic \<and> ?Q s r tr s'" by blast
  qed
  have ret: "run_spec (retP () :: ('r, 'w, stop, unit) sysP) (\<lambda>s r tr s'. r \<noteq> Panic \<and> ?Q s r tr s')"
    by (rule run_spec_mono [OF run_spec_ret]) simp
  have no_panic: "fst (?w s) \<noteq> Panic" "fst (?p s) \<noteq> Panic" for s
    by (auto simp: delete_manifest_work_def delete_placement_def Let_def bindP_def attemptP_def invoke_def retP_def
        split: prod.splits sum.splits)
  show ?thesis
  proof (cases "get_bundle bl (bundle_name b)")
    case None
    then have "\<not> unmoved bl b" by (simp add: unmoved_def)
    note del = raising [OF run_delete_work [OF assms(2) this] no_panic(1)]
      raising [OF run_delete_placement [OF assms(2) None] no_panic(2)]
    have "run_spec (bindP (raising ?p) (\<lambda>_. if cluster_name (scheduling_details b) \<noteq> '''' then raising ?w else retP ()))
        (\<lambda>s r tr s'. r \<noteq> Panic \<and> ?Q s r tr s')"
      by (rule run_spec_bind [OF del(2) run_spec_if [OF del(1) ret]]) auto
    with None ret show ?thesis by (simp add: clean_up_bundle_def Let_def)
  next
    case (Some new)
    show ?thesis
    proof (cases "unmoved bl b")
      case True
      with ret show ?thesis by (simp add: clean_up_unmoved [OF assms])
    next
      case False
      from raising [OF run_delete_work [OF assms(2) False] no_panic(1)] False Some get_bundle_self [OF assms] ret
      show ?thesis by (simp add: clean_up_bundle_def unmoved_def Let_def)
    qed
  qed
qed

lemma run_clean_up_loop:
  assumes "distinct (map bundle_name old)" and "set bs \<subseteq> set old"
  shows "run_spec (loopP (clean_up_bundle K old bl) bs u)
    (\<lambda>s r tr s'. r \<noteq> Panic \<and> sys_bundles s' = sys_bundles s \<and> list_all (\<lambda>e. clean_up_request K old bl (fst e)) tr)"
  using assms(2)
proof (induction bs arbitrary: u)
  case Nil
  show ?case unfolding loopP.simps by (rule run_spec_mono [OF run_spec_ret]) simp
next
  case (Cons b bs)
  have b: "b \<in> set old" and bs: "set bs \<subseteq> set old" using Cons.prems by auto
  show ?case
    unfolding loopP.simps
    by (rule run_spec_bind [OF run_clean_up_bundle [OF assms(1) b] Cons.IH [OF bs]]) auto
qed

section \<open>The validation of a ManifestWork\<close>

lemma fold_go_find:
  "fold_go (\<lambda>x _. if bad x then Fail (err x) else Ok ()) xs () =
     (case List.find bad xs of None \<Rightarrow> Ok () | Some x \<Rightarrow> Fail (err x))"
  by (induction xs) auto

lemma find_append:
  "List.find P (xs @ ys) = (case List.find P xs of None \<Rightarrow> List.find P ys | Some x \<Rightarrow> Some x)"
  by (induction xs) auto

lemma validate_work_eq:
  "validate_manifest_work_applied w =
     (if work_status w = []
      then Fail (ManifestWorkNotReadyError (''ResourceStatus for '' @ work_name w @ '' ManifestWork is empty''))
      else case List.find condition_fails (concat (work_status w)) of
          None \<Rightarrow> Ok ()
        | Some c \<Rightarrow> Fail (ManifestWorkFailedError (cond_message c)))"
proof -
  have "fold_go (\<lambda>conds _. fold_go (\<lambda>c _. if condition_fails c then Fail (ManifestWorkFailedError (cond_message c)) else Ok ())
      conds ()) css () = (case List.find condition_fails (concat css) of
        None \<Rightarrow> Ok () | Some c \<Rightarrow> Fail (ManifestWorkFailedError (cond_message c)))" for css
    by (induction css) (auto simp: fold_go_find find_append split: option.splits)
  then show ?thesis by (simp add: validate_manifest_work_applied_def)
qed

end
