(* ===== verification/P2_Target.thy ===== *)
theory P2_Target
  imports P2_Reachable
begin

text \<open>
  The target of a manifest: a run writes a placement or a ManifestWork only after it has
  checked the target cluster set of the manifest it schedules and, where the manifest names
  a target cluster, that the cluster is in the set.
\<close>

section \<open>The checks, as requests and answers\<close>

text \<open>
  Three consecutive requests, each answered in the world the one before has left: the
  cluster set is listed, it has a cluster, and it is bound to the namespace of the scheduler.
\<close>

definition cluster_set_usable :: "lib \<Rightarrow> ('r, 'w) client \<Rightarrow> string \<Rightarrow> 'r events \<Rightarrow> bool" where
  "cluster_set_usable L K n tr \<longleftrightarrow>
     (\<exists>t1 t2 w sets w1 cs w2 bs w3.
        tr = t1 @ [(ListClusterSets, True), (ListClusters (cluster_set_label L, n), True),
                   (ListBindings p2code_scheduler_namespace, True)] @ t2 \<and>
        cl_list_cluster_sets K w = (Inr sets, w1) \<and> n \<in> set sets \<and>
        cl_list_clusters K (cluster_set_label L, n) w1 = (Inr cs, w2) \<and> cs \<noteq> [] \<and>
        cl_list_bindings K p2code_scheduler_namespace w2 = (Inr bs, w3) \<and> n \<in> csb_cluster_set ` set bs)"

text \<open>The cluster is one of those the server lists under the label of the cluster set.\<close>

definition cluster_found :: "lib \<Rightarrow> ('r, 'w) client \<Rightarrow> string \<Rightarrow> string \<Rightarrow> 'r events \<Rightarrow> bool" where
  "cluster_found L K n cluster tr \<longleftrightarrow>
     (\<exists>sel cs w w'. parse_selector L (''cluster.open-cluster-management.io/clusterset='' @ n) = Inr sel \<and>
        (ListClusters sel, True) \<in> set tr \<and> cl_list_clusters K sel w = (Inr cs, w') \<and>
        cluster \<in> mcl_name ` set cs)"

definition target_usable :: "lib \<Rightarrow> ('r, 'w) client \<Rightarrow> 'r p2m \<Rightarrow> 'r events \<Rightarrow> bool" where
  "target_usable L K m tr \<longleftrightarrow>
     (\<exists>n cluster. extract_target (global_annotations (p2m_spec m)) = Ok (n, cluster) \<and>
        cluster_set_usable L K n tr \<and> (cluster \<noteq> '''' \<longrightarrow> cluster_found L K n cluster tr))"

lemma cluster_set_usable_extend: "cluster_set_usable L K n tr \<Longrightarrow> cluster_set_usable L K n (pre @ tr @ post)"
  unfolding cluster_set_usable_def by (elim exE conjE) (metis append_assoc)

lemma cluster_found_mono: "cluster_found L K n c tr \<Longrightarrow> set tr \<subseteq> set tr' \<Longrightarrow> cluster_found L K n c tr'"
  unfolding cluster_found_def by blast

lemma target_usable_extend:
  assumes "target_usable L K m tr"
  shows "target_usable L K m (pre @ tr @ post)"
proof -
  from assms obtain n c where t: "extract_target (global_annotations (p2m_spec m)) = Ok (n, c)"
    "cluster_set_usable L K n tr" "c \<noteq> '''' \<longrightarrow> cluster_found L K n c tr"
    unfolding target_usable_def by blast
  from t(3) have "c \<noteq> '''' \<longrightarrow> cluster_found L K n c (pre @ tr @ post)"
    by (auto elim: cluster_found_mono)
  with t(1) cluster_set_usable_extend [OF t(2)] show ?thesis unfolding target_usable_def by blast
qed

section \<open>The stages\<close>

definition no_roll_out :: "'r call \<Rightarrow> bool" where
  "no_roll_out c \<longleftrightarrow> \<not> is_placement_write c \<and> \<not> is_work_write c"

lemma no_roll_out_simps [simp]:
  "is_read c \<Longrightarrow> no_roll_out c" "no_roll_out (UpdateStatus m)" "no_roll_out (DeleteWork w)"
  "is_network_write c \<Longrightarrow> no_roll_out c" "no_roll_out (UpdateManifest m)"
  by (cases c; simp add: no_roll_out_def)+

interpretation choosing: manifest_policy no_roll_out
  by unfold_locales simp_all

abbreviation quiet :: "'r events \<Rightarrow> bool" where
  "quiet \<equiv> list_all (\<lambda>e. no_roll_out (fst e))"

lemma run_cluster_set:
  fixes K :: "('r, 'w) client"
  shows "run_spec (check_cluster_set L K m n) (\<lambda>s r tr s'. \<forall>x. r = Ok x \<longrightarrow> cluster_set_usable L K n tr)"
proof -
  let ?sel = "(cluster_set_label L, n)" and ?ns = p2code_scheduler_namespace
  have asked: "run_spec (raising (bindP (invoke c f) (\<lambda>x. retP (g x)))) (\<lambda>s r tr s'. \<forall>b. r = Ok b \<longrightarrow>
      tr = [(c, True)] \<and> (\<exists>x. f (sys_world s) = (Inr x, sys_world s') \<and> (b \<longleftrightarrow> P x)))"
    if "\<And>x. g x \<longleftrightarrow> P x" for c f g P
  proof -
    have "run_spec (bindP (invoke c f) (\<lambda>x. retP (g x))) (\<lambda>s r tr s'. \<forall>b. r = Ok b \<longrightarrow>
        tr = [(c, True)] \<and> (\<exists>x. f (sys_world s) = (Inr x, sys_world s') \<and> (b \<longleftrightarrow> P x)))"
      by (rule run_spec_bind [OF run_spec_invoke run_spec_ret]) (auto simp: answered_def that)
    then show ?thesis by (rule run_spec_raising) auto
  qed
  have stops: "run_spec (report L K m c []) (\<lambda>s r tr s'. \<forall>x. r \<noteq> Ok x)" for c
    using ok_spec_report [where Q = "\<lambda>_ _. False"] unfolding ok_spec_def by (rule run_spec_mono) simp
  have last: "run_spec (if \<not> b then report L K m c [] else retP ())
      (\<lambda>s r tr s'. \<forall>x. r = Ok x \<longrightarrow> b \<and> tr = [])" for b c
    by (intro run_spec_if run_spec_mono [OF stops] run_spec_mono [OF run_spec_ret]) simp_all
  have bound: "run_spec (raising (is_cluster_set_bound K n)) (\<lambda>s r tr s'. \<forall>b. r = Ok b \<longrightarrow>
      tr = [(ListBindings ?ns, True)] \<and>
      (\<exists>bs. cl_list_bindings K ?ns (sys_world s) = (Inr bs, sys_world s') \<and> (b \<longleftrightarrow> n \<in> csb_cluster_set ` set bs)))"
    unfolding is_cluster_set_bound_def by (rule asked) (auto simp: list_ex_iff)
  have empty: "run_spec (raising (is_cluster_set_empty L K n)) (\<lambda>s r tr s'. \<forall>b. r = Ok b \<longrightarrow>
      tr = [(ListClusters ?sel, True)] \<and>
      (\<exists>cs. cl_list_clusters K ?sel (sys_world s) = (Inr cs, sys_world s') \<and> (b \<longleftrightarrow> cs = [])))"
    unfolding is_cluster_set_empty_def Let_def by (rule asked) auto
  have exist: "run_spec (raising (does_managed_cluster_set_exist K n)) (\<lambda>s r tr s'. \<forall>b. r = Ok b \<longrightarrow>
      tr = [(ListClusterSets, True)] \<and>
      (\<exists>sets. cl_list_cluster_sets K (sys_world s) = (Inr sets, sys_world s') \<and> (b \<longleftrightarrow> n \<in> set sets)))"
    unfolding does_managed_cluster_set_exist_def by (rule asked) (auto simp: list_ex_iff)
  have 1: "run_spec (bindP (raising (is_cluster_set_bound K n)) (\<lambda>b. if \<not> b then report L K m c [] else retP ()))
      (\<lambda>s r tr s'. \<forall>x. r = Ok x \<longrightarrow> tr = [(ListBindings ?ns, True)] \<and>
        (\<exists>bs w. cl_list_bindings K ?ns (sys_world s) = (Inr bs, w) \<and> n \<in> csb_cluster_set ` set bs))" for c
    by (rule run_spec_bind [OF bound last]) auto
  have 2: "run_spec (if b then report L K m c []
      else bindP (raising (is_cluster_set_bound K n)) (\<lambda>b. if \<not> b then report L K m d [] else retP ()))
      (\<lambda>s r tr s'. \<forall>x. r = Ok x \<longrightarrow> \<not> b \<and> tr = [(ListBindings ?ns, True)] \<and>
        (\<exists>bs w. cl_list_bindings K ?ns (sys_world s) = (Inr bs, w) \<and> n \<in> csb_cluster_set ` set bs))" for b c d
    by (intro run_spec_if run_spec_mono [OF stops] run_spec_mono [OF 1]) auto
  have 3: "run_spec (bindP (raising (is_cluster_set_empty L K n)) (\<lambda>b. if b then report L K m c []
      else bindP (raising (is_cluster_set_bound K n)) (\<lambda>b. if \<not> b then report L K m d [] else retP ())))
      (\<lambda>s r tr s'. \<forall>x. r = Ok x \<longrightarrow> tr = [(ListClusters ?sel, True), (ListBindings ?ns, True)] \<and>
        (\<exists>cs w bs w'. cl_list_clusters K ?sel (sys_world s) = (Inr cs, w) \<and> cs \<noteq> [] \<and>
           cl_list_bindings K ?ns w = (Inr bs, w') \<and> n \<in> csb_cluster_set ` set bs))" for c d
    by (rule run_spec_bind [OF empty 2]) auto
  have 4: "run_spec (if \<not> b then report L K m c []
      else bindP (raising (is_cluster_set_empty L K n)) (\<lambda>b. if b then report L K m d []
      else bindP (raising (is_cluster_set_bound K n)) (\<lambda>b. if \<not> b then report L K m e [] else retP ())))
      (\<lambda>s r tr s'. \<forall>x. r = Ok x \<longrightarrow> b \<and> tr = [(ListClusters ?sel, True), (ListBindings ?ns, True)] \<and>
        (\<exists>cs w bs w'. cl_list_clusters K ?sel (sys_world s) = (Inr cs, w) \<and> cs \<noteq> [] \<and>
           cl_list_bindings K ?ns w = (Inr bs, w') \<and> n \<in> csb_cluster_set ` set bs))" for b c d e
    by (intro run_spec_if run_spec_mono [OF stops] run_spec_mono [OF 3]) auto
  show ?thesis
    unfolding check_cluster_set_def
  proof (rule run_spec_bind [OF exist 4])
    fix s s1 s' :: "('r, 'w) sys" and b r and t1 t2 :: "'r events"
    assume "\<forall>x. Ok b = Ok x \<longrightarrow> t1 = [(ListClusterSets, True)] \<and>
        (\<exists>sets. cl_list_cluster_sets K (sys_world s) = (Inr sets, sys_world s1) \<and> (x \<longleftrightarrow> n \<in> set sets))"
      and "\<forall>x. r = Ok x \<longrightarrow> b \<and> t2 = [(ListClusters ?sel, True), (ListBindings ?ns, True)] \<and>
        (\<exists>cs w bs w'. cl_list_clusters K ?sel (sys_world s1) = (Inr cs, w) \<and> cs \<noteq> [] \<and>
           cl_list_bindings K ?ns w = (Inr bs, w') \<and> n \<in> csb_cluster_set ` set bs)"
    moreover have "cluster_set_usable L K n [(ListClusterSets, True), (ListClusters ?sel, True), (ListBindings ?ns, True)]"
      if "cl_list_cluster_sets K (sys_world s) = (Inr sets, sys_world s1)" "n \<in> set sets"
        "cl_list_clusters K ?sel (sys_world s1) = (Inr cs, w)" "cs \<noteq> []"
        "cl_list_bindings K ?ns w = (Inr bs, w')" "n \<in> csb_cluster_set ` set bs" for sets cs w bs w'
      unfolding cluster_set_usable_def
      by (rule exI [of _ "[]"], rule exI [of _ "[]"], rule exI [of _ "sys_world s"], rule exI [of _ sets],
          rule exI [of _ "sys_world s1"], rule exI [of _ cs], rule exI [of _ w], rule exI [of _ bs], rule exI [of _ w'])
         (use that in simp)
    ultimately show "\<forall>x. r = Ok x \<longrightarrow> cluster_set_usable L K n (t1 @ t2)" by auto
  qed simp_all
qed

lemma run_validate_target:
  "run_spec (validate_manifest L K m) (\<lambda>s r tr s'. \<forall>t. r = Ok t \<longrightarrow>
     extract_target (global_annotations (p2m_spec m)) = Ok t \<and> cluster_set_usable L K (fst t) tr)"
proof -
  have last: "run_spec (bindP (check_cluster_set L K m (fst t)) (\<lambda>_. retP t))
      (\<lambda>s r tr s'. \<forall>u. r = Ok u \<longrightarrow> u = t \<and> cluster_set_usable L K (fst t) tr)" for t
    by (rule run_spec_bind [OF run_cluster_set run_spec_ret]) auto
  have annotations: "run_spec (check_annotations L K m) (\<lambda>s r tr s'. True)"
    by (rule run_spec_mono [OF run_spec_emits [where P = only_reports]])
       (simp_all add: check_annotations_def emits_intros reporting.emits_report split: go.splits)
  have read: "run_spec (read_target L K m) (\<lambda>s r tr s'. True)"
    by (rule run_spec_mono [OF run_spec_emits [where P = only_reports]])
       (simp_all add: read_target_def emits_intros reporting.emits_report split: go.splits)
  have extend: "cluster_set_usable L K n (pre @ tr)" if "cluster_set_usable L K n tr" for n pre tr
    using cluster_set_usable_extend [OF that, of pre "[]"] by simp
  have middle: "run_spec (bindP (read_target L K m) (\<lambda>t. bindP (check_cluster_set L K m (fst t)) (\<lambda>_. retP t)))
      (\<lambda>s r tr s'. \<forall>t. r = Ok t \<longrightarrow> cluster_set_usable L K (fst t) tr)"
    by (rule run_spec_bind [OF read last]) (auto intro: extend)
  have "run_spec (validate_manifest L K m) (\<lambda>s r tr s'. \<forall>t. r = Ok t \<longrightarrow> cluster_set_usable L K (fst t) tr)"
    unfolding validate_manifest_def by (rule run_spec_bind [OF annotations middle]) (auto intro: extend)
  then show ?thesis by (rule run_spec_mono [OF run_spec_conj [OF _ ok_validate [unfolded ok_spec_def]]]) blast
qed

lemma ok_cluster_found:
  fixes K :: "('r, 'w) client"
  shows "ok_spec (target_cluster_bundles C L K m n c bl) (\<lambda>_ tr. cluster_found L K n c tr)"
proof -
  have member: "ok_spec (raising (is_managed_cluster_in_set L K n c)) (\<lambda>b tr. b \<longrightarrow> cluster_found L K n c tr)"
  proof (cases "parse_selector L (''cluster.open-cluster-management.io/clusterset='' @ n)")
    case (Inr sel)
    have list: "ok_spec (handleP (invoke (ListClusters sel) (cl_list_clusters K sel)) (\<lambda>e. failP (h e)))
        (\<lambda>cs tr. (ListClusters sel, True) \<in> set tr \<and> (\<exists>w w'. cl_list_clusters K sel w = (Inr cs, w')))" for h
      by (rule ok_spec_handle_fail [OF ok_spec_invoke]) auto
    have found: "ok_spec (bindP (handleP (invoke (ListClusters sel) (cl_list_clusters K sel)) (\<lambda>e. failP (h e)))
        (\<lambda>cs. retP (list_ex (\<lambda>y. mcl_name y = c) cs))) (\<lambda>b tr. b \<longrightarrow> cluster_found L K n c tr)" for h
      by (rule ok_spec_bind [OF list ok_spec_ret [where Q = "\<lambda>b tr. b = list_ex (\<lambda>y. mcl_name y = c) x" for x]])
         (use Inr in \<open>auto simp: cluster_found_def list_ex_iff\<close>)
    show ?thesis
      unfolding is_managed_cluster_in_set_def Let_def Inr sum.case by (rule ok_spec_raising) (rule found)
  next
    case (Inl e)
    then show ?thesis by (simp add: is_managed_cluster_in_set_def ok_spec_raising ok_spec_failP)
  qed
  have rest: "ok_spec (if \<not> b then report L K m d [] else p) (\<lambda>_ tr. b)"
    if "emits no_roll_out p" for b d and p :: "('r, 'w, stop, 'c) sysP"
    by (intro ok_spec_if ok_spec_report ok_spec_mono [OF ok_spec_emits [OF that]]) simp
  show ?thesis
    unfolding target_cluster_bundles_def
    by (rule ok_spec_bind [OF member rest])
       (auto intro!: emits_intros choosing.emits_or_misconfigured elim: cluster_found_mono)
qed

section \<open>Whole runs\<close>

definition target_checked_first :: "lib \<Rightarrow> ('r, 'w) client \<Rightarrow> 'r p2m \<Rightarrow> 'r events \<Rightarrow> bool" where
  "target_checked_first L K m tr \<longleftrightarrow> quiet tr \<or>
     (\<exists>before rest. tr = before @ rest \<and> quiet before \<and> target_usable L K m before)"

lemma target_checked_first_prefix:
  assumes "quiet t1" and "target_checked_first L K m t2"
  shows "target_checked_first L K m (t1 @ t2)"
proof (cases "quiet t2")
  case False
  with assms(2) obtain before rest where t2: "t2 = before @ rest" "quiet before" "target_usable L K m before"
    unfolding target_checked_first_def by blast
  have "target_usable L K m (t1 @ before)" using target_usable_extend [OF t2(3), of t1 "[]"] by simp
  with t2 assms(1) show ?thesis
    unfolding target_checked_first_def by (intro disjI2 exI [of _ "t1 @ before"] exI [of _ rest]) simp
qed (use assms(1) in \<open>simp add: target_checked_first_def\<close>)

lemma run_schedule_target:
  fixes K :: "('r, 'w) client"
  shows "run_spec (schedule C L K m) (\<lambda>s r tr s'. target_checked_first L K m tr)"
proof -
  have anyP: "run_spec p (\<lambda>s r tr s'. True)" if "sends P p" for P p
    by (rule run_spec_mono [OF run_spec_sends [OF that]]) simp
  have validate: "run_spec (validate_manifest L K m) (\<lambda>s r tr s'. quiet tr \<and> (\<forall>t. r = Ok t \<longrightarrow>
      extract_target (global_annotations (p2m_spec m)) = Ok t \<and> cluster_set_usable L K (fst t) tr))"
    by (rule run_spec_mono [OF run_spec_conj [OF run_spec_emits [OF choosing.emits_validate] run_validate_target]]) blast
  have roll: "run_spec (roll_out L K m' bl) (\<lambda>s r tr s'. True)" for m' bl
    by (rule run_spec_mono [OF run_roll_out]) simp
  let ?rest = "\<lambda>t. bindP (choose_clusters C L K m (fst t) (snd t)) (\<lambda>mb. roll_out L K (fst mb) (snd mb))"
  have rest: "run_spec (?rest t) (\<lambda>s r tr s'. snd t \<noteq> '''' \<longrightarrow> quiet tr \<or>
      (\<exists>before rest. tr = before @ rest \<and> quiet before \<and> cluster_found L K (fst t) (snd t) before))" for t
  proof (cases "snd t = ''''")
    case True
    have "run_spec (choose_clusters C L K m (fst t) (snd t)) (\<lambda>s r tr s'. True)"
      by (rule run_spec_mono [OF run_spec_emits [OF workless.emits_choose]]) simp
    from True show ?thesis by (intro run_spec_bind [OF \<open>run_spec (choose_clusters C L K m (fst t) (snd t)) _\<close> roll]) auto
  next
    case False
    have target: "run_spec (target_cluster_bundles C L K m (fst t) (snd t) []) (\<lambda>s r tr s'. quiet tr \<and>
        (\<forall>x. r = Ok x \<longrightarrow> cluster_found L K (fst t) (snd t) tr))"
      by (rule run_spec_mono [OF run_spec_ok [OF choosing.emits_target ok_cluster_found]]) blast
    have choose: "run_spec (choose_clusters C L K m (fst t) (snd t)) (\<lambda>s r tr s'. quiet tr \<and>
        (\<forall>x. r = Ok x \<longrightarrow> cluster_found L K (fst t) (snd t) tr))"
      unfolding choose_clusters_def if_P [OF False]
      by (rule run_spec_bind [OF target run_spec_ret]) auto
    show ?thesis
      by (rule run_spec_bind [OF choose roll]) auto
  qed
  have "run_spec (bindP (validate_manifest L K m) ?rest) (\<lambda>s r tr s'. target_checked_first L K m tr)"
  proof (rule run_spec_bind [OF validate rest])
    fix s s1 s' :: "('r, 'w) sys" and t r and t1 t2 :: "'r events"
    assume "quiet t1 \<and> (\<forall>u. Ok t = Ok u \<longrightarrow>
        extract_target (global_annotations (p2m_spec m)) = Ok u \<and> cluster_set_usable L K (fst u) t1)"
      and 2: "snd t \<noteq> '''' \<longrightarrow> quiet t2 \<or> (\<exists>before rest. t2 = before @ rest \<and> quiet before \<and>
        cluster_found L K (fst t) (snd t) before)"
    then have 1: "quiet t1" "extract_target (global_annotations (p2m_spec m)) = Ok (fst t, snd t)"
      "cluster_set_usable L K (fst t) t1" by simp_all
    show "target_checked_first L K m (t1 @ t2)"
    proof (cases "snd t = '''' \<or> quiet t2")
      case True
      show ?thesis
      proof (cases "quiet t2")
        case False
        with True 1 have "target_usable L K m t1" unfolding target_usable_def by blast
        with 1(1) show ?thesis unfolding target_checked_first_def by blast
      qed (use 1 in \<open>simp add: target_checked_first_def\<close>)
    next
      case False
      with 2 obtain before rest where b: "t2 = before @ rest" "quiet before"
        "cluster_found L K (fst t) (snd t) before" by blast
      have "cluster_set_usable L K (fst t) (t1 @ before)"
        using cluster_set_usable_extend [OF 1(3), of "[]" before] by simp
      moreover have "cluster_found L K (fst t) (snd t) (t1 @ before)" by (rule cluster_found_mono [OF b(3)]) simp
      ultimately have "target_usable L K m (t1 @ before)" using 1(2) unfolding target_usable_def by blast
      with 1(1) b(1,2) show ?thesis
        unfolding target_checked_first_def by (intro disjI2 exI [of _ "t1 @ before"] exI [of _ rest]) simp
    qed
  qed (auto simp: target_checked_first_def)
  then show ?thesis by (simp add: schedule_def case_prod_beta')
qed

lemma run_reconcile_target:
  "run_spec (reconcile C L K req) (\<lambda>s r tr s'. quiet tr \<or>
     (\<exists>m owner. scheduled_manifest L K req (sys_world s) m owner \<and> target_checked_first L K m tr))"
proof -
  let ?Q = "\<lambda>s (r :: (stop, ctrl_result) go) tr s'. quiet tr \<or>
     (\<exists>m owner. scheduled_manifest L K req (sys_world s) m owner \<and> target_checked_first L K m tr)"
  have approach: "run_spec (approach L K req) (\<lambda>s r tr s'. quiet tr)"
    by (rule run_spec_sends [OF choosing.sends_approach])
  have "run_spec (reconcile C L K req) (\<lambda>s r tr s'. \<exists>q. r = outcome q \<and> ?Q s q tr s')"
    by (rule run_reconcile_by_stages [OF approach run_schedule_target]) (blast intro: target_checked_first_prefix)+
  then show ?thesis by (rule run_spec_mono) blast
qed

lemma roll_out_after_target:
  assumes "target_checked_first L K m (pre @ (c, ok) # post)" and "is_placement_write c \<or> is_work_write c"
  shows "target_usable L K m pre"
proof -
  from assms have "\<not> quiet (pre @ (c, ok) # post)" by (auto simp: no_roll_out_def)
  with assms(1) obtain before rest where split: "pre @ (c, ok) # post = before @ rest"
    and before: "quiet before" "target_usable L K m before" unfolding target_checked_first_def by blast
  have "(c, ok) \<notin> set before"
    using before(1) assms(2) by (auto simp: list_all_iff no_roll_out_def)
  from split_before_member [OF split this] obtain mid where "pre = before @ mid" by blast
  then show ?thesis using target_usable_extend [OF before(2), of "[]" mid] by simp
qed

end
