(* ===== verification/P2_Liveness.thy ===== *)
theory P2_Liveness
  imports P2_Runs
begin

text \<open>
  A run that ends without asking for another one has concluded: its last request says why.
  The event filter of the controller drops status updates, so a run that ended with nothing
  reported and nothing to wait for would never be repeated; the theory shows that there is
  no such run. \<open>ends E m\<close> says that \<open>E\<close> holds of the requests of every execution of the
  stage \<open>m\<close> that ends the run for good.
\<close>

section \<open>How a run concludes\<close>

definition terminal_states :: "string list" where
  "terminal_states = [misconfigured, scheduling_failed, unreliably_scheduled, tentatively_scheduled,
     scheduling_successful]"

text \<open>
  The last request of a run that is over: an accepted status with a terminal state; a read
  of the manifest that failed; the accepted removal of the finalizer, or an update of the
  manifest answered with one that is being deleted and has no finalizer.
\<close>

definition concludes :: "lib \<Rightarrow> ('r, 'w) client \<Rightarrow> namespaced_name \<Rightarrow> 'r call \<times> bool \<Rightarrow> bool" where
  "concludes L K req e \<longleftrightarrow>
     (\<exists>m. e = (UpdateStatus m, True) \<and> state (p2m_status m) \<in> set terminal_states) \<or>
     e = (GetManifest req, False) \<or>
     (\<exists>m. e = (UpdateManifest m, True) \<and>
        ((\<exists>fs. remove_finalizer L fs finalizer = Some (p2m_finalizers m)) \<or>
         (\<exists>m' w w'. cl_update_manifest K m w = (Inr m', w') \<and> p2m_deleting m' \<and>
            \<not> contains_finalizer L (p2m_finalizers m') finalizer)))"

definition concluded :: "lib \<Rightarrow> ('r, 'w) client \<Rightarrow> namespaced_name \<Rightarrow> 'r events \<Rightarrow> bool" where
  "concluded L K req tr \<longleftrightarrow> tr \<noteq> [] \<and> concludes L K req (last tr)"

lemma concluded_append: "concluded L K req t2 \<Longrightarrow> concluded L K req (t1 @ t2)"
  by (simp add: concluded_def)

section \<open>Stages that end a run\<close>

definition ends :: "('r events \<Rightarrow> bool) \<Rightarrow> ('r, 'w, stop, 'a) sysP \<Rightarrow> bool" where
  "ends E m \<longleftrightarrow> run_spec m (\<lambda>s r tr s'. r = Fail (Return Done) \<longrightarrow> E tr)"

named_theorems ends_intros \<open>composition rules for the ways a run ends\<close>

lemma ends_bind:
  assumes "ends E m" and "\<And>x. ends E (f x)" and "\<And>t1 t2. E t2 \<Longrightarrow> E (t1 @ t2)"
  shows "ends E (bindP m f)"
  unfolding ends_def
  by (rule run_spec_bind [OF assms(1,2) [unfolded ends_def]]) (use assms(3) in auto)

lemma ends_concluded_bind [ends_intros]:
  assumes "ends (concluded L K req) m" and "\<And>x. ends (concluded L K req) (f x)"
  shows "ends (concluded L K req) (bindP m f)"
  by (rule ends_bind [OF assms concluded_append])

text \<open>The policy that allows every request: its facts say that a stage only extends the trace.\<close>

definition any_request :: "'r call \<Rightarrow> bool" where
  "any_request c \<longleftrightarrow> True"

interpretation anything: server_policy any_request
  by unfold_locales (simp_all add: any_request_def)

lemma ends_raising [ends_intros]:
  assumes "emits any_request m"
  shows "ends E (raising m)"
  unfolding ends_def
  by (rule run_spec_raising [OF run_spec_emits [OF assms]]) auto

lemma ends_ret [ends_intros]: "ends E (retP x)"
  unfolding ends_def by (rule run_spec_mono [OF run_spec_ret]) simp

lemma ends_raise [ends_intros]: "ends E (failP (Raise e))"
  unfolding ends_def by (rule run_spec_mono [OF run_spec_fail]) simp

lemma ends_requeue [ends_intros]: "q \<noteq> Done \<Longrightarrow> ends E (stop_with q)"
  unfolding ends_def stop_with_def by (rule run_spec_mono [OF run_spec_fail]) simp

lemma ends_get [ends_intros]: "ends E (getP f)"
  unfolding ends_def by (rule run_spec_mono [OF run_spec_get]) simp

lemma ends_panic [ends_intros]: "ends E (liftP Panic)"
  unfolding ends_def by (rule run_spec_mono [OF run_spec_lift]) simp

lemma ends_modify: "(\<And>s. sys_trace (f s) = sys_trace s) \<Longrightarrow> ends E (modifyP f)"
  unfolding ends_def by (rule run_spec_mono [OF run_spec_modify]) auto

lemma ends_if [ends_intros]:
  "(b \<Longrightarrow> ends E m) \<Longrightarrow> (\<not> b \<Longrightarrow> ends E n) \<Longrightarrow> ends E (if b then m else n)"
  by simp

lemma ends_case_option [ends_intros]:
  "(x = None \<Longrightarrow> ends E m) \<Longrightarrow> (\<And>y. x = Some y \<Longrightarrow> ends E (f y)) \<Longrightarrow>
     ends E (case x of None \<Rightarrow> m | Some y \<Rightarrow> f y)"
  by (cases x) auto

lemma ends_case_go [ends_intros]:
  "(\<And>y. x = Ok y \<Longrightarrow> ends E (f y)) \<Longrightarrow> (\<And>e. x = Fail e \<Longrightarrow> ends E (g e)) \<Longrightarrow>
   (x = Panic \<Longrightarrow> ends E p) \<Longrightarrow> ends E (case x of Ok y \<Rightarrow> f y | Fail e \<Rightarrow> g e | Panic \<Rightarrow> p)"
  by (cases x) auto

lemma ends_concluded_loop [ends_intros]:
  assumes "\<And>x a. x \<in> set xs \<Longrightarrow> ends (concluded L K req) (f x a)"
  shows "ends (concluded L K req) (loopP f xs acc)"
  using assms by (induction xs arbitrary: acc) (auto intro!: ends_intros)

section \<open>Reports\<close>

lemma ok_update_status:
  "ok_spec (update_status L K m c ds) (\<lambda>_ tr. \<exists>pre p. tr = pre @ [(UpdateStatus p, True)] \<and>
     state (p2m_status p) = cond_type c)"
  unfolding update_status_def Let_def
proof (rule ok_spec_bind [where ?Q1.0 = "\<lambda>_ _. True"])
  show "ok_spec (invoke (GetManifest k) f) (\<lambda>_ _. True)" for k f
    by (rule ok_spec_invoke) simp
  show "ok_spec (invoke (UpdateStatus (with_status L c ds q)) (cl_update_status K (with_status L c ds q)))
      (\<lambda>_ tr. tr = [(UpdateStatus (with_status L c ds q), True)])" for q
    by (rule ok_spec_invoke) simp
qed (auto simp: with_status_def)

lemma ends_report [ends_intros]:
  assumes "cond_type c \<in> set terminal_states"
  shows "ends (concluded L K req) (report L K m c ds)"
proof -
  have update: "run_spec (raising (update_status L K m c ds)) (\<lambda>s r tr s'.
      (\<forall>x. r = Ok x \<longrightarrow> concluded L K req tr) \<and> r \<noteq> Fail (Return Done))"
    by (rule run_spec_raising [OF ok_update_status [unfolded ok_spec_def]])
       (use assms in \<open>auto simp: concluded_def concludes_def\<close>)
  have stop: "run_spec (stop_with Done) (\<lambda>s r tr s'. tr = [])"
    unfolding stop_with_def by (rule run_spec_mono [OF run_spec_fail]) simp
  show ?thesis
    unfolding ends_def report_def
    by (rule run_spec_bind [OF update stop]) auto
qed

lemma terminal_true_condition [simp]:
  "cond_type (true_condition t reason msg) = t"
  by (simp add: true_condition_def)

lemma terminal_states_simps [simp]:
  "misconfigured \<in> set terminal_states" "scheduling_failed \<in> set terminal_states"
  "unreliably_scheduled \<in> set terminal_states" "tentatively_scheduled \<in> set terminal_states"
  "scheduling_successful \<in> set terminal_states"
  by (simp_all add: terminal_states_def)

lemma final_condition_terminal [simp]: "cond_type (final_condition m bl n) \<in> set terminal_states"
  by (simp add: final_condition_def)

text \<open>The condition of an unsatisfied placement is always a failure.\<close>

lemma ok_failed_condition:
  "ok_spec (extract_failed_condition K c n) (\<lambda>c' tr. cond_type c' = scheduling_failed)"
proof -
  have read: "ok_spec (does_managed_cluster_set_exist K n) (\<lambda>_ _. True)"
    by (rule ok_spec_emits [OF reporting.emits_does_exist])
  show ?thesis
    unfolding extract_failed_condition_def
    by (intro ok_spec_if ok_spec_ret ok_spec_bind [OF read, where
          ?Q2.0 = "\<lambda>_ c' _. cond_type c' = scheduling_failed"]) simp_all
qed

section \<open>The stages of a run\<close>

lemma ends_namespace: "ends (concluded L K req) (check_namespace L K req m)"
  unfolding check_namespace_def by (intro ends_intros) simp

lemma ends_validate: "ends (concluded L K req) (validate_manifest L K m)"
  unfolding validate_manifest_def check_annotations_def read_target_def check_cluster_set_def
  by (intro ends_intros anything.emits_does_exist anything.emits_empty anything.emits_bound) simp_all

lemma ends_or_misconfigured: "ends (concluded L K req) (or_misconfigured L K m r)"
  unfolding or_misconfigured_def
  by (intro ends_intros emits_lift) simp_all

lemma ends_target: "ends (concluded L K req) (target_cluster_bundles C L K m n c bl)"
  unfolding target_cluster_bundles_def
  by (intro ends_intros ends_or_misconfigured anything.emits_in_set emits_lift) simp_all

lemma ends_place: "ends (concluded L K req) (place_bundle L K m b)"
proof -
  have failed: "ends (concluded L K req) (bindP (raising (extract_failed_condition K c n)) (\<lambda>c'. report L K m c' []))"
    for c n
    unfolding ends_def
  proof (rule run_spec_bind [where ?Q2.0 = "\<lambda>c' s r tr s'. cond_type c' = scheduling_failed \<longrightarrow>
      r = Fail (Return Done) \<longrightarrow> concluded L K req tr"])
    show "run_spec (raising (extract_failed_condition K c n))
        (\<lambda>s r tr s'. (\<forall>x. r = Ok x \<longrightarrow> cond_type x = scheduling_failed) \<and> r \<noteq> Fail (Return Done))"
      by (rule run_spec_raising [OF ok_failed_condition [unfolded ok_spec_def]]) auto
    show "run_spec (report L K m c' []) (\<lambda>s r tr s'. cond_type c' = scheduling_failed \<longrightarrow>
        r = Fail (Return Done) \<longrightarrow> concluded L K req tr)" for c'
      using ends_report [of c' L K req m "[]"]
      by (cases "cond_type c' = scheduling_failed")
         (auto simp: ends_def intro: run_spec_mono [OF run_spec_sends [OF sends_emits [OF anything.emits_report]]])
  qed (auto intro: concluded_append)
  have selected: "ends (concluded L K req) (handleP (get_selected_cluster K p) (\<lambda>e. failP (Raise (h e))))" for p h
    unfolding ends_def
  proof (rule run_specI)
    fix s r s'
    assume run: "handleP (get_selected_cluster K p) (\<lambda>e. failP (Raise (h e))) s = (r, s')"
    obtain q s1 where q: "get_selected_cluster K p s = (q, s1)" by fastforce
    from run_specD [OF run_spec_emits [OF anything.emits_selected] q] run q
    show "\<exists>tr. sys_trace s' = sys_trace s @ tr \<and> (r = Fail (Return Done) \<longrightarrow> concluded L K req tr)"
      by (cases q) (auto simp: handleP_def failP_def)
  qed
  show ?thesis
    unfolding place_bundle_def
    by (intro ends_intros failed selected anything.emits_associated emits_lift) simp_all
qed

lemma ends_choose: "ends (concluded L K req) (choose_clusters C L K m n c)"
  unfolding choose_clusters_def placed_workload_bundles_def place_bundles_def announce_placement_def
  by (intro ends_intros ends_target ends_or_misconfigured ends_place anything.emits_update_status)

lemma ends_clean_up: "ends (concluded L K req) (clean_up_old_bundles K n bl)"
  unfolding clean_up_old_bundles_def clean_up_bundle_def Let_def
  by (intro ends_intros anything.emits_delete_placement anything.emits_delete_work)

lemma ends_apply:
  fixes K :: "('r, 'w) client"
  shows "ends (concluded L K req) (apply_bundles K owner bl)"
  unfolding apply_bundles_def apply_bundle_def Let_def
proof (intro ends_concluded_loop ends_concluded_bind)
  fix b :: "'r workload_bundle" and r :: "go_error + 'r manifest_work"
  show "ends (concluded L K req) (attemptP (invoke (GetWork (work_key b)) (cl_get_work K (work_key b))))"
    unfolding ends_def
    by (rule run_specI) (auto simp: attemptP_def invoke_def split: prod.splits sum.splits)
  show "ends (concluded L K req) (case r of
      Inl (Api (NotFound t)) \<Rightarrow> raising (invoke (CreateWork (work_of owner b)) (cl_create_work K (work_of owner b)))
    | Inl _ \<Rightarrow> raising (invoke (UpdateWork (zero_work\<lparr>work_spec := work_spec (work_of owner b)\<rparr>))
        (cl_update_work K (zero_work\<lparr>work_spec := work_spec (work_of owner b)\<rparr>)))
    | Inr old \<Rightarrow> raising (invoke (UpdateWork (old\<lparr>work_spec := work_spec (work_of owner b)\<rparr>))
        (cl_update_work K (old\<lparr>work_spec := work_spec (work_of owner b)\<rparr>))))"
    by (auto split: sum.splits go_error.splits api_error.splits intro!: ends_raising emits_invoke
        simp: any_request_def)
qed (rule ends_ret)

lemma ends_check_works: "ends (concluded L K req) (check_works L K owner m bl)"
  unfolding check_works_def check_work_def
  by (intro ends_intros anything.emits_owned emits_lift) simp_all

lemma ends_connect: "ends (concluded L K req) (connect_bundles L K m bl)"
  unfolding connect_bundles_def
  by (intro ends_intros anything.emits_installed anything.emits_delete_links anything.emits_register
      emits_lift) simp_all

section \<open>Whole runs\<close>

text \<open>The last stage ends the run with a result as well.\<close>

definition finishes :: "('r events \<Rightarrow> bool) \<Rightarrow> ('r, 'w, stop, ctrl_result) sysP \<Rightarrow> bool" where
  "finishes E m \<longleftrightarrow> run_spec m (\<lambda>s r tr s'. outcome r = Ok Done \<longrightarrow> E tr)"

lemma finishes_bind:
  assumes "ends (concluded L K req) m" and "\<And>x. finishes (concluded L K req) (f x)"
  shows "finishes (concluded L K req) (bindP m f)"
  unfolding finishes_def
  by (rule run_spec_bind [OF assms [unfolded ends_def finishes_def]])
     (auto simp: outcome_def intro: concluded_append split: stop.splits)

lemma finishes_complete: "finishes (concluded L K req) (complete L K m bl n)"
proof -
  let ?c = "final_condition m bl n" and ?ds = "get_scheduling_decisions bl"
  have update: "run_spec (raising (update_status L K m ?c ?ds)) (\<lambda>s r tr s'.
      (\<forall>x. r = Ok x \<longrightarrow> concluded L K req tr) \<and> r \<noteq> Fail (Return Done))"
    by (rule run_spec_raising [OF ok_update_status [unfolded ok_spec_def]])
       (auto simp: concluded_def concludes_def)
  have keep: "run_spec (bindP (modifyP (\<lambda>s. s\<lparr>sys_bundles := (sys_bundles s)(k \<mapsto> bl)\<rparr>)) (\<lambda>_. retP Done))
      (\<lambda>s r tr s'. tr = [])" for k
    by (rule run_specI) (auto simp: bindP_def modifyP_def retP_def)
  have stored: "finishes (concluded L K req) (bindP (raising (update_status L K m ?c ?ds)) (\<lambda>m'.
      bindP (modifyP (\<lambda>s. s\<lparr>sys_bundles := (sys_bundles s)(p2m_name m' \<mapsto> bl)\<rparr>)) (\<lambda>_. retP Done)))"
    unfolding finishes_def
    by (rule run_spec_bind [OF update keep]) (auto simp: outcome_def split: stop.splits)
  have reported: "finishes (concluded L K req) (report L K m ?c ?ds)"
    unfolding finishes_def
    by (rule run_spec_mono [OF run_spec_conj [OF ends_report [OF final_condition_terminal, unfolded ends_def]
          ok_spec_report [where Q = "\<lambda>_ _. False", unfolded ok_spec_def]]])
       (auto simp: outcome_def split: go.splits stop.splits)
  from stored reported show ?thesis
    by (simp add: complete_def Let_def)
qed

lemma finishes_schedule: "finishes (concluded L K req) (schedule C L K m)"
proof -
  have roll: "finishes (concluded L K req) (roll_out L K m' bl)" for m' bl
    unfolding roll_out_def
    by (intro finishes_bind finishes_complete ends_clean_up ends_get ends_apply ends_check_works ends_connect)
  show ?thesis
    unfolding schedule_def case_prod_beta'
    by (intro finishes_bind roll ends_validate ends_choose)
qed

section \<open>Deletion, start and the whole method\<close>

lemma ends_release: "ends (concluded L K req) (release L K m)"
proof -
  have remove: "ends (concluded L K req)
      (bindP (raising (invoke (UpdateManifest m'') (cl_update_manifest K m''))) (\<lambda>_. stop_with Done))"
    if "remove_finalizer L fs0 finalizer = Some (p2m_finalizers m'')" for m'' fs0
    unfolding ends_def
  proof (rule run_spec_bind [OF run_spec_raising [OF run_spec_invoke, where
        Q = "\<lambda>s r tr s'. (\<forall>x. r = Ok x \<longrightarrow> tr = [(UpdateManifest m'', True)]) \<and> r \<noteq> Fail (Return Done)"]])
    show "run_spec (stop_with Done) (\<lambda>s r tr s'. tr = [])"
      unfolding stop_with_def by (rule run_spec_mono [OF run_spec_fail]) simp
  qed (use that in \<open>auto simp: answered_def concluded_def concludes_def\<close>)
  show ?thesis
    unfolding release_def Let_def
    by (intro ends_intros remove anything.emits_update_status) simp_all
qed

lemma ends_finalize: "ends (concluded L K req) (finalize L K m)"
  unfolding finalize_def remove_stored_links_def
  by (intro ends_intros ends_release ends_modify anything.emits_update_status anything.emits_delete_owned
      anything.emits_installed anything.emits_delete_links emits_lift) simp_all

lemma run_deletion_ends:
  "run_spec (handle_deletion L K m) (\<lambda>s r tr s'. r = Fail (Return Done) \<longrightarrow> concluded L K req tr \<or>
     (tr = [] \<and> p2m_deleting m \<and> \<not> contains_finalizer L (p2m_finalizers m) finalizer))"
proof -
  have stop: "run_spec (stop_with Done) (\<lambda>s r tr s'. tr = [])"
    unfolding stop_with_def by (rule run_spec_mono [OF run_spec_fail]) simp
  show ?thesis
    unfolding handle_deletion_def
    by (intro run_spec_if run_spec_mono [OF ends_finalize [unfolded ends_def]] run_spec_mono [OF stop]
        run_spec_mono [OF run_spec_ret]) auto
qed

text \<open>After the finalizer stage the manifest has the finalizer, or it is the answer to its update.\<close>

lemma run_finalizer_ends:
  "run_spec (ensure_finalizer L K req0 m) (\<lambda>s r tr s'. r \<noteq> Fail (Return Done) \<and>
     (\<forall>x. r = Ok x \<longrightarrow> contains_finalizer L (p2m_finalizers x) finalizer \<or>
        (\<exists>pre p w w'. tr = pre @ [(UpdateManifest p, True)] \<and> cl_update_manifest K p w = (Inr x, w'))))"
proof -
  let ?Q = "\<lambda>s r tr s'. r \<noteq> Fail (Return Done) \<and> (\<forall>x. r = Ok x \<longrightarrow>
     (\<exists>pre p w w'. tr = pre @ [(UpdateManifest p, True)] \<and> cl_update_manifest K p w = (Inr x, w')))"
  have update: "run_spec (raising (invoke (UpdateManifest p) (cl_update_manifest K p))) ?Q" for p
    by (rule run_spec_raising [OF run_spec_invoke]) (auto simp: answered_def)
  have add: "run_spec (case add_finalizer L (p2m_finalizers m) finalizer of
          None \<Rightarrow> stop_with Requeue
        | Some fs \<Rightarrow> (let m' = m\<lparr>p2m_finalizers := fs\<rparr>
           in raising (invoke (UpdateManifest m') (cl_update_manifest K m')))) ?Q" for m
  proof (cases "add_finalizer L (p2m_finalizers m) finalizer")
    case None
    then show ?thesis
      by (auto simp: stop_with_def intro: run_spec_mono [OF run_spec_fail])
  next
    case (Some fs)
    show ?thesis unfolding Some option.case Let_def by (rule update)
  qed
  have read: "run_spec (raising (invoke (GetManifest req0) (cl_get_manifest K req0)))
      (\<lambda>s r tr s'. r \<noteq> Fail (Return Done))"
    by (rule run_spec_raising [OF run_spec_invoke]) auto
  have "run_spec (bindP (raising (invoke (GetManifest req0) (cl_get_manifest K req0))) (\<lambda>m.
        case add_finalizer L (p2m_finalizers m) finalizer of
          None \<Rightarrow> stop_with Requeue
        | Some fs \<Rightarrow> (let m' = m\<lparr>p2m_finalizers := fs\<rparr>
           in raising (invoke (UpdateManifest m') (cl_update_manifest K m'))))) ?Q"
    by (rule run_spec_bind [OF read add]) (auto, metis append.assoc)
  then show ?thesis
    unfolding ensure_finalizer_def
    by (intro run_spec_if run_spec_mono [OF run_spec_ret]) (auto elim: run_spec_mono)
qed

lemma finishes_after_namespace:
  "finishes (concluded L K req) (bindP (ensure_finalizer L K req0 m) (\<lambda>m.
     bindP (handle_deletion L K m) (\<lambda>_. schedule C L K m)))"
proof -
  have rest: "run_spec (bindP (handle_deletion L K m) (\<lambda>_. schedule C L K m)) (\<lambda>s r tr s'.
      outcome r = Ok Done \<longrightarrow> concluded L K req tr \<or>
        (tr = [] \<and> p2m_deleting m \<and> \<not> contains_finalizer L (p2m_finalizers m) finalizer))" for m
    by (rule run_spec_bind [OF run_deletion_ends finishes_schedule [unfolded finishes_def]])
       (auto simp: outcome_def intro: concluded_append split: stop.splits)
  show ?thesis
    unfolding finishes_def
  proof (rule run_spec_bind [OF run_finalizer_ends rest])
    fix s :: "('a, 'b) sys" and x t1 s1 r t2 s'
    assume "Ok x \<noteq> Fail (Return Done) \<and> (\<forall>y. Ok x = Ok y \<longrightarrow> contains_finalizer L (p2m_finalizers y) finalizer \<or>
        (\<exists>pre p w w'. t1 = pre @ [(UpdateManifest p, True)] \<and> cl_update_manifest K p w = (Inr y, w')))"
      and "outcome r = Ok Done \<longrightarrow> concluded L K req t2 \<or>
        (t2 = [] \<and> p2m_deleting x \<and> \<not> contains_finalizer L (p2m_finalizers x) finalizer)"
    then show "outcome r = Ok Done \<longrightarrow> concluded L K req (t1 @ t2)"
      by (auto intro: concluded_append) (auto simp: concluded_def concludes_def)
  qed (auto simp: outcome_def split: stop.splits)
qed

lemma ends_start: "ends (concluded L K req) (start_reconcile L K req)"
proof -
  let ?set = "\<lambda>m. bindP (raising (liftP (truncate_name_if_needed L (p2m_name m)))) (\<lambda>owner.
         bindP (modifyP (\<lambda>s. s\<lparr>sys_owner := owner\<rparr>)) (\<lambda>_.
         case get_in_progress_state m of
           None \<Rightarrow> retP m
         | Some c \<Rightarrow> raising (update_status L K m c [])))"
  have read: "run_spec (attemptP (invoke (GetManifest req) (cl_get_manifest K req)))
      (\<lambda>s r tr s'. r \<noteq> Fail (Return Done) \<and> (\<forall>e. r = Ok (Inl e) \<longrightarrow> tr = [(GetManifest req, False)]))"
    by (rule run_specI) (auto simp: attemptP_def invoke_def split: prod.splits sum.splits)
  have set: "ends (concluded L K req) (?set m)" for m
    by (intro ends_intros ends_modify emits_lift anything.emits_update_status) simp_all
  have next_step: "run_spec (case q of Inl (Api (NotFound t)) \<Rightarrow> stop_with Done | Inl e \<Rightarrow> failP (Raise e) | Inr m \<Rightarrow> ?set m)
      (\<lambda>s r tr s'. r = Fail (Return Done) \<longrightarrow> concluded L K req tr \<or> (tr = [] \<and> (\<exists>e. q = Inl e)))" for q
    using set [unfolded ends_def]
    by (auto simp: stop_with_def split: sum.splits go_error.splits api_error.splits
        intro: run_spec_mono [OF run_spec_fail] elim: run_spec_mono)
  show ?thesis
    unfolding ends_def start_reconcile_def
    by (rule run_spec_bind [OF read next_step])
       (auto intro: concluded_append, auto simp: concluded_def concludes_def)
qed

lemma run_concludes:
  "run_spec (reconcile C L K req) (\<lambda>s r tr s'. r = Ok Done \<longrightarrow> concluded L K req tr)"
proof -
  have "finishes (concluded L K req) (reconcile_steps C L K req)"
    unfolding reconcile_steps_def
    by (intro finishes_bind finishes_after_namespace ends_start ends_namespace)
  then show ?thesis
    unfolding reconcile_def finishes_def by (rule run_spec_return) simp
qed

end
