(* ===== verification/P2_Success.thy ===== *)
theory P2_Success
  imports P2_Reachable P2_Liveness
begin

text \<open>
  When a run may report success: a status that says the workloads are scheduled (with or
  without reservations) is sent only after the ManifestWork of every bundle was written and
  the server listed exactly as many ManifestWorks under the owner label, each found applied.
\<close>

section \<open>Reports of success\<close>

definition success_states :: "string list" where
  "success_states = [scheduling_successful, tentatively_scheduled, unreliably_scheduled]"

definition claims_success :: "'r call \<Rightarrow> bool" where
  "claims_success c \<longleftrightarrow> (\<exists>p. c = UpdateStatus p \<and> state (p2m_status p) \<in> set success_states)"

definition modest :: "'r call \<Rightarrow> bool" where
  "modest c \<longleftrightarrow> \<not> claims_success c"

text \<open>
  What a run may send once the ManifestWorks are found applied: no write to them, and
  success only with the decisions of the bundles and by the count of the manifests.
\<close>

definition honest :: "'r p2m \<Rightarrow> 'r bundle_list \<Rightarrow> 'r call \<Rightarrow> bool" where
  "honest m bl c \<longleftrightarrow> \<not> is_work_write c \<and>
     (\<forall>p. c = UpdateStatus p \<and> state (p2m_status p) \<in> set success_states \<longrightarrow>
        decisions (p2m_status p) = get_scheduling_decisions bl \<and>
        (state (p2m_status p) = scheduling_successful \<longrightarrow> length (manifests (p2m_spec m)) \<le> placed_count bl) \<and>
        (state (p2m_status p) = tentatively_scheduled \<longrightarrow> placed_count bl < length (manifests (p2m_spec m))))"

lemma modest_cases: "(\<And>p. c \<noteq> UpdateStatus p) \<Longrightarrow> modest c"
  by (simp add: modest_def claims_success_def)

lemma modest_status: "state (p2m_status p) \<notin> set success_states \<Longrightarrow> modest (UpdateStatus p)"
  by (simp add: modest_def claims_success_def)

lemma modest_honest: "modest c \<Longrightarrow> \<not> is_work_write c \<Longrightarrow> honest m bl c"
  by (auto simp: modest_def claims_success_def honest_def)

lemma success_states_simps [simp]:
  "scheduling_in_progress \<notin> set success_states" "scheduling_failed \<notin> set success_states"
  "misconfigured \<notin> set success_states" "finalizing \<notin> set success_states"
  "scheduling_successful \<in> set success_states" "tentatively_scheduled \<in> set success_states"
  "unreliably_scheduled \<in> set success_states"
  by (simp_all add: success_states_def condition_types)

text \<open>Every request but a status update keeps to both policies.\<close>

locale silent_policy = placement_policy + work_delete_policy + network_policy

lemma read_not_status: "is_read c \<Longrightarrow> c \<noteq> UpdateStatus p" "is_placement_write c \<Longrightarrow> c \<noteq> UpdateStatus p"
  "is_network_write c \<Longrightarrow> c \<noteq> UpdateStatus p"
  by auto

lemma write_not_work: "is_read c \<Longrightarrow> \<not> is_work_write c" "is_placement_write c \<Longrightarrow> \<not> is_work_write c"
  "is_network_write c \<Longrightarrow> \<not> is_work_write c"
  by (cases c; simp)+

interpretation unclaiming: silent_policy modest
  by unfold_locales (auto intro!: modest_cases)

interpretation honestly: silent_policy "honest m bl"
  by unfold_locales (auto intro!: modest_honest modest_cases simp: write_not_work)

section \<open>Stages that report no success\<close>

lemma emits_modest_status:
  "cond_type c \<notin> set success_states \<Longrightarrow> emits modest (update_status L K m c ds)"
  unfolding update_status_def Let_def
  by (intro emits_intros unclaiming.reads_allowed modest_status) (simp_all add: with_status_def)

lemma emits_modest_report:
  "cond_type c \<notin> set success_states \<Longrightarrow> emits modest (report L K m c ds)"
  unfolding report_def by (intro emits_intros emits_modest_status)

lemma in_progress_type: "get_in_progress_state m = Some c \<Longrightarrow> cond_type c = scheduling_in_progress"
  by (auto simp: get_in_progress_state_def split: if_splits)

lemma emits_bind_result:
  assumes "emits P m" and "\<And>s x s'. m s = (Ok x, s') \<Longrightarrow> emits P (f x)"
  shows "emits P (bindP m f)"
proof (rule emitsI)
  fix s r s'
  assume run: "bindP m f s = (r, s')"
  obtain q t where q: "m s = (q, t)" by fastforce
  note t = emitsD [OF assms(1) q]
  show "sys_bundles s' = sys_bundles s \<and> sys_owner s' = sys_owner s \<and>
    (\<exists>tr. sys_trace s' = sys_trace s @ tr \<and> list_all (\<lambda>e. P (fst e)) tr)"
  proof (cases q)
    case (Ok x)
    with run q have "f x t = (r, s')" by (simp add: bindP_def)
    from emitsD [OF assms(2) this] q Ok t show ?thesis by fastforce
  qed (use run q t in \<open>auto simp: bindP_def\<close>)
qed

lemma sends_modest_start: "sends modest (start_reconcile L K req)"
proof -
  have read: "sends modest (attemptP (invoke (GetManifest req) (cl_get_manifest K req)))"
    by (intro sends_emits emits_intros unclaiming.reads_allowed) simp
  have set: "sends modest (bindP (raising (liftP (truncate_name_if_needed L (p2m_name m)))) (\<lambda>owner.
      bindP (modifyP (\<lambda>s. s\<lparr>sys_owner := owner\<rparr>)) (\<lambda>_.
      case get_in_progress_state m of None \<Rightarrow> retP m | Some c \<Rightarrow> raising (update_status L K m c []))))" for m
    by (intro sends_bind sends_modify sends_case_option sends_emits emits_intros emits_modest_status)
       (simp_all add: in_progress_type)
  show ?thesis
    unfolding start_reconcile_def
    by (rule sends_bind [OF read])
       (auto split: sum.splits go_error.splits api_error.splits intro: set sends_emits emits_stop emits_fail)
qed

lemma sends_modest_deletion: "sends modest (handle_deletion L K m)"
proof -
  have manifest: "modest (UpdateManifest q)" for q by (rule modest_cases) simp
  have release: "emits modest (release L K m)" for m
    unfolding release_def Let_def
    by (intro emits_intros emits_modest_status manifest) simp
  have links: "emits modest (remove_stored_links L K n)" for n
    unfolding remove_stored_links_def by (intro emits_intros unclaiming.emits_delete_links)
  show ?thesis
    unfolding handle_deletion_def finalize_def
    by (intro sends_if sends_bind sends_modify sends_emits emits_intros emits_modest_status release links
        unclaiming.emits_delete_owned unclaiming.emits_installed) simp_all
qed

lemma sends_modest_approach: "sends modest (approach L K req)"
proof -
  have manifest: "modest (UpdateManifest q)" for q by (rule modest_cases) simp
  have ns: "emits modest (check_namespace L K req m)" for m
    unfolding check_namespace_def by (intro emits_intros emits_modest_report) simp
  have fin: "emits modest (ensure_finalizer L K req m)" for m
    unfolding ensure_finalizer_def Let_def
    by (intro emits_intros unclaiming.reads_allowed manifest) simp
  show ?thesis
    unfolding approach_def
    by (intro sends_bind sends_modest_start sends_modest_deletion sends_emits ns fin emits_ret)
qed

lemma emits_modest_validate: "emits modest (validate_manifest L K m)"
  unfolding validate_manifest_def check_annotations_def read_target_def check_cluster_set_def
  by (intro emits_intros emits_modest_report unclaiming.emits_does_exist unclaiming.emits_empty
      unclaiming.emits_bound) simp_all

lemma emits_modest_misconfigured: "emits modest (or_misconfigured L K m r)"
  unfolding or_misconfigured_def by (intro emits_intros emits_modest_report) simp

lemma emits_modest_place: "emits modest (place_bundle L K m b)"
proof -
  have failed: "emits modest (bindP (raising (extract_failed_condition K c n)) (\<lambda>c'. report L K m c' []))" for c n
  proof (rule emits_bind_result [OF emits_raising [OF unclaiming.emits_failed_condition]])
    fix s x s'
    assume "raising (extract_failed_condition K c n) s = (Ok x, s')"
    from run_specD [OF ok_spec_raising [OF ok_failed_condition, unfolded ok_spec_def] this]
    have "cond_type x = scheduling_failed" by blast
    then show "emits modest (report L K m x [])" by (intro emits_modest_report) simp
  qed
  show ?thesis
    unfolding place_bundle_def
    by (intro emits_intros unclaiming.emits_associated unclaiming.emits_selected failed)
qed

lemma emits_modest_choose: "emits modest (choose_clusters C L K m n c)"
  unfolding choose_clusters_def target_cluster_bundles_def placed_workload_bundles_def place_bundles_def
    announce_placement_def
  by (intro emits_intros emits_modest_misconfigured emits_modest_place emits_modest_status emits_modest_report
      unclaiming.emits_in_set) simp_all

lemma emits_modest_clean_up: "emits modest (clean_up_old_bundles K n bl)"
  unfolding clean_up_old_bundles_def clean_up_bundle_def Let_def
  by (intro emits_intros unclaiming.emits_delete_placement unclaiming.emits_delete_work)

lemma emits_modest_apply: "emits modest (apply_bundles K owner bl)"
  by (rule emits_mono [OF emits_apply]) (auto simp: reads_or_writes_works_def intro!: modest_cases)

lemma emits_modest_check: "emits modest (check_works L K owner m bl)"
  unfolding check_works_def check_work_def
  by (intro emits_intros unclaiming.emits_owned emits_modest_report) simp

section \<open>Stages after the works are found applied\<close>

lemma emits_honest_status:
  assumes "\<And>p. state (p2m_status p) = cond_type c \<Longrightarrow> decisions (p2m_status p) = ds \<Longrightarrow> honest m' bl (UpdateStatus p)"
  shows "emits (honest m' bl) (update_status L K m c ds)"
  unfolding update_status_def Let_def
  by (intro emits_intros honestly.reads_allowed assms) (simp_all add: with_status_def)

lemma emits_honest_connect: "emits (honest m bl) (connect_bundles L K m bl)"
proof -
  have "emits (honest m bl) (report L K m (true_condition unreliably_scheduled x y) (get_scheduling_decisions bl))" for x y
    unfolding report_def
    by (intro emits_intros emits_honest_status) (simp add: honest_def true_condition_def condition_types)
  then show ?thesis
    unfolding connect_bundles_def
    by (intro emits_intros honestly.emits_installed honestly.emits_delete_links honestly.emits_register)
qed

lemma sends_honest_complete: "sends (honest m bl) (complete L K m bl (placed_count bl))"
proof -
  have "emits (honest m bl) (update_status L K m (final_condition m bl (placed_count bl)) (get_scheduling_decisions bl))"
    by (rule emits_honest_status)
       (auto simp: honest_def final_condition_def true_condition_def condition_types split: if_splits)
  then show ?thesis
    unfolding complete_def Let_def report_def
    by (intro sends_if sends_bind sends_modify sends_emits emits_intros) simp_all
qed

section \<open>Whole runs\<close>

definition success_backed ::
    "lib \<Rightarrow> ('r, 'w) client \<Rightarrow> string \<Rightarrow> 'r p2m \<Rightarrow> 'r bundle_list \<Rightarrow> 'r events \<Rightarrow> bool" where
  "success_backed L K owner m bl tr \<longleftrightarrow> list_all (\<lambda>e. modest (fst e)) tr \<or>
     (\<exists>before rest. tr = before @ rest \<and> list_all (\<lambda>e. modest (fst e)) before \<and>
        list_all2 (serves K owner) bl (work_writes before) \<and> works_applied L K owner bl before \<and>
        list_all (\<lambda>e. honest m bl (fst e)) rest)"

lemma success_backed_prefix:
  assumes "list_all (\<lambda>e. modest (fst e)) t1" and "work_writes t1 = []" and "success_backed L K owner m bl t2"
  shows "success_backed L K owner m bl (t1 @ t2)"
proof (cases "list_all (\<lambda>e. modest (fst e)) t2")
  case False
  with assms(3) obtain before rest where b: "t2 = before @ rest" "list_all (\<lambda>e. modest (fst e)) before"
    "list_all2 (serves K owner) bl (work_writes before)" "works_applied L K owner bl before"
    "list_all (\<lambda>e. honest m bl (fst e)) rest" unfolding success_backed_def by blast
  have "works_applied L K owner bl (t1 @ before)" by (rule works_applied_mono [OF b(4)]) simp
  with b assms(1,2) show ?thesis
    unfolding success_backed_def by (intro disjI2 exI [of _ "t1 @ before"] exI [of _ rest]) simp
qed (use assms(1) in \<open>simp add: success_backed_def\<close>)

lemma run_roll_out_success:
  "run_spec (roll_out L K m bl) (\<lambda>s r tr s'. success_backed L K (sys_owner s) m bl tr)"
proof -
  let ?quiet = "list_all (\<lambda>e. modest (fst e))" and ?honest = "list_all (\<lambda>e. honest m bl (fst e))"
  have last: "run_spec (bindP (connect_bundles L K m bl) (\<lambda>_. complete L K m bl (placed_count bl)))
      (\<lambda>s r tr s'. ?honest tr)"
    by (intro run_spec_sends sends_bind sends_honest_complete sends_emits [OF emits_honest_connect])
  have check: "run_spec (check_works L K owner m bl) (\<lambda>s r tr s'. ?quiet tr \<and> work_writes tr = [] \<and>
      (\<forall>x. r = Ok x \<longrightarrow> works_applied L K owner bl tr))" for owner
    by (rule run_spec_mono [OF run_spec_conj [OF run_spec_emits [OF emits_modest_check]
          run_spec_ok [OF workless.emits_check_works ok_check_works]]]) (simp add: work_writes_none_iff)
  let ?C = "\<lambda>owner tr. ?quiet tr \<or> (\<exists>before rest. tr = before @ rest \<and> ?quiet before \<and>
      work_writes before = [] \<and> works_applied L K owner bl before \<and> ?honest rest)"
  have 1: "run_spec (bindP (check_works L K owner m bl) (\<lambda>_. bindP (connect_bundles L K m bl)
      (\<lambda>_. complete L K m bl (placed_count bl)))) (\<lambda>s r tr s'. ?C owner tr)" for owner
    by (rule run_spec_bind [OF check last]) auto
  have app: "run_spec (apply_bundles K owner bl) (\<lambda>s r tr s'. ?quiet tr \<and>
      (\<forall>n. r = Ok n \<longrightarrow> n = placed_count bl \<and> list_all2 (serves K owner) bl (work_writes tr)))" for owner
    by (rule run_spec_mono [OF run_spec_conj [OF run_spec_ok [OF emits_modest_apply ok_apply] run_apply]]) simp
  have 2: "run_spec (bindP (apply_bundles K owner bl) (\<lambda>placed. bindP (check_works L K owner m bl) (\<lambda>_.
      bindP (connect_bundles L K m bl) (\<lambda>_. complete L K m bl placed)))) (\<lambda>s r tr s'. success_backed L K owner m bl tr)" for owner
  proof (rule run_spec_bind [OF app, where ?Q2.0 = "\<lambda>n s r tr s'. n = placed_count bl \<longrightarrow> ?C owner tr"])
    show "run_spec (bindP (check_works L K owner m bl) (\<lambda>_. bindP (connect_bundles L K m bl)
        (\<lambda>_. complete L K m bl n))) (\<lambda>s r tr s'. n = placed_count bl \<longrightarrow> ?C owner tr)" for n
    proof (cases "n = placed_count bl")
      case False
      have "run_spec (bindP (check_works L K owner m bl) (\<lambda>_. bindP (connect_bundles L K m bl)
        (\<lambda>_. complete L K m bl n))) (\<lambda>s r tr s'. list_all (\<lambda>e. no_work_write (fst e)) tr)"
        by (intro run_spec_sends sends_bind sends_emits [OF workless.emits_check_works]
            sends_emits [OF workless.emits_connect] workless.sends_complete)
      then show ?thesis by (rule run_spec_mono) (simp add: False)
    qed (auto intro: run_spec_mono [OF 1])
    show "success_backed L K owner m bl (t1 @ t2)"
      if "?quiet t1 \<and> (\<forall>n. Ok x = Ok n \<longrightarrow> n = placed_count bl \<and> list_all2 (serves K owner) bl (work_writes t1))"
        and "x = placed_count bl \<longrightarrow> ?C owner t2" for x t1 t2
    proof (cases "?quiet t2")
      case False
      with that obtain before rest where b: "t2 = before @ rest" "?quiet before" "work_writes before = []"
        "works_applied L K owner bl before" "?honest rest" by auto
      moreover have "works_applied L K owner bl (t1 @ before)" by (rule works_applied_mono [OF b(4)]) simp
      ultimately show ?thesis
        unfolding success_backed_def
        by (intro disjI2 exI [of _ "t1 @ before"] exI [of _ rest]) (use that(1) in simp)
    qed (use that(1) in \<open>simp add: success_backed_def\<close>)
  qed (simp_all add: success_backed_def)
  have 3: "run_spec (bindP (getP sys_owner) (\<lambda>owner. bindP (apply_bundles K owner bl) (\<lambda>placed.
      bindP (check_works L K owner m bl) (\<lambda>_. bindP (connect_bundles L K m bl) (\<lambda>_. complete L K m bl placed)))))
      (\<lambda>s r tr s'. success_backed L K (sys_owner s) m bl tr)"
    by (rule run_spec_bind [OF run_spec_get 2]) auto
  have clean: "run_spec (clean_up_old_bundles K (p2m_name m) bl) (\<lambda>s r tr s'. sys_owner s' = sys_owner s \<and>
      ?quiet tr \<and> work_writes tr = [])"
    by (rule run_spec_mono [OF run_spec_conj [OF run_spec_emits [OF emits_modest_clean_up]
          run_spec_emits [OF workless.emits_clean_up]]]) (simp add: work_writes_none_iff)
  show ?thesis
    unfolding roll_out_def
    by (rule run_spec_bind [OF clean 3]) (auto intro: success_backed_prefix, simp_all add: success_backed_def)
qed

definition scheduling_backed ::
    "'r codec \<Rightarrow> lib \<Rightarrow> ('r, 'w) client \<Rightarrow> string \<Rightarrow> 'r p2m \<Rightarrow> 'r events \<Rightarrow> bool" where
  "scheduling_backed C L K owner m tr \<longleftrightarrow> list_all (\<lambda>e. modest (fst e)) tr \<or>
     (\<exists>m' bl before rest. tr = before @ rest \<and> list_all (\<lambda>e. modest (fst e)) before \<and>
        authorised C L K before m bl \<and> rolled_manifest K before m bl m' \<and>
        list_all2 (serves K owner) bl (work_writes before) \<and> works_applied L K owner bl before \<and>
        list_all (\<lambda>e. honest m' bl (fst e)) rest)"

lemma scheduling_backedI:
  assumes "list_all (\<lambda>e. modest (fst e)) t1" and "work_writes t1 = []" and "authorised C L K t1 m bl"
    and "rolled_manifest K t1 m bl m'" and "success_backed L K owner m' bl t2"
  shows "scheduling_backed C L K owner m (t1 @ t2)"
proof (cases "list_all (\<lambda>e. modest (fst e)) t2")
  case False
  with assms(5) obtain before rest where b: "t2 = before @ rest" "list_all (\<lambda>e. modest (fst e)) before"
    "list_all2 (serves K owner) bl (work_writes before)" "works_applied L K owner bl before"
    "list_all (\<lambda>e. honest m' bl (fst e)) rest" unfolding success_backed_def by blast
  have "authorised C L K (t1 @ before) m bl" by (rule authorised_mono [OF assms(3)]) simp
  moreover have "rolled_manifest K (t1 @ before) m bl m'" by (rule rolled_manifest_mono [OF assms(4)]) simp
  moreover have "works_applied L K owner bl (t1 @ before)" by (rule works_applied_mono [OF b(4)]) simp
  ultimately show ?thesis
    unfolding scheduling_backed_def using b assms(1,2)
    by (intro disjI2 exI [of _ m'] exI [of _ bl] exI [of _ "t1 @ before"] exI [of _ rest]) simp
qed (use assms(1) in \<open>simp add: scheduling_backed_def\<close>)

lemma scheduling_backed_prefix:
  assumes "list_all (\<lambda>e. modest (fst e)) t1" and "work_writes t1 = []" and "scheduling_backed C L K owner m t2"
  shows "scheduling_backed C L K owner m (t1 @ t2)"
proof (cases "list_all (\<lambda>e. modest (fst e)) t2")
  case False
  with assms(3) obtain m' bl before rest where b: "t2 = before @ rest" "list_all (\<lambda>e. modest (fst e)) before"
    "authorised C L K before m bl" "rolled_manifest K before m bl m'"
    "list_all2 (serves K owner) bl (work_writes before)" "works_applied L K owner bl before"
    "list_all (\<lambda>e. honest m' bl (fst e)) rest" unfolding scheduling_backed_def by blast
  have "authorised C L K (t1 @ before) m bl" by (rule authorised_mono [OF b(3)]) simp
  moreover have "rolled_manifest K (t1 @ before) m bl m'" by (rule rolled_manifest_mono [OF b(4)]) simp
  moreover have "works_applied L K owner bl (t1 @ before)" by (rule works_applied_mono [OF b(6)]) simp
  ultimately show ?thesis
    unfolding scheduling_backed_def using b assms(1,2)
    by (intro disjI2 exI [of _ m'] exI [of _ bl] exI [of _ "t1 @ before"] exI [of _ rest]) simp
qed (use assms(1) in \<open>simp add: scheduling_backed_def\<close>)

lemma run_schedule_success: "run_spec (schedule C L K m) (\<lambda>s r tr s'. scheduling_backed C L K (sys_owner s) m tr)"
proof -
  have quiet: "run_spec p (\<lambda>s r tr s'. sys_owner s' = sys_owner s \<and> list_all (\<lambda>e. modest (fst e)) tr \<and>
      work_writes tr = [] \<and> (\<forall>x. r = Ok x \<longrightarrow> Q x tr))"
    if "emits modest p" "emits no_work_write p" "ok_spec p Q" for p Q
    by (rule run_spec_mono [OF run_spec_conj [OF run_spec_emits [OF that(1)] run_spec_ok [OF that(2,3)]]])
       (simp add: work_writes_none_iff)
  note validate = quiet [OF emits_modest_validate workless.emits_validate ok_validate]
  have rest: "run_spec (bindP (choose_clusters C L K m n c) (\<lambda>mb. roll_out L K (fst mb) (snd mb)))
      (\<lambda>s r tr s'. extract_target (global_annotations (p2m_spec m)) = Ok (n, c) \<longrightarrow>
        scheduling_backed C L K (sys_owner s) m tr)" for n c
  proof (cases "extract_target (global_annotations (p2m_spec m)) = Ok (n, c)")
    case True
    note choose = quiet [OF emits_modest_choose workless.emits_choose ok_choose [OF True]]
    show ?thesis
      by (rule run_spec_bind [OF choose run_roll_out_success])
         (auto intro: scheduling_backedI, simp_all add: scheduling_backed_def)
  next
    case False
    have "run_spec (choose_clusters C L K m n c) (\<lambda>s r tr s'. True)"
      by (rule run_spec_mono [OF run_spec_emits [OF workless.emits_choose]]) simp
    with False show ?thesis by (intro run_spec_bind [OF _ run_roll_out_success]) auto
  qed
  have "run_spec (bindP (validate_manifest L K m) (\<lambda>t. bindP (choose_clusters C L K m (fst t) (snd t))
      (\<lambda>mb. roll_out L K (fst mb) (snd mb)))) (\<lambda>s r tr s'. scheduling_backed C L K (sys_owner s) m tr)"
    by (rule run_spec_bind [OF validate rest])
       (auto intro: scheduling_backed_prefix, simp_all add: scheduling_backed_def)
  then show ?thesis by (simp add: schedule_def case_prod_beta')
qed

lemma run_reconcile_success:
  "run_spec (reconcile C L K req) (\<lambda>s r tr s'. list_all (\<lambda>e. modest (fst e)) tr \<or>
     (\<exists>m owner. scheduled_manifest L K req (sys_world s) m owner \<and> scheduling_backed C L K owner m tr))"
proof -
  let ?Q = "\<lambda>s (r :: (stop, ctrl_result) go) tr s'. list_all (\<lambda>e. modest (fst e)) tr \<or>
     (\<exists>m owner. scheduled_manifest L K req (sys_world s) m owner \<and> scheduling_backed C L K owner m tr)"
  have approach: "run_spec (approach L K req) (\<lambda>s r tr s'. list_all (\<lambda>e. modest (fst e)) tr \<and> work_writes tr = [])"
    by (rule run_spec_mono [OF run_spec_conj [OF run_spec_sends [OF sends_modest_approach]
          run_spec_sends [OF workless.sends_approach]]]) (simp add: work_writes_none_iff)
  have "run_spec (reconcile C L K req) (\<lambda>s r tr s'. \<exists>q. r = outcome q \<and> ?Q s q tr s')"
    by (rule run_reconcile_by_stages [OF approach run_schedule_success]) (blast intro: scheduling_backed_prefix)+
  then show ?thesis by (rule run_spec_mono) blast
qed

text \<open>What holds of the requests before a report of success.\<close>

lemma success_after_works:
  assumes "scheduling_backed C L K owner m (pre @ (UpdateStatus p, ok) # post)"
    and "state (p2m_status p) \<in> set success_states"
  shows "\<exists>m' bl. authorised C L K pre m bl \<and> rolled_manifest K pre m bl m' \<and>
    list_all2 (serves K owner) bl (work_writes pre) \<and> works_applied L K owner bl pre \<and> honest m' bl (UpdateStatus p)"
proof -
  have claim: "claims_success (UpdateStatus p)" using assms(2) by (simp add: claims_success_def)
  then have "\<not> list_all (\<lambda>e. modest (fst e)) (pre @ (UpdateStatus p, ok) # post)" by (simp add: modest_def)
  with assms(1) obtain m' bl before rest where split: "pre @ (UpdateStatus p, ok) # post = before @ rest"
    and b: "list_all (\<lambda>e. modest (fst e)) before" "authorised C L K before m bl" "rolled_manifest K before m bl m'"
      "list_all2 (serves K owner) bl (work_writes before)" "works_applied L K owner bl before"
      "list_all (\<lambda>e. honest m' bl (fst e)) rest" unfolding scheduling_backed_def by blast
  have "(UpdateStatus p, ok) \<notin> set before" using b(1) claim by (auto simp: list_all_iff modest_def)
  from split_before_member [OF split this] obtain mid where
    mid: "pre = before @ mid" "rest = mid @ (UpdateStatus p, ok) # post" by blast
  have "list_all (\<lambda>e. no_work_write (fst e)) mid"
    using b(6) by (auto simp: mid(2) list_all_iff honest_def no_work_write_def)
  then have "work_writes pre = work_writes before" by (simp add: mid(1) flip: work_writes_none_iff)
  moreover have "set before \<subseteq> set pre" by (simp add: mid(1))
  moreover have "honest m' bl (UpdateStatus p)" using b(6) by (simp add: mid(2))
  ultimately show ?thesis
    using b(2-5) by (metis authorised_mono rolled_manifest_mono works_applied_mono)
qed

end
