(* ===== verification/P2_Requests.thy ===== *)
theory P2_Requests
  imports P2_Reachable P2_Liveness
begin

text \<open>
  How many requests a run can send. Every loop of the controller ranges over a finite slice,
  so a run ends; the theory bounds its requests by the numbers of manifests, of stored
  bundles and of listed ManifestWorks, whatever the server answers. \<open>spends B n m\<close> says
  that \<open>m\<close> sends at most \<open>n\<close> requests from a state with at most \<open>B\<close> bundles per manifest.
\<close>

section \<open>The number of bundles\<close>

lemma bulk_convert_length:
  assumes "bulk_convert_to_resource_set C L ms = Ok rs"
  shows "length rs \<le> length ms"
proof -
  have "length rs' \<le> length acc + length ms"
    if "fold_go (bulk_convert_step C L) ms acc = Ok rs'" for acc rs'
    using that
  proof (induction ms arbitrary: acc)
    case (Cons a ms)
    then obtain acc' where acc': "bulk_convert_step C L a acc = Ok acc'" "fold_go (bulk_convert_step C L) ms acc' = Ok rs'"
      by (auto simp: bind_go_Ok_iff)
    from acc'(1) have "length acc' \<le> Suc (length acc)"
      by (auto simp: bulk_convert_step_def bind_go_Ok_iff rs_add.simps)
    with Cons.IH [OF acc'(2)] show ?case by simp
  qed simp
  from this [of "[]"] assms show ?thesis by (simp add: bulk_convert_to_resource_set_def)
qed

lemma build_length:
  assumes "build_and_update_bundles C L [] m = Ok bl"
  shows "length bl \<le> Suc (length (manifests (p2m_spec m)))"
proof (cases "workload_annotations (p2m_spec m) = []")
  case True
  from build_single [OF assms True] show ?thesis by fastforce
next
  case False
  from build_per_workload [OF assms False] obtain resources common ws where
    conv: "bulk_convert_to_resource_set C L (manifests (p2m_spec m)) = Ok resources" and
    ws: "assign_workload_annotations (filter is_workload resources) (workload_annotations (p2m_spec m)) = Ok ws" and
    bl: "bundles_of C L common (filter (\<lambda>r. \<not> is_workload r) resources) (p2m_name m) ws bl" by blast
  from bl have "length bl = card (bundle_name ` set bl)"
    by (metis bundles_of_def distinct_card length_map list.set_map)
  also have "\<dots> = card (res_name ` set ws)"
    using bl by (simp add: bundles_of_def)
  also have "\<dots> \<le> length ws"
    by (metis card_length list.set_map length_map)
  also have "length ws = length (filter is_workload resources)"
    using assign_keeps_metadata [OF ws] by (metis length_map)
  also have "\<dots> \<le> length resources" by simp
  finally show ?thesis using bulk_convert_length [OF conv] by simp
qed

section \<open>Costs\<close>

definition few_stored :: "nat \<Rightarrow> ('r, 'w) sys \<Rightarrow> bool" where
  "few_stored B s \<longleftrightarrow> (\<forall>name. length (stored_bundles s name) \<le> B)"

definition spends :: "nat \<Rightarrow> nat \<Rightarrow> ('r, 'w, 'e, 'a) sysP \<Rightarrow> bool" where
  "spends B n m \<longleftrightarrow> (\<forall>s. few_stored B s \<longrightarrow> length (sys_trace (snd (m s))) \<le> length (sys_trace s) + n)"

text \<open>The results a procedure can have, and the states it can have them in.\<close>

definition steady :: "nat \<Rightarrow> ('r, 'w, 'e, 'a) sysP \<Rightarrow> ('a \<Rightarrow> bool) \<Rightarrow> bool" where
  "steady B m P \<longleftrightarrow> (\<forall>s x s'. few_stored B s \<longrightarrow> m s = (Ok x, s') \<longrightarrow> few_stored B s' \<and> P x)"

lemma spendsD: "spends B n m \<Longrightarrow> few_stored B s \<Longrightarrow> m s = (r, s') \<Longrightarrow> length (sys_trace s') \<le> length (sys_trace s) + n"
  unfolding spends_def by (metis snd_conv)

lemma steadyI:
  assumes "emits any_request m"
  shows "steady B m (\<lambda>_. True)"
  using emitsD [OF assms] unfolding steady_def few_stored_def stored_bundles_def by metis

lemma steady_ok:
  assumes "emits any_request m" and "ok_spec m (\<lambda>x tr. P x)"
  shows "steady B m P"
proof -
  have "P x" if "m s = (Ok x, s')" for s x s'
    using run_specD [OF assms(2) [unfolded ok_spec_def] that] by blast
  with steadyI [OF assms(1)] show ?thesis unfolding steady_def by blast
qed

lemma spends_bind:
  assumes "spends B n1 m" and "steady B m P" and "\<And>x. P x \<Longrightarrow> spends B n2 (f x)" and "n1 + n2 \<le> n"
  shows "spends B n (bindP m f)"
  unfolding spends_def
proof (intro allI impI)
  fix s :: "('a, 'b) sys"
  assume few: "few_stored B s"
  obtain r t where m: "m s = (r, t)" by fastforce
  note t = spendsD [OF assms(1) few m]
  show "length (sys_trace (snd (bindP m f s))) \<le> length (sys_trace s) + n"
  proof (cases r)
    case (Ok x)
    with assms(2) few m have "few_stored B t" "P x" unfolding steady_def by blast+
    from spendsD [OF assms(3) [OF this(2)] this(1)] obtain q u where "f x t = (q, u)"
      "length (sys_trace u) \<le> length (sys_trace t) + n2" by fastforce
    with t assms(4) m Ok show ?thesis by (simp add: bindP_def)
  qed (use m t assms(4) in \<open>simp_all add: bindP_def\<close>)
qed

lemma spends_then:
  assumes "spends B n1 m" and "emits any_request m" and "\<And>x. spends B n2 (f x)" and "n1 + n2 \<le> n"
  shows "spends B n (bindP m f)"
  by (rule spends_bind [OF assms(1) steadyI [OF assms(2)] assms(3,4)])

lemma spends_mono: "spends B n m \<Longrightarrow> n \<le> n' \<Longrightarrow> spends B n' m"
  unfolding spends_def by force

lemma spends_quiet: "spends B n (retP x)" "spends B n (failP e)" "spends B n (liftP r)" "spends B n (getP f)"
  "spends B n (stop_with q)"
  by (simp_all add: spends_def retP_def failP_def liftP_def getP_def stop_with_def)

lemma spends_modify: "(\<And>s. sys_trace (f s) = sys_trace s) \<Longrightarrow> spends B n (modifyP f)"
  by (simp add: spends_def modifyP_def)

lemma spends_invoke: "1 \<le> n \<Longrightarrow> spends B n (invoke c f)"
  by (simp add: spends_def invoke_def split: prod.splits sum.splits)

lemma snd_raising [simp]: "snd (raising m s) = snd (m s)"
  by (simp add: raising_def handleP_def failP_def split: prod.split go.split)

lemma snd_attempt [simp]: "snd (attemptP m s) = snd (m s)"
  by (simp add: attemptP_def split: prod.split go.split)

lemma snd_handle_fail [simp]: "snd (handleP m (\<lambda>e. failP (h e)) s) = snd (m s)"
  by (simp add: handleP_def failP_def split: prod.split go.split)

lemma spends_raising: "spends B n m \<Longrightarrow> spends B n (raising m)"
  by (simp add: spends_def)

lemma spends_attempt: "spends B n m \<Longrightarrow> spends B n (attemptP m)"
  by (simp add: spends_def)

lemma spends_if: "(b \<Longrightarrow> spends B n m) \<Longrightarrow> (\<not> b \<Longrightarrow> spends B n m') \<Longrightarrow> spends B n (if b then m else m')"
  by simp

lemma spends_loop:
  assumes "\<And>x a. spends B k (f x a)" and "\<And>x a. emits any_request (f x a)"
  shows "spends B (k * length xs) (loopP f xs acc)"
proof (induction xs arbitrary: acc)
  case Nil
  show ?case by (simp add: spends_quiet)
next
  case (Cons x xs)
  show ?case
    unfolding loopP.simps by (rule spends_then [OF assms Cons.IH]) simp
qed

section \<open>Requests of the methods\<close>

text \<open>Rules that count down: a request takes one of the budget, everything else nothing.\<close>

named_theorems spends_intros \<open>rules that count the requests of a procedure\<close>

lemma spends_invoke_Suc [spends_intros]: "spends B (Suc n) (invoke c f)"
  by (rule spends_invoke) simp

lemma spends_invoke_bind [spends_intros]:
  "(\<And>x. spends B n (g x)) \<Longrightarrow> spends B (Suc n) (bindP (invoke c f) g)"
  by (rule spends_then [where ?n1.0 = 1 and ?n2.0 = n, OF spends_invoke [OF order_refl]])
     (simp_all add: emits_intros any_request_def)

lemma spends_attempt_bind [spends_intros]:
  "(\<And>x. spends B n (g x)) \<Longrightarrow> spends B (Suc n) (bindP (attemptP (invoke c f)) g)"
  by (rule spends_then [where ?n1.0 = 1 and ?n2.0 = n, OF spends_attempt [OF spends_invoke [OF order_refl]]])
     (simp_all add: emits_intros any_request_def)

lemma spends_handle [spends_intros]:
  assumes "\<And>e. spends B n (h e)"
  shows "spends B (Suc n) (handleP (invoke c f) h)"
  unfolding spends_def
proof (intro allI impI)
  fix s :: "('a, 'b) sys"
  assume few: "few_stored B s"
  obtain r t where m: "invoke c f s = (r, t)" by fastforce
  have t: "length (sys_trace t) = Suc (length (sys_trace s))" and same: "sys_bundles t = sys_bundles s"
    using m by (auto simp: invoke_def split: prod.splits sum.splits)
  from few same have few': "few_stored B t" by (simp add: few_stored_def stored_bundles_def)
  show "length (sys_trace (snd (handleP (invoke c f) h s))) \<le> length (sys_trace s) + Suc n"
  proof (cases r)
    case (Fail e)
    obtain q u where "h e t = (q, u)" by fastforce
    with spendsD [OF assms few' this] t m Fail show ?thesis by (simp add: handleP_def)
  qed (use m t in \<open>simp_all add: handleP_def\<close>)
qed

lemma spends_handle_bind [spends_intros]:
  assumes "\<And>x. spends B n (g x)"
  shows "spends B (Suc n) (bindP (handleP (invoke c f) (\<lambda>e. failP (k e))) g)"
  by (rule spends_then [where ?n1.0 = "Suc 0" and ?n2.0 = n, OF spends_handle [OF spends_quiet(2)] _ assms])
     (simp_all add: emits_intros any_request_def)

lemma spends_lift_bind [spends_intros]: "(\<And>x. spends B n (g x)) \<Longrightarrow> spends B n (bindP (liftP r) g)"
  by (rule spends_then [where ?n1.0 = 0 and ?n2.0 = n, OF spends_quiet(3) emits_lift]) simp_all

lemma spends_raising_lift_bind [spends_intros]:
  "(\<And>x. spends B n (g x)) \<Longrightarrow> spends B n (bindP (raising (liftP r)) g)"
  by (rule spends_then [where ?n1.0 = 0 and ?n2.0 = n, OF spends_raising [OF spends_quiet(3)]
        emits_raising [OF emits_lift]]) simp_all

lemma spends_case_option [spends_intros]:
  "(x = None \<Longrightarrow> spends B n m) \<Longrightarrow> (\<And>y. x = Some y \<Longrightarrow> spends B n (f y)) \<Longrightarrow>
     spends B n (case x of None \<Rightarrow> m | Some y \<Rightarrow> f y)"
  by (cases x) auto

lemma spends_case_sum [spends_intros]:
  "(\<And>e. x = Inl e \<Longrightarrow> spends B n (f e)) \<Longrightarrow> (\<And>y. x = Inr y \<Longrightarrow> spends B n (g y)) \<Longrightarrow>
     spends B n (case x of Inl e \<Rightarrow> f e | Inr y \<Rightarrow> g y)"
  by (cases x) auto

lemma spends_case_go [spends_intros]:
  "(\<And>y. x = Ok y \<Longrightarrow> spends B n (f y)) \<Longrightarrow> (\<And>e. x = Fail e \<Longrightarrow> spends B n (g e)) \<Longrightarrow>
   (x = Panic \<Longrightarrow> spends B n p) \<Longrightarrow> spends B n (case x of Ok y \<Rightarrow> f y | Fail e \<Rightarrow> g e | Panic \<Rightarrow> p)"
  by (cases x) auto

lemma spends_case_prod [spends_intros]:
  "(\<And>a b. x = (a, b) \<Longrightarrow> spends B n (f a b)) \<Longrightarrow> spends B n (case x of (a, b) \<Rightarrow> f a b)"
  by (cases x) auto

lemma spends_case_not_found [spends_intros]:
  "(\<And>t. spends B n (f t)) \<Longrightarrow> spends B n g \<Longrightarrow> spends B n (case e of Api (NotFound t) \<Rightarrow> f t | _ \<Rightarrow> g)"
  by (auto split: go_error.splits api_error.splits)

lemma spends_case_api [spends_intros]:
  "(\<And>a. spends B n (h a)) \<Longrightarrow> spends B n g \<Longrightarrow> spends B n (case e of Api a \<Rightarrow> h a | _ \<Rightarrow> g)"
  by (auto split: go_error.splits)

lemma spends_modify_bind [spends_intros]:
  assumes "\<And>s. sys_trace (h s) = sys_trace s" and "\<And>s. few_stored B s \<Longrightarrow> few_stored B (h s)"
    and "\<And>x. spends B n (g x)"
  shows "spends B n (bindP (modifyP h) g)"
  by (rule spends_bind [where ?n1.0 = 0 and ?n2.0 = n and P = "\<lambda>_. True", OF spends_modify])
     (use assms in \<open>simp_all add: steady_def modifyP_def\<close>)

lemma spends_get_bind [spends_intros]: "(\<And>x. spends B n (g x)) \<Longrightarrow> spends B n (bindP (getP h) g)"
  by (rule spends_then [where ?n1.0 = 0 and ?n2.0 = n, OF spends_quiet(4) emits_get]) simp_all

lemmas spends_steps = spends_intros spends_quiet spends_if

lemmas count_up = numeral_eq_Suc pred_numeral_simps Num.BitM.simps

lemma spends_update_status: "spends B 2 (update_status L K m c ds)"
  unfolding update_status_def Let_def count_up by (intro spends_steps)

lemma spends_update_raising: "2 \<le> n \<Longrightarrow> spends B n (raising (update_status L K m c ds))"
  by (rule spends_mono [OF spends_raising [OF spends_update_status]])

lemma spends_report: "2 \<le> n \<Longrightarrow> spends B n (report L K m c ds)"
  unfolding report_def
  by (rule spends_then [where ?n1.0 = 2 and ?n2.0 = 0, OF spends_raising [OF spends_update_status]])
     (simp_all add: emits_raising anything.emits_update_status spends_quiet)

lemma spends_installed: "spends B 4 (is_multi_cluster_network_installed K)"
  unfolding is_multi_cluster_network_installed_def count_up by (intro spends_steps)

lemma spends_fetch: "spends B 2 (fetch_multi_cluster_network K)"
  unfolding fetch_multi_cluster_network_def count_up by (intro spends_steps)

lemma spends_register: "spends B 3 (register_network_links L K ncs)"
  unfolding register_network_links_def Let_def
  by (rule spends_then [OF spends_fetch anything.emits_fetch_network spends_invoke [OF order_refl]]) simp

lemma spends_delete_links: "spends B 3 (delete_network_links L K ncs)"
  unfolding delete_network_links_def Let_def
  by (rule spends_then [OF spends_fetch anything.emits_fetch_network
        spends_lift_bind [OF spends_invoke [OF order_refl]]]) simp

lemma spends_create_placement: "spends B 1 (create_placement L K n cs reqs m)"
  unfolding create_placement_def One_nat_def by (intro spends_steps)

lemma spends_associated: "spends B 3 (get_associated_placement L K b m)"
  unfolding get_associated_placement_def Let_def count_up
  by (intro spends_steps spends_mono [OF spends_create_placement]) simp_all

lemma spends_selected: "spends B 1 (get_selected_cluster K p)"
  unfolding get_selected_cluster_def One_nat_def by (intro spends_steps)

lemma spends_membership:
  "spends B 1 (does_managed_cluster_set_exist K n)" "spends B 1 (is_managed_cluster_in_set L K n c)"
  "spends B 1 (is_cluster_set_bound K n)" "spends B 1 (is_cluster_set_empty L K n)"
  unfolding does_managed_cluster_set_exist_def is_managed_cluster_in_set_def is_cluster_set_bound_def
    is_cluster_set_empty_def Let_def One_nat_def
  by (intro spends_steps)+

lemma spends_failed_condition: "spends B 1 (extract_failed_condition K c n)"
proof -
  have "spends B 1 (bindP (does_managed_cluster_set_exist K n) (\<lambda>found. if found then retP x else retP y))" for x y
    by (rule spends_then [where ?n1.0 = 1 and ?n2.0 = 0, OF spends_membership(1) anything.emits_does_exist])
       (simp_all add: spends_steps)
  then show ?thesis
    unfolding extract_failed_condition_def by (intro spends_quiet spends_if)
qed

lemma spends_delete_work: "spends B 2 (delete_manifest_work K n ns)"
  unfolding delete_manifest_work_def Let_def count_up by (intro spends_steps)

lemma spends_delete_placement: "spends B 2 (delete_placement K n)"
  unfolding delete_placement_def count_up by (intro spends_steps)

lemma spends_owned: "spends B 1 (get_owned_manifest_work_list L K owner)"
  unfolding get_owned_manifest_work_list_def One_nat_def by (intro spends_steps)

section \<open>Requests of the stages\<close>

lemma spends_start: "spends B 3 (start_reconcile L K req)"
proof -
  have "spends B (Suc 2) (start_reconcile L K req)"
    unfolding start_reconcile_def
    by (intro spends_steps spends_update_raising)
       (auto simp: few_stored_def stored_bundles_def split: go_error.splits api_error.splits intro: spends_quiet)
  then show ?thesis by (simp add: numeral_3_eq_3)
qed

lemma spends_namespace: "spends B 2 (check_namespace L K req m)"
  unfolding check_namespace_def by (intro spends_steps spends_report) simp

lemma spends_finalizer: "spends B 2 (ensure_finalizer L K req m)"
proof -
  have "spends B (Suc 1) (ensure_finalizer L K req m)"
    unfolding ensure_finalizer_def Let_def
    by (intro spends_steps spends_then [where ?n1.0 = 1 and ?n2.0 = 1] spends_raising spends_invoke emits_raising
        emits_invoke) (simp_all add: any_request_def)
  then show ?thesis by (simp add: numeral_2_eq_2)
qed

lemma spends_cluster_set: "spends B 5 (check_cluster_set L K m n)"
proof -
  have last: "spends B 3 (bindP (raising (is_cluster_set_bound K n)) (\<lambda>bound.
      if \<not> bound then report L K m c [] else retP ()))" for c
    by (rule spends_then [where ?n1.0 = 1 and ?n2.0 = 2, OF spends_raising [OF spends_membership(3)]])
       (simp_all add: emits_raising anything.emits_bound spends_report spends_quiet)
  have middle: "spends B 4 (bindP (raising (is_cluster_set_empty L K n)) (\<lambda>empty.
      if empty then report L K m c [] else bindP (raising (is_cluster_set_bound K n)) (\<lambda>bound.
        if \<not> bound then report L K m c' [] else retP ())))" for c c'
    by (rule spends_then [where ?n1.0 = 1 and ?n2.0 = 3, OF spends_raising [OF spends_membership(4)]])
       (simp_all add: emits_raising anything.emits_empty spends_report last)
  show ?thesis
    unfolding check_cluster_set_def
    by (rule spends_then [where ?n1.0 = 1 and ?n2.0 = 4, OF spends_raising [OF spends_membership(1)]])
       (simp_all add: emits_raising anything.emits_does_exist spends_report middle)
qed

lemma spends_validate: "spends B 9 (validate_manifest L K m)"
proof -
  have annotations: "spends B 2 (check_annotations L K m)"
    unfolding check_annotations_def by (intro spends_steps spends_report) simp
  have target: "spends B 2 (read_target L K m)"
    unfolding read_target_def by (intro spends_steps spends_report) simp
  have emits_annotations: "emits any_request (check_annotations L K m)"
    unfolding check_annotations_def by (intro emits_intros anything.emits_report)
  have emits_target: "emits any_request (read_target L K m)"
    unfolding read_target_def by (intro emits_intros anything.emits_report)
  have emits_set: "emits any_request (check_cluster_set L K m n)" for n
    unfolding check_cluster_set_def
    by (intro emits_intros anything.emits_report anything.emits_does_exist anything.emits_empty anything.emits_bound)
  have 1: "spends B 5 (bindP (check_cluster_set L K m (fst t)) (\<lambda>_. retP t))" for t
    by (rule spends_then [where ?n1.0 = 5 and ?n2.0 = 0, OF spends_cluster_set emits_set]) (simp_all add: spends_quiet)
  have 2: "spends B 7 (bindP (read_target L K m) (\<lambda>t. bindP (check_cluster_set L K m (fst t)) (\<lambda>_. retP t)))"
    by (rule spends_then [where ?n1.0 = 2 and ?n2.0 = 5, OF target emits_target 1]) simp
  show ?thesis
    unfolding validate_manifest_def
    by (rule spends_then [where ?n1.0 = 2 and ?n2.0 = 7, OF annotations emits_annotations 2]) simp
qed

lemma spends_or_misconfigured: "spends B 2 (or_misconfigured L K m r)"
  unfolding or_misconfigured_def by (intro spends_steps spends_report) simp

lemma spends_target: "spends B 5 (target_cluster_bundles C L K m n c bl)"
proof -
  have convert: "spends B 2 (bindP (or_misconfigured L K m r) (\<lambda>resources.
      raising (liftP (bundle_for_target L bl name c resources))))" for r name
    by (rule spends_then [where ?n1.0 = 2 and ?n2.0 = 0, OF spends_or_misconfigured anything.emits_or_misconfigured])
       (simp_all add: spends_raising spends_quiet)
  show ?thesis
    unfolding target_cluster_bundles_def
    by (rule spends_then [where ?n1.0 = 1 and ?n2.0 = 2, OF spends_raising [OF spends_membership(2)]])
       (simp_all add: emits_raising anything.emits_in_set spends_report convert)
qed

lemma spends_place: "spends B 6 (place_bundle L K m b)"
proof -
  have selected: "spends B 3 (bindP (handleP (get_selected_cluster K p) (\<lambda>e. failP (h e))) (\<lambda>c. retP (set_cluster c b)))"
    for p and h :: "go_error \<Rightarrow> stop"
  proof -
    have "spends B 1 (handleP (get_selected_cluster K p) (\<lambda>e. failP (h e)))"
      using spends_selected [of B K p] by (simp add: spends_def)
    then show ?thesis
      by (rule spends_then [where ?n1.0 = 1 and ?n2.0 = 0])
         (simp_all add: emits_handle anything.emits_selected emits_fail spends_quiet)
  qed
  have failed: "spends B 3 (bindP (raising (liftP g)) (\<lambda>n.
      bindP (raising (extract_failed_condition K c n)) (\<lambda>c'. report L K m c' [])))" for g c
    by (intro spends_raising_lift_bind spends_then [where ?n1.0 = 1 and ?n2.0 = 2,
          OF spends_raising [OF spends_failed_condition]])
       (simp_all add: emits_raising anything.emits_failed_condition spends_report)
  show ?thesis
    unfolding place_bundle_def
    by (rule spends_then [where ?n1.0 = 3 and ?n2.0 = 3, OF spends_raising [OF spends_associated]])
       (auto simp: emits_raising anything.emits_associated intro!: spends_steps selected failed)
qed

lemma steady_place_bundles:
  "steady B (place_bundles L K m bl) (\<lambda>placed. length placed = length bl)"
proof (rule steady_ok)
  show "emits any_request (place_bundles L K m bl)" by (rule anything.emits_place_bundles)
  show "ok_spec (place_bundles L K m bl) (\<lambda>placed tr. length placed = length bl)"
    by (rule ok_spec_mono [OF ok_place_bundles]) (auto dest: list_all2_lengthD)
qed

text \<open>The stage that chooses the clusters, and the bundles it can return.\<close>

lemma spends_place_bundles: "spends B (6 * length bl) (place_bundles L K m bl)"
  unfolding place_bundles_def
proof (rule spends_loop)
  fix b acc
  show "spends B 6 (bindP (place_bundle L K m b) (\<lambda>b'. retP (acc @ [b'])))"
    by (rule spends_then [where ?n1.0 = 6 and ?n2.0 = 0, OF spends_place anything.emits_place])
       (simp_all add: spends_quiet)
  show "emits any_request (bindP (place_bundle L K m b) (\<lambda>b'. retP (acc @ [b'])))"
    by (intro emits_intros anything.emits_place)
qed

lemma spends_choose:
  "spends B (6 * length (manifests (p2m_spec m)) + 11) (choose_clusters C L K m n c)"
proof -
  let ?M = "length (manifests (p2m_spec m))"
  have announce: "spends B 2 (bindP (announce_placement L K m bl) (\<lambda>m'. retP (m', bl)))" for bl
    unfolding announce_placement_def
    by (rule spends_then [where ?n1.0 = 2 and ?n2.0 = 0, OF spends_raising [OF spends_update_status]])
       (simp_all add: emits_raising anything.emits_update_status spends_quiet)
  have place: "spends B (6 * ?M + 8) (bindP (place_bundles L K m built) (\<lambda>placed.
      bindP (announce_placement L K m placed) (\<lambda>m'. retP (m', placed))))" if "length built \<le> Suc ?M" for built
    by (rule spends_then [OF spends_place_bundles anything.emits_place_bundles announce]) (use that in simp)
  have built: "steady B (or_misconfigured L K m (build_and_update_bundles C L [] m)) (\<lambda>built. length built \<le> Suc ?M)"
    by (rule steady_ok [OF anything.emits_or_misconfigured ok_spec_mono [OF ok_or_misconfigured]]) (rule build_length)
  have "spends B (6 * ?M + 10) (placed_workload_bundles C L K m [])"
    unfolding placed_workload_bundles_def
    by (rule spends_bind [OF spends_or_misconfigured built place]) simp_all
  moreover have "spends B 5 (bindP (target_cluster_bundles C L K m n c []) (\<lambda>bundles. retP (m, bundles)))"
    by (rule spends_then [where ?n1.0 = 5 and ?n2.0 = 0, OF spends_target anything.emits_target])
       (simp_all add: spends_quiet)
  ultimately show ?thesis
    unfolding choose_clusters_def by (intro spends_if) (auto elim: spends_mono)
qed

lemma steady_choose:
  "steady B (choose_clusters C L K m n c) (\<lambda>mb. length (snd mb) \<le> Suc (length (manifests (p2m_spec m))))"
proof (rule steady_ok [OF anything.emits_choose])
  let ?P = "\<lambda>mb tr. length (snd mb) \<le> Suc (length (manifests (p2m_spec m)))"
  have few: "length bl \<le> Suc (length (manifests (p2m_spec m)))" if "placed_by_decision C L K tr m bl" for tr bl
    using that unfolding placed_by_decision_def by (metis build_length list_all2_lengthD)
  have placed: "ok_spec (placed_workload_bundles C L K m []) ?P"
    by (rule ok_spec_mono [OF ok_placed_bundles]) (blast intro: few)
  have le: "length bl \<le> Suc (length (manifests (p2m_spec m)))" if "placed_by_target C L m c bl" for bl
    using that by (auto simp: placed_by_target_def bundle_for_target_def bind_go_Ok_iff add_bundle_def)
  have target: "ok_spec (target_cluster_bundles C L K m n c []) (\<lambda>bl tr. length bl \<le> Suc (length (manifests (p2m_spec m))))"
    if "c \<noteq> ''''" by (rule ok_spec_mono [OF ok_target_bundles [OF that]]) (rule le)
  have "ok_spec (bindP (target_cluster_bundles C L K m n c []) (\<lambda>bundles. retP (m, bundles))) ?P" if "c \<noteq> ''''"
    by (rule ok_spec_bind [OF target [OF that] ok_spec_ret [where Q = "\<lambda>mb tr. mb = (m, x)" and x = "(m, x)" for x]])
       simp_all
  with placed show "ok_spec (choose_clusters C L K m n c) ?P"
    unfolding choose_clusters_def by (intro ok_spec_if)
qed

lemma spends_clean_up: "spends B (4 * B) (clean_up_old_bundles K n bl)"
proof -
  have raised: "spends B 2 (raising (delete_manifest_work K k c))" for k c
    by (rule spends_raising [OF spends_delete_work])
  have step: "spends B 4 (clean_up_bundle K old bl b u)" for old b u
  proof -
    have "spends B 4 (bindP (raising (delete_placement K k)) (\<lambda>_.
        if c \<noteq> '''' then raising (delete_manifest_work K k c) else retP ()))" for k c
      by (rule spends_then [where ?n1.0 = 2 and ?n2.0 = 2, OF spends_raising [OF spends_delete_placement]])
         (simp_all add: emits_raising anything.emits_delete_placement raised spends_quiet)
    then show ?thesis
      unfolding clean_up_bundle_def Let_def
      by (intro spends_case_option spends_if spends_quiet spends_mono [OF raised]) simp_all
  qed
  have emits: "emits any_request (clean_up_bundle K old bl b u)" for old b u
    unfolding clean_up_bundle_def Let_def
    by (intro emits_intros anything.emits_delete_placement anything.emits_delete_work)
  have loop: "spends B (4 * length old) (loopP (clean_up_bundle K old bl) old ())" for old
    by (rule spends_loop [OF step emits])
  show ?thesis
    unfolding clean_up_old_bundles_def
  proof (rule spends_bind [where ?n1.0 = 0 and ?n2.0 = "4 * B" and P = "\<lambda>old. length old \<le> B"])
    show "steady B (getP (\<lambda>s. stored_bundles s n)) (\<lambda>old. length old \<le> B)"
      by (simp add: steady_def getP_def few_stored_def)
    show "spends B (4 * B) (loopP (clean_up_bundle K old bl) old ())" if "length old \<le> B" for old
      by (rule spends_mono [OF loop]) (use that in simp)
  qed (simp_all add: spends_quiet)
qed

lemma spends_apply: "spends B (2 * length bl) (apply_bundles K owner bl)"
  unfolding apply_bundles_def
proof (rule spends_loop)
  fix b and placed :: nat
  have "spends B (Suc 1) (apply_bundle K owner b placed)"
    unfolding apply_bundle_def Let_def
    by (intro spends_attempt_bind spends_then [where ?n1.0 = 1 and ?n2.0 = 0])
       (auto simp: any_request_def spends_quiet intro!: spends_raising spends_invoke emits_intros
         split: sum.splits go_error.splits api_error.splits)
  then show "spends B 2 (apply_bundle K owner b placed)" by (simp add: numeral_2_eq_2)
  show "emits any_request (apply_bundle K owner b placed)"
    unfolding apply_bundle_def Let_def
    by (intro emits_intros) (auto simp: any_request_def intro!: emits_intros
        split: sum.splits go_error.splits api_error.splits)
qed

text \<open>The loop over the ManifestWorks sends nothing, but for the report that ends it.\<close>

lemma spends_check_works: "spends B 3 (check_works L K owner m bl)"
proof -
  have loop: "spends B 2 (loopP (check_work L K m bl) ws u)" for ws u
  proof (induction ws arbitrary: u)
    case Nil
    show ?case by (simp add: spends_quiet)
  next
    case (Cons w ws)
    show ?case
    proof (cases "validate_manifest_work_applied w")
      case (Ok x)
      have "loopP (check_work L K m bl) (w # ws) u = loopP (check_work L K m bl) ws ()"
        by (simp add: check_work_def Ok bindP_def retP_def)
      with Cons.IH show ?thesis by simp
    next
      case (Fail e)
      have stops: "\<nexists>y. fst (check_work L K m bl w u s) = Ok y" for s
      proof -
        have "ok_spec (check_work L K m bl w u) (\<lambda>_ _. False)"
          by (rule ok_spec_mono [OF ok_check_work]) (simp add: Fail)
        moreover obtain r s' where run: "check_work L K m bl w u s = (r, s')" by fastforce
        ultimately have "\<forall>x. r \<noteq> Ok x" unfolding ok_spec_def by (auto dest: run_specD)
        with run show ?thesis by simp
      qed
      have "spends B 2 (check_work L K m bl w u)"
        unfolding check_work_def Fail go.case
        by (intro spends_steps spends_report) simp
      moreover have "snd (loopP (check_work L K m bl) (w # ws) u s) = snd (check_work L K m bl w u s)" for s
        using stops [of s] by (auto simp: bindP_def split: prod.split go.split)
      ultimately show ?thesis by (simp add: spends_def del: loopP.simps)
    next
      case Panic
      show ?thesis
        by (simp add: spends_def check_work_def Panic bindP_def liftP_def)
    qed
  qed
  show ?thesis
    unfolding check_works_def
    by (rule spends_then [where ?n1.0 = 1 and ?n2.0 = 2, OF spends_raising [OF spends_owned]])
       (simp_all add: emits_raising anything.emits_owned spends_quiet loop)
qed

lemma spends_connect: "spends B 10 (connect_bundles L K m bl)"
proof -
  have last: "spends B 3 (bindP (raising (liftP (get_network_connections bl))) (\<lambda>connections.
     if length connections \<noteq> 0
     then if \<not> installed then report L K m c ds else raising (register_network_links L K connections)
     else retP ()))" for installed c ds
    by (intro spends_steps spends_report spends_raising spends_register) simp
  have delete: "spends B 6 (bindP (if b then raising (delete_network_links L K old) else retP ()) (\<lambda>_.
     bindP (raising (liftP (get_network_connections bl))) (\<lambda>connections.
     if length connections \<noteq> 0
     then if \<not> installed then report L K m c ds else raising (register_network_links L K connections)
     else retP ())))" for installed c ds b old
    by (rule spends_then [where ?n1.0 = 3 and ?n2.0 = 3, OF _ _ last])
       (auto simp: spends_raising spends_delete_links spends_quiet emits_raising anything.emits_delete_links emits_ret)
  show ?thesis
    unfolding connect_bundles_def
    by (rule spends_then [where ?n1.0 = 4 and ?n2.0 = 6, OF spends_raising [OF spends_installed]])
       (rule emits_raising, rule anything.emits_installed, intro spends_get_bind spends_raising_lift_bind delete, simp)
qed

lemma spends_complete:
  fixes K :: "('r, 'w) client"
  shows "spends B 2 (complete L K m bl n)"
proof -
  have "spends B 2 (bindP (raising (update_status L K m c ds)) (\<lambda>m'. bindP (modifyP (h m')) (\<lambda>_. retP Done)))"
    if "\<And>m' s. sys_trace (h m' s) = sys_trace s" for c ds and h :: "'r p2m \<Rightarrow> ('r, 'w) sys \<Rightarrow> ('r, 'w) sys"
  proof (rule spends_then [where ?n1.0 = 2 and ?n2.0 = 0, OF spends_raising [OF spends_update_status]])
    show "spends B 0 (bindP (modifyP (h m')) (\<lambda>_. retP Done))" for m'
      by (simp add: spends_def bindP_def modifyP_def retP_def that)
  qed (simp_all add: emits_raising anything.emits_update_status)
  then show ?thesis
    unfolding complete_def Let_def by (intro spends_if spends_report) simp_all
qed

lemma spends_roll_out: "spends B (4 * B + 2 * length bl + 15) (roll_out L K m bl)"
proof -
  have 1: "spends B 12 (bindP (connect_bundles L K m bl) (\<lambda>_. complete L K m bl n))" for n
    by (rule spends_then [OF spends_connect anything.emits_connect spends_complete]) simp
  have 2: "spends B 15 (bindP (check_works L K owner m bl) (\<lambda>_. bindP (connect_bundles L K m bl) (\<lambda>_.
      complete L K m bl n)))" for n owner
    by (rule spends_then [OF spends_check_works anything.emits_check_works 1]) simp
  have 3: "spends B (2 * length bl + 15) (bindP (apply_bundles K owner bl) (\<lambda>placed.
      bindP (check_works L K owner m bl) (\<lambda>_. bindP (connect_bundles L K m bl) (\<lambda>_. complete L K m bl placed))))" for owner
    by (rule spends_then [OF spends_apply emits_mono [OF emits_apply] 2]) (simp_all add: any_request_def)
  show ?thesis
    unfolding roll_out_def
    by (rule spends_then [OF spends_clean_up anything.emits_clean_up spends_get_bind [OF 3]]) simp
qed

lemma spends_schedule: "spends B (8 * length (manifests (p2m_spec m)) + 4 * B + 37) (schedule C L K m)"
proof -
  let ?M = "length (manifests (p2m_spec m))"
  have roll: "spends B (4 * B + 2 * ?M + 17) (roll_out L K (fst mb) (snd mb))" if "length (snd mb) \<le> Suc ?M" for mb
    by (rule spends_mono [OF spends_roll_out]) (use that in simp)
  have choose: "spends B (8 * ?M + 4 * B + 28) (bindP (choose_clusters C L K m n c) (\<lambda>mb. roll_out L K (fst mb) (snd mb)))"
    for n c by (rule spends_bind [OF spends_choose steady_choose roll]) simp_all
  show ?thesis
    unfolding schedule_def case_prod_beta'
    by (rule spends_then [OF spends_validate anything.emits_validate choose]) simp
qed

section \<open>Whole runs\<close>

text \<open>The server answers with at most \<open>M\<close> manifests in an object and at most \<open>W\<close> ManifestWorks.\<close>

definition answers_fit :: "('r, 'w) client \<Rightarrow> nat \<Rightarrow> nat \<Rightarrow> bool" where
  "answers_fit K M W \<longleftrightarrow>
     (\<forall>k w m w'. cl_get_manifest K k w = (Inr m, w') \<longrightarrow> length (manifests (p2m_spec m)) \<le> M) \<and>
     (\<forall>p w m w'. cl_update_manifest K p w = (Inr m, w') \<longrightarrow> length (manifests (p2m_spec m)) \<le> M) \<and>
     (\<forall>p w m w'. cl_update_status K p w = (Inr m, w') \<longrightarrow> length (manifests (p2m_spec m)) \<le> M) \<and>
     (\<forall>sel w ws w'. cl_list_works K sel w = (Inr ws, w') \<longrightarrow> length ws \<le> W)"

lemma spends_delete_owned:
  assumes "answers_fit K M W"
  shows "spends B (W + 1) (delete_owned_manifest_work_list L K owner)"
proof -
  have loop: "spends B (1 * length ws) (loopP (\<lambda>w _. invoke (DeleteWork w) (cl_delete_work K w)) ws ())" for ws
    by (rule spends_loop) (simp_all add: spends_invoke emits_invoke any_request_def)
  have owned: "steady B (get_owned_manifest_work_list L K owner) (\<lambda>ws. length ws \<le> W)"
  proof (rule steady_ok [OF anything.emits_owned])
    have few: "length ws \<le> W" if "cl_list_works K sel w = (Inr ws, w')" for sel w ws w'
      using assms that unfolding answers_fit_def by blast
    show "ok_spec (get_owned_manifest_work_list L K owner) (\<lambda>ws tr. length ws \<le> W)"
      unfolding get_owned_manifest_work_list_def
      by (cases "owner_selector L owner")
         (auto intro!: ok_spec_failP ok_spec_invoke few)
  qed
  have "spends B W (loopP (\<lambda>w _. invoke (DeleteWork w) (cl_delete_work K w)) ws ())" if "length ws \<le> W" for ws
    by (rule spends_mono [OF loop]) (use that in simp)
  then show ?thesis
    unfolding delete_owned_manifest_work_list_def
    by (intro spends_bind [where ?n1.0 = 1 and ?n2.0 = W, OF spends_owned owned]) simp_all
qed

lemma spends_deletion:
  assumes "answers_fit K M W"
  shows "spends B (W + 13) (handle_deletion L (K :: ('r, 'w) client) m)"
proof -
  have release: "spends B 3 (release L K m)" for m
  proof -
    have "spends B 1 (bindP (raising (invoke c f)) (\<lambda>_. stop_with Done))" for c f
      by (rule spends_then [where ?n1.0 = 1 and ?n2.0 = 0])
         (simp_all add: spends_raising spends_invoke spends_quiet emits_intros any_request_def)
    then show ?thesis
      unfolding release_def Let_def
      by (intro spends_then [where ?n1.0 = 2 and ?n2.0 = 1, OF spends_raising [OF spends_update_status]])
         (auto simp: emits_raising anything.emits_update_status intro: spends_quiet split: option.split)
  qed
  have few: "few_stored B (s\<lparr>sys_bundles := delete_bundles (sys_bundles s) k\<rparr>)" if "few_stored B s"
    for k and s :: "('r, 'w) sys"
    using that by (simp add: few_stored_def stored_bundles_def delete_bundles_def)
  have links: "spends B 3 (if b then remove_stored_links L K k else retP ())" for b k
    unfolding remove_stored_links_def
    by (intro spends_steps spends_raising spends_delete_links)
  have emits_links: "emits any_request (if b then remove_stored_links L K k else retP ())" for b k
    by (intro emits_intros anything.emits_remove_links)
  have 1: "spends B 3 (bindP (modifyP (\<lambda>s. s\<lparr>sys_bundles := delete_bundles (sys_bundles s) k\<rparr>)) (\<lambda>_. release L K m))"
    for k m by (rule spends_modify_bind) (simp_all add: few release)
  have 2: "spends B 6 (bindP (if b then remove_stored_links L K k else retP ()) (\<lambda>_.
      bindP (modifyP (\<lambda>s. s\<lparr>sys_bundles := delete_bundles (sys_bundles s) k\<rparr>)) (\<lambda>_. release L K m)))" for b k m
    by (rule spends_then [OF links emits_links 1]) simp
  have 3: "spends B 10 (bindP (raising (is_multi_cluster_network_installed K)) (\<lambda>b.
      bindP (if b then remove_stored_links L K k else retP ()) (\<lambda>_.
      bindP (modifyP (\<lambda>s. s\<lparr>sys_bundles := delete_bundles (sys_bundles s) k\<rparr>)) (\<lambda>_. release L K m))))" for k m
    by (rule spends_then [OF spends_raising [OF spends_installed] emits_raising [OF anything.emits_installed] 2]) simp
  have 4: "spends B (W + 11) (bindP (raising (delete_owned_manifest_work_list L K owner)) (\<lambda>_.
      bindP (raising (is_multi_cluster_network_installed K)) (\<lambda>b.
      bindP (if b then remove_stored_links L K k else retP ()) (\<lambda>_.
      bindP (modifyP (\<lambda>s. s\<lparr>sys_bundles := delete_bundles (sys_bundles s) k\<rparr>)) (\<lambda>_. release L K m)))))" for owner k m
    by (rule spends_then [OF spends_raising [OF spends_delete_owned [OF assms]]
          emits_raising [OF anything.emits_delete_owned] 3]) simp
  have "spends B (W + 13) (finalize L K m)"
    unfolding finalize_def
    by (rule spends_then [OF spends_raising [OF spends_update_status] emits_raising [OF anything.emits_update_status]
          spends_get_bind [OF 4]]) simp
  then show ?thesis
    unfolding handle_deletion_def by (intro spends_if spends_quiet)
qed

lemma steady_start:
  assumes "answers_fit K M W"
  shows "steady B (start_reconcile L K req) (\<lambda>m. length (manifests (p2m_spec m)) \<le> M)"
proof -
  have get: "length (manifests (p2m_spec m)) \<le> M" if "cl_get_manifest K k w = (Inr m, w')" for k w m w'
    using assms that unfolding answers_fit_def by blast
  have put: "length (manifests (p2m_spec m)) \<le> M" if "cl_update_status K p w = (Inr m, w')" for p w m w'
    using assms that unfolding answers_fit_def by blast
  have "length (manifests (p2m_spec m)) \<le> M" if "start_reconcile L K req s = (Ok m, s')" for m s s'
    using that get put
    by (auto simp: start_reconcile_def bindP_def attemptP_def invoke_def raising_def handleP_def liftP_def
        modifyP_def retP_def failP_def stop_with_def update_status_def Let_def
        split: prod.splits sum.splits go.splits option.splits go_error.splits api_error.splits)
  moreover have "few_stored B s'" if "few_stored B s" "start_reconcile L K req s = (r, s')" for r s s'
    using run_specD [OF run_start_bundles that(2)] that(1) by (auto simp: few_stored_def stored_bundles_def)
  ultimately show ?thesis unfolding steady_def by blast
qed

lemma steady_finalizer:
  assumes "answers_fit K M W" and "length (manifests (p2m_spec m)) \<le> M"
  shows "steady B (ensure_finalizer L K req m) (\<lambda>m. length (manifests (p2m_spec m)) \<le> M)"
proof (rule steady_ok [OF anything.emits_ensure_finalizer])
  have put: "length (manifests (p2m_spec m)) \<le> M" if "cl_update_manifest K p w = (Inr m, w')" for p w m w'
    using assms(1) that unfolding answers_fit_def by blast
  have update: "ok_spec (raising (invoke (UpdateManifest p) (cl_update_manifest K p)))
      (\<lambda>m tr. length (manifests (p2m_spec m)) \<le> M)" for p
    by (rule ok_spec_raising [OF ok_spec_invoke]) (rule put)
  have read: "ok_spec (raising (invoke (GetManifest req) (cl_get_manifest K req))) (\<lambda>_ _. True)"
    by (rule ok_spec_raising [OF ok_spec_invoke]) simp
  show "ok_spec (ensure_finalizer L K req m) (\<lambda>m tr. length (manifests (p2m_spec m)) \<le> M)"
    unfolding ensure_finalizer_def Let_def
    by (intro ok_spec_if ok_spec_ret ok_spec_bind [OF read, where
          ?Q2.0 = "\<lambda>_ m tr. length (manifests (p2m_spec m)) \<le> M"] ok_spec_case_option ok_spec_stop update)
       (use assms(2) in simp_all)
qed

lemma spends_reconcile:
  assumes "answers_fit K M W"
  shows "spends B (8 * M + 4 * B + W + 57) (reconcile C L K req)"
proof -
  have keeps: "steady B (handle_deletion L K m) (\<lambda>_. True)" for m
  proof -
    have "s' = s" if "handle_deletion L K m s = (Ok x, s')" for s x s'
    proof (cases "p2m_deleting m")
      case True
      have "run_spec (handle_deletion L K m) (\<lambda>s r tr s'. \<forall>y. r \<noteq> Ok y)"
        unfolding handle_deletion_def if_P [OF True]
        by (intro run_spec_if run_finalize_no_result run_spec_no_result(2))
      from run_specD [OF this that] show ?thesis by simp
    qed (use that in \<open>simp add: handle_deletion_def retP_def\<close>)
    then show ?thesis unfolding steady_def by blast
  qed
  have schedule: "spends B (8 * M + 4 * B + 37) (schedule C L K m)" if "length (manifests (p2m_spec m)) \<le> M" for m
    by (rule spends_mono [OF spends_schedule]) (use that in simp)
  have 1: "spends B (8 * M + 4 * B + W + 50) (bindP (handle_deletion L K m) (\<lambda>_. schedule C L K m))"
    if "length (manifests (p2m_spec m)) \<le> M" for m
    by (rule spends_bind [OF spends_deletion [OF assms] keeps schedule [OF that]]) simp
  have 2: "spends B (8 * M + 4 * B + W + 52) (bindP (ensure_finalizer L K req m) (\<lambda>m.
      bindP (handle_deletion L K m) (\<lambda>_. schedule C L K m)))" if "length (manifests (p2m_spec m)) \<le> M" for m
    by (rule spends_bind [OF spends_finalizer steady_finalizer [OF assms that] 1]) simp_all
  have 3: "spends B (8 * M + 4 * B + W + 54) (bindP (check_namespace L K req m) (\<lambda>_.
      bindP (ensure_finalizer L K req m) (\<lambda>m. bindP (handle_deletion L K m) (\<lambda>_. schedule C L K m))))"
    if "length (manifests (p2m_spec m)) \<le> M" for m
    by (rule spends_then [OF spends_namespace anything.emits_namespace 2 [OF that]]) simp
  have "spends B (8 * M + 4 * B + W + 57) (reconcile_steps C L K req)"
    unfolding reconcile_steps_def
    by (rule spends_bind [OF spends_start steady_start [OF assms] 3]) simp_all
  moreover have "snd (reconcile C L K req s) = snd (reconcile_steps C L K req s)" for s
    by (simp add: reconcile_def handleP_def retP_def failP_def split: prod.split go.split stop.split)
  ultimately show ?thesis unfolding spends_def by simp
qed

end
