(* ===== verification/P2_Panics.thy ===== *)
theory P2_Panics
  imports P2_Scheduling
begin

text \<open>
  When a run does not panic. The panics of the code are slices, indexes and nil pointers the
  theories before have made explicit; this theory collects what rules them all out (names
  that are label values, annotations with an equals sign, ingresses with paths, and an API
  server whose placements, decisions and conditions are filled in) and shows that a run of
  the operator then ends with a result or an error. \<open>sound\<close> is the judgement for functions,
  \<open>safe\<close> the one for procedures.
\<close>

section \<open>Names\<close>

lemma label_name_no_slash: "label_name s \<Longrightarrow> CHR ''/'' \<notin> set s"
  by (auto simp: label_name_def list_all_iff name_char_def alnum_def Let_def)

lemma truncate_not_Panic:
  assumes "qualified_name_spec L" and "label_name s"
  shows "truncate_name_if_needed L s \<noteq> Panic"
  using assms label_name_no_slash [OF assms(2)]
  by (auto simp: truncate_panics_iff qualified_name_spec_def)

lemma label_name_dash: "label_name a \<Longrightarrow> label_name b \<Longrightarrow> label_name (a @ ''-'' @ b)"
  by (auto simp: label_name_def name_char_def)

section \<open>Functions\<close>

text \<open>
  A sound result is no panic, and if it is a misconfiguration it has a text (the run puts its
  first letter in upper case).
\<close>

definition sound :: "(go_error, 'a) go \<Rightarrow> bool" where
  "sound r \<longleftrightarrow> r \<noteq> Panic \<and> (\<forall>e. r = Fail e \<longrightarrow> as_misconfigured e \<longrightarrow> error_text e \<noteq> '''')"

named_theorems sound_intros \<open>composition rules for functions that do not panic\<close>

lemma sound_Ok [sound_intros]: "sound (Ok x)"
  by (simp add: sound_def)

lemma sound_Fail [sound_intros]: "\<not> as_misconfigured e \<Longrightarrow> sound (Fail e)"
  by (simp add: sound_def)

lemma sound_bind [sound_intros]:
  assumes "sound m" and "\<And>x. m = Ok x \<Longrightarrow> sound (f x)"
  shows "sound (bind_go m f)"
  using assms by (cases m) (auto simp: sound_def)

lemma sound_fold [sound_intros]:
  assumes "\<And>x a. x \<in> set xs \<Longrightarrow> sound (f x a)"
  shows "sound (fold_go f xs acc)"
  using assms by (induction xs arbitrary: acc) (auto intro!: sound_intros)

lemma sound_if [sound_intros]: "(b \<Longrightarrow> sound x) \<Longrightarrow> (\<not> b \<Longrightarrow> sound y) \<Longrightarrow> sound (if b then x else y)"
  by simp

lemma sound_case_prod [sound_intros]:
  "(\<And>a b. x = (a, b) \<Longrightarrow> sound (f a b)) \<Longrightarrow> sound (case x of (a, b) \<Rightarrow> f a b)"
  by (cases x) auto

lemma sound_case_option [sound_intros]:
  "(x = None \<Longrightarrow> sound m) \<Longrightarrow> (\<And>y. x = Some y \<Longrightarrow> sound (f y)) \<Longrightarrow>
     sound (case x of None \<Rightarrow> m | Some y \<Rightarrow> f y)"
  by (cases x) auto

lemma sound_unmarshal [sound_intros]: "sound (unmarshal r)"
  by (cases r) (simp_all add: sound_def)

lemma sound_find [sound_intros]: "sound (rs_find rs name kind)"
  by (auto simp: sound_def rs_find_def split: option.splits)

lemma sound_truncate: "qualified_name_spec L \<Longrightarrow> label_name s \<Longrightarrow> sound (truncate_name_if_needed L s)"
  by (simp add: sound_def truncate_not_Panic)

lemma sound_extract_rules:
  "list_all (\<lambda>a. CHR ''='' \<in> set a) as \<Longrightarrow> sound (extract_placement_rules as)"
  by (auto simp: sound_def extract_placement_rules_eq list_all_iff)

text \<open>The decoders answer with objects the analysis can read.\<close>

definition codec_valid :: "'r codec \<Rightarrow> bool" where
  "codec_valid C \<longleftrightarrow>
     (\<forall>x rules. dec_ingress C x = Inr rules \<longrightarrow> None \<notin> set rules) \<and>
     (\<forall>x md. dec_unstructured C x = Inr md \<longrightarrow>
        is_workload \<lparr>res_metadata = md, res_annotations = [], res_manifest = x\<rparr> \<longrightarrow> label_name (md_name md))"

lemma sound_containers: "sound (analyse_containers cs anc)"
  using analyse_containers_eq [of cs anc] by (auto simp: sound_def split: if_splits)

lemma sound_pod_template: "sound (extract_pod_template_spec C w)"
  unfolding extract_pod_template_spec_def Let_def by (intro sound_intros) simp

lemma sound_service_account: "sound (analyse_service_account C sa anc)"
  unfolding analyse_service_account_def binding_step_def by (intro sound_intros)

lemma sound_service_account_part: "sound (service_account_part C anc name acc)"
  unfolding service_account_part_def
  by (intro sound_intros) (auto split: go.splits intro!: sound_intros sound_service_account)

lemma sound_pod_spec: "sound (analyse_pod_spec C w anc)"
  unfolding analyse_pod_spec_def Let_def
  by (intro sound_intros sound_pod_template sound_service_account_part sound_containers)

lemma sound_access:
  assumes "codec_valid C"
  shows "sound (find_external_network_access_resources C s anc)"
proof -
  have ingress: "sound (ingress_step C s i rs)" for i rs
  proof (cases "dec_ingress C (res_manifest i)")
    case (Inr rules)
    with assms have "None \<notin> set rules" by (auto simp: codec_valid_def)
    then have "sound (ingress_rule_step s i rule acc)" if "rule \<in> set rules" for rule acc
      using that by (cases rule) (auto simp: ingress_rule_step_def sound_intros)
    then show ?thesis by (simp add: ingress_step_def Inr sound_fold)
  qed (simp add: ingress_step_def sound_def)
  show ?thesis
    unfolding find_external_network_access_resources_def route_step_def by (intro sound_intros ingress)
qed

lemma sound_monitors: "sound (find_service_monitor_resources C k v anc)"
  unfolding find_service_monitor_resources_def monitor_step_def by (intro sound_intros)

lemma sound_network: "codec_valid C \<Longrightarrow> sound (extract_network_resources C w anc)"
  unfolding extract_network_resources_def stateful_set_service_def service_step_def selector_step_def
  by (intro sound_intros sound_pod_template sound_access sound_monitors)

lemma sound_hpas: "sound (find_hpa_definition C L w anc)"
  unfolding find_hpa_definition_def hpa_step_def by (intro sound_intros)

lemma sound_analyse: "codec_valid C \<Longrightarrow> sound (analyse_workload C L w anc)"
  unfolding analyse_workload_def workload_namespace_part_def
  by (intro sound_intros sound_pod_spec sound_network sound_hpas)

section \<open>Bundling\<close>

text \<open>The annotations and the name of a manifest the code can work with.\<close>

definition equals_sign :: "string list \<Rightarrow> bool" where
  "equals_sign as \<longleftrightarrow> list_all (\<lambda>a. CHR ''='' \<in> set a) as"

definition manifest_valid :: "'r p2m \<Rightarrow> bool" where
  "manifest_valid m \<longleftrightarrow>
     label_name (p2m_name m) \<and> equals_sign (global_annotations (p2m_spec m)) \<and>
     list_all (\<lambda>w. equals_sign (wa_annotations w)) (workload_annotations (p2m_spec m)) \<and>
     (\<forall>n c. extract_target (global_annotations (p2m_spec m)) = Ok (n, c) \<longrightarrow> c = '''' \<or> label_name c)"

lemma sound_metadata_is_valid: "sound (metadata_is_valid L md)"
  by (auto simp: sound_def metadata_is_valid_def)

lemma sound_convert: "sound (bulk_convert_to_resource_set C L ms)"
  unfolding bulk_convert_to_resource_set_def bulk_convert_step_def
  by (intro sound_intros sound_metadata_is_valid)

lemma enumerate_member: "iw \<in> set (List.enumerate n xs) \<Longrightarrow> snd iw \<in> set xs"
  by (metis image_eqI list.set_map map_snd_enumerate)

lemma set_annotations_equals:
  assumes "list_all (\<lambda>r. equals_sign (res_annotations r)) rs" and "equals_sign as"
  shows "list_all (\<lambda>r. equals_sign (res_annotations r)) (set_annotations rs name as)"
  using assms by (induction rs) auto

lemma assigned_equals:
  assumes "assign_workload_annotations ws was = Ok ws'"
    and "list_all (\<lambda>w. equals_sign (wa_annotations w)) was" and "list_all (\<lambda>r. equals_sign (res_annotations r)) ws"
  shows "list_all (\<lambda>r. equals_sign (res_annotations r)) ws'"
proof (rule fold_go_invariant [OF assms(1) [unfolded assign_workload_annotations_def], of
      "\<lambda>ws. list_all (\<lambda>r. equals_sign (res_annotations r)) ws", OF assms(3)])
  fix iw acc acc'
  assume iw: "iw \<in> set (List.enumerate 0 was)" and acc: "list_all (\<lambda>r. equals_sign (res_annotations r)) acc"
    and step: "assign_step iw acc = Ok acc'"
  from assms(2) enumerate_member [OF iw] have "equals_sign (wa_annotations (snd iw))" by (simp add: list_all_iff)
  with assign_step_OkD [OF step] acc show "list_all (\<lambda>r. equals_sign (res_annotations r)) acc'"
    by (simp add: set_annotations_equals)
qed

lemma assign_not_Panic:
  assumes "list_all (\<lambda>w. equals_sign (wa_annotations w)) was"
  shows "assign_workload_annotations ws was \<noteq> Panic"
  unfolding assign_workload_annotations_def
proof (rule fold_go_no_panic)
  fix iw acc
  assume "iw \<in> set (List.enumerate 0 was)"
  with assms enumerate_member [OF this] have "extract_placement_rules (wa_annotations (snd iw)) \<noteq> Panic"
    by (auto simp: list_all_iff equals_sign_def extract_placement_rules_eq)
  then show "assign_step iw acc \<noteq> Panic"
    by (auto simp: assign_step_def bind_go_Panic_iff split: go.splits)
qed

lemma sound_workload_step:
  assumes "codec_valid C" and "qualified_name_spec L" and "label_name owner" and "label_name (res_name w)"
    and "equals_sign (res_annotations w)"
  shows "sound (workload_bundle_step C L common anc owner w bl)"
  unfolding workload_bundle_step_def Let_def
  by (intro sound_intros sound_analyse sound_extract_rules sound_truncate label_name_dash assms
      assms(5) [unfolded equals_sign_def])

lemma sound_workload_bundles:
  assumes "codec_valid C" and "qualified_name_spec L" and "manifest_valid m"
    and "bulk_convert_to_resource_set C L (manifests (p2m_spec m)) = Ok resources"
  shows "sound (workload_bundles C L common m resources bl)"
proof (cases "assign_workload_annotations (filter is_workload resources) (workload_annotations (p2m_spec m))")
  case (Ok ws)
  let ?was = "workload_annotations (p2m_spec m)"
  have conv: "res_annotations r = [] \<and> dec_unstructured C (res_manifest r) = Inr (res_metadata r)"
    if "r \<in> set resources" for r using bulk_convert_sound [OF assms(4)] that by auto
  have was: "list_all (\<lambda>w. equals_sign (wa_annotations w)) ?was"
    using assms(3) by (simp add: manifest_valid_def)
  have "list_all (\<lambda>r. equals_sign (res_annotations r)) (filter is_workload resources)"
    using conv by (auto simp: list_all_iff equals_sign_def)
  from assigned_equals [OF Ok was this] have equals: "equals_sign (res_annotations w)" if "w \<in> set ws" for w
    using that by (simp add: list_all_iff)
  have named: "label_name (md_name md)" if "md \<in> res_metadata ` set (filter is_workload resources)" for md
  proof -
    from that obtain r where r: "r \<in> set resources" "is_workload r" "md = res_metadata r" by auto
    with conv [OF r(1)] assms(1) show ?thesis by (auto simp: codec_valid_def is_workload_def)
  qed
  have "res_metadata ` set ws = res_metadata ` set (filter is_workload resources)"
    using assign_keeps_metadata [OF Ok] by (metis list.set_map)
  with named have "label_name (res_name w)" if "w \<in> set ws" for w using that by blast
  moreover have "label_name (p2m_name m)" using assms(3) by (simp add: manifest_valid_def)
  ultimately have "sound (fold_go (workload_bundle_step C L common anc (p2m_name m)) ws bl)" for anc
    using equals by (intro sound_fold sound_workload_step assms)
  then show ?thesis by (simp add: workload_bundles_def categorise_def Ok)
next
  case (Fail e)
  then show ?thesis by (simp add: workload_bundles_def categorise_def sound_def)
next
  case Panic
  moreover have "list_all (\<lambda>w. equals_sign (wa_annotations w)) (workload_annotations (p2m_spec m))"
    using assms(3) by (simp add: manifest_valid_def)
  ultimately show ?thesis using assign_not_Panic by blast
qed

lemma sound_single:
  assumes "qualified_name_spec L" and "label_name name" and "label_name owner"
  shows "sound (single_bundle L name owner rules resources bl)"
  unfolding single_bundle_def
  by (intro sound_intros sound_truncate label_name_dash assms)

lemma sound_build:
  assumes "codec_valid C" and "qualified_name_spec L" and "manifest_valid m"
  shows "sound (build_and_update_bundles C L bl m)"
proof -
  have names: "label_name ''default''" "label_name ''global''"
    by code_simp+
  have m: "label_name (p2m_name m)" "list_all (\<lambda>a. CHR ''='' \<in> set a) (global_annotations (p2m_spec m))"
    using assms(3) by (simp_all add: manifest_valid_def equals_sign_def)
  show ?thesis
    unfolding build_and_update_bundles_def
    by (intro sound_intros sound_convert sound_extract_rules sound_single sound_workload_bundles names m assms)
qed

lemma sound_target_bundle:
  assumes "qualified_name_spec L" and "label_name name" and "label_name cluster"
  shows "sound (bundle_for_target L bl name cluster resources)"
  unfolding bundle_for_target_def
  by (intro sound_intros sound_truncate label_name_dash assms)

end
