(* ===== verification/P2_No_Panic.thy ===== *)
theory P2_No_Panic
  imports P2_Panics
begin

text \<open>
  Runs that end without a panic: the judgement \<open>safe\<close> for procedures, the answers of an API
  server a run can work with (\<open>server_valid\<close>), and the proof, stage by stage, that a run from
  a state whose stored bundles are well-formed does not panic and leaves them well-formed.
\<close>

section \<open>Safe procedures\<close>

definition recalls_well :: "('r, 'w) sys \<Rightarrow> bool" where
  "recalls_well s \<longleftrightarrow> (\<forall>name. well_bundled (stored_bundles s name))"

definition safe :: "('r, 'w, 'e, 'a) sysP \<Rightarrow> ('a \<Rightarrow> bool) \<Rightarrow> bool" where
  "safe m P \<longleftrightarrow> (\<forall>s r s'. recalls_well s \<longrightarrow> m s = (r, s') \<longrightarrow>
     recalls_well s' \<and> r \<noteq> Panic \<and> (\<forall>x. r = Ok x \<longrightarrow> P x))"

named_theorems safe_intros \<open>composition rules for procedures that do not panic\<close>

lemma safeI:
  "(\<And>s r s'. recalls_well s \<Longrightarrow> m s = (r, s') \<Longrightarrow> recalls_well s' \<and> r \<noteq> Panic \<and> (\<forall>x. r = Ok x \<longrightarrow> P x)) \<Longrightarrow> safe m P"
  unfolding safe_def by blast

lemma safeD:
  "safe m P \<Longrightarrow> recalls_well s \<Longrightarrow> m s = (r, s') \<Longrightarrow> recalls_well s' \<and> r \<noteq> Panic \<and> (\<forall>x. r = Ok x \<longrightarrow> P x)"
  unfolding safe_def by blast

lemma recalls_same: "sys_bundles s' = sys_bundles s \<Longrightarrow> recalls_well s' = recalls_well s"
  by (simp add: recalls_well_def stored_bundles_def)

lemma safe_mono: "safe m P \<Longrightarrow> (\<And>x. P x \<Longrightarrow> Q x) \<Longrightarrow> safe m Q"
  unfolding safe_def by blast

lemma safe_True: "safe m P \<Longrightarrow> safe m (\<lambda>_. True)"
  by (rule safe_mono) simp_all

lemma safe_ret [safe_intros]: "P x \<Longrightarrow> safe (retP x) P"
  by (simp add: safe_def retP_def)

lemma safe_fail [safe_intros]: "safe (failP e) P"
  by (simp add: safe_def failP_def)

lemma safe_stop [safe_intros]: "safe (stop_with r) P"
  by (simp add: stop_with_def safe_fail)

lemma safe_lift: "r \<noteq> Panic \<Longrightarrow> (\<And>x. r = Ok x \<Longrightarrow> P x) \<Longrightarrow> safe (liftP r) P"
  by (simp add: safe_def liftP_def)

lemma safe_get: "(\<And>s. recalls_well s \<Longrightarrow> P (f s)) \<Longrightarrow> safe (getP f) P"
  by (simp add: safe_def getP_def)

lemma safe_modify: "(\<And>s. recalls_well s \<Longrightarrow> recalls_well (f s)) \<Longrightarrow> P () \<Longrightarrow> safe (modifyP f) P"
  by (simp add: safe_def modifyP_def)

lemma safe_bind:
  assumes "safe m P" and "\<And>x. P x \<Longrightarrow> safe (f x) Q"
  shows "safe (bindP m f) Q"
proof (rule safeI)
  fix s r s'
  assume s: "recalls_well s" and run: "bindP m f s = (r, s')"
  obtain q t where q: "m s = (q, t)" by fastforce
  note t = safeD [OF assms(1) s q]
  show "recalls_well s' \<and> r \<noteq> Panic \<and> (\<forall>x. r = Ok x \<longrightarrow> Q x)"
  proof (cases q)
    case (Ok x)
    with run q have "f x t = (r, s')" by (simp add: bindP_def)
    from t Ok have "recalls_well t" "P x" by auto
    from safeD [OF assms(2) [OF this(2)] this(1) \<open>f x t = (r, s')\<close>] show ?thesis .
  qed (use run q t in \<open>auto simp: bindP_def\<close>)
qed

lemma safe_bind_any [safe_intros]: "safe m (\<lambda>_. True) \<Longrightarrow> (\<And>x. safe (f x) Q) \<Longrightarrow> safe (bindP m f) Q"
  by (rule safe_bind)

lemma safe_handle [safe_intros]:
  assumes "safe m P" and "\<And>e. safe (h e) P"
  shows "safe (handleP m h) P"
proof (rule safeI)
  fix s r s'
  assume s: "recalls_well s" and run: "handleP m h s = (r, s')"
  obtain q t where q: "m s = (q, t)" by fastforce
  note t = safeD [OF assms(1) s q]
  show "recalls_well s' \<and> r \<noteq> Panic \<and> (\<forall>x. r = Ok x \<longrightarrow> P x)"
  proof (cases q)
    case (Fail e)
    with run q have "h e t = (r, s')" by (simp add: handleP_def)
    from t have "recalls_well t" by simp
    from safeD [OF assms(2) this \<open>h e t = (r, s')\<close>] show ?thesis .
  qed (use run q t in \<open>auto simp: handleP_def\<close>)
qed

lemma safe_raising [safe_intros]: "safe m P \<Longrightarrow> safe (raising m) P"
  unfolding raising_def by (intro safe_handle safe_fail)

lemma safe_attempt:
  assumes "safe m P"
  shows "safe (attemptP m) (case_sum (\<lambda>_. True) P)"
proof (rule safeI)
  fix s r s'
  assume s: "recalls_well s" and run: "attemptP m s = (r, s')"
  obtain q t where q: "m s = (q, t)" by fastforce
  from safeD [OF assms s q] run q
  show "recalls_well s' \<and> r \<noteq> Panic \<and> (\<forall>x. r = Ok x \<longrightarrow> case_sum (\<lambda>_. True) P x)"
    by (cases q) (auto simp: attemptP_def)
qed

lemma safe_attempt_any [safe_intros]: "safe m (\<lambda>_. True) \<Longrightarrow> safe (attemptP m) (\<lambda>_. True)"
  by (rule safe_True [OF safe_attempt])

lemma safe_invoke: "(\<And>w x w'. f w = (Inr x, w') \<Longrightarrow> P x) \<Longrightarrow> safe (invoke c f) P"
  by (rule safeI) (auto simp: invoke_def recalls_well_def stored_bundles_def split: prod.splits sum.splits)

lemma safe_invoke_any [safe_intros]: "safe (invoke c f) (\<lambda>_. True)"
  by (rule safe_invoke) simp

lemma safe_loop:
  assumes "I acc" and "\<And>x a. x \<in> set xs \<Longrightarrow> I a \<Longrightarrow> safe (f x a) I"
  shows "safe (loopP f xs acc) I"
  using assms
proof (induction xs arbitrary: acc)
  case Nil
  then show ?case by (simp add: safe_ret)
next
  case (Cons x xs)
  show ?case
    unfolding loopP.simps by (rule safe_bind [where P = I]) (simp_all add: Cons)
qed

lemma safe_loop_any [safe_intros]:
  "(\<And>x a. x \<in> set xs \<Longrightarrow> safe (f x a) (\<lambda>_. True)) \<Longrightarrow> safe (loopP f xs acc) (\<lambda>_. True)"
  by (rule safe_loop) simp_all

lemma safe_if [safe_intros]: "(b \<Longrightarrow> safe m P) \<Longrightarrow> (\<not> b \<Longrightarrow> safe n P) \<Longrightarrow> safe (if b then m else n) P"
  by simp

lemma safe_case_option [safe_intros]:
  "(x = None \<Longrightarrow> safe m P) \<Longrightarrow> (\<And>y. x = Some y \<Longrightarrow> safe (f y) P) \<Longrightarrow>
     safe (case x of None \<Rightarrow> m | Some y \<Rightarrow> f y) P"
  by (cases x) auto

lemma safe_case_sum [safe_intros]:
  "(\<And>e. x = Inl e \<Longrightarrow> safe (f e) P) \<Longrightarrow> (\<And>y. x = Inr y \<Longrightarrow> safe (g y) P) \<Longrightarrow>
     safe (case x of Inl e \<Rightarrow> f e | Inr y \<Rightarrow> g y) P"
  by (cases x) auto

lemma safe_case_prod [safe_intros]:
  "(\<And>a b. x = (a, b) \<Longrightarrow> safe (f a b) P) \<Longrightarrow> safe (case x of (a, b) \<Rightarrow> f a b) P"
  by (cases x) auto

text \<open>A result about normal ends (\<open>ok_spec\<close>) adds to a safe procedure.\<close>

lemma safe_ok:
  assumes "safe m P" and "ok_spec m (\<lambda>x tr. Q x)"
  shows "safe m (\<lambda>x. P x \<and> Q x)"
proof (rule safeI)
  fix s r s'
  assume s: "recalls_well s" and run: "m s = (r, s')"
  from run_specD [OF assms(2) [unfolded ok_spec_def] run] have "\<forall>x. r = Ok x \<longrightarrow> Q x" by blast
  with safeD [OF assms(1) s run] show "recalls_well s' \<and> r \<noteq> Panic \<and> (\<forall>x. r = Ok x \<longrightarrow> P x \<and> Q x)" by blast
qed

lemma safe_sound_text:
  "error_text e \<noteq> '''' \<Longrightarrow> safe (raising (liftP (sentence_case (error_text e)))) (\<lambda>_. True)"
  by (intro safe_raising safe_lift) (simp_all add: sentence_case_def split: list.splits)

section \<open>The answers of the server\<close>

text \<open>
  What the code takes for granted of the objects it reads: names and annotations as in
  \<open>manifest_valid\<close>; a placement names its cluster sets, and one that is satisfied has a
  decision group with a decision; a decision names a cluster; a condition of a failed
  ManifestWork has a message.
\<close>

definition placement_valid :: "lib \<Rightarrow> placement \<Rightarrow> bool" where
  "placement_valid L p \<longleftrightarrow> pl_cluster_sets p \<noteq> [] \<and>
     (case find_status_condition L (pl_conditions p) ''PlacementSatisfied'' of
        None \<Rightarrow> True
      | Some c \<Rightarrow> cond_status c = CondTrue \<longrightarrow> pl_decision_groups p \<noteq> [] \<and> hd (pl_decision_groups p) \<noteq> [])"

definition work_valid :: "'r manifest_work \<Rightarrow> bool" where
  "work_valid w \<longleftrightarrow> list_all (list_all (\<lambda>c. condition_fails c \<longrightarrow> cond_message c \<noteq> '''')) (work_status w)"

definition answers :: "('w \<Rightarrow> (api_error + 'a) \<times> 'w) \<Rightarrow> ('a \<Rightarrow> bool) \<Rightarrow> bool" where
  "answers f P \<longleftrightarrow> (\<forall>w x w'. f w = (Inr x, w') \<longrightarrow> P x)"

definition server_valid :: "lib \<Rightarrow> ('r, 'w) client \<Rightarrow> bool" where
  "server_valid L K \<longleftrightarrow>
     (\<forall>k. answers (cl_get_manifest K k) manifest_valid) \<and>
     (\<forall>m. manifest_valid m \<longrightarrow> answers (cl_update_manifest K m) manifest_valid) \<and>
     (\<forall>m. manifest_valid m \<longrightarrow> answers (cl_update_status K m) manifest_valid) \<and>
     (\<forall>k. answers (cl_get_placement K k) (placement_valid L)) \<and>
     (\<forall>p. pl_cluster_sets p \<noteq> [] \<and> pl_conditions p = [] \<longrightarrow>
        answers (cl_create_placement K p) (placement_valid L)) \<and>
     (\<forall>k. answers (cl_get_decision K k) (\<lambda>d. pd_cluster_names d \<noteq> [])) \<and>
     (\<forall>sel. answers (cl_list_works K sel) (list_all work_valid))"

text \<open>\<open>ctrl.SetControllerReference\<close> changes the owners of a placement only.\<close>

definition controller_reference_spec :: "lib \<Rightarrow> bool" where
  "controller_reference_spec L \<longleftrightarrow>
     (\<forall>owner p q. set_controller_reference L owner p = Inr q \<longrightarrow> (\<exists>os. q = p\<lparr>pl_owners := os\<rparr>))"

lemma safe_answers: "answers f P \<Longrightarrow> safe (invoke c f) P"
  unfolding answers_def by (rule safe_invoke) blast

lemma safe_misconfigured:
  assumes "sound r" and "\<And>c. safe (report L K m c []) P" and "\<And>x. r = Ok x \<Longrightarrow> P x"
  shows "safe (or_misconfigured L K m r) P"
proof (cases r)
  case (Fail e)
  show ?thesis
  proof (cases "as_misconfigured e")
    case True
    with assms(1) Fail have "error_text e \<noteq> ''''" by (auto simp: sound_def)
    from safe_bind [OF safe_sound_text [OF this] assms(2)] show ?thesis
      by (simp add: or_misconfigured_def Fail True)
  next
    case False
    then show ?thesis by (simp add: or_misconfigured_def Fail safe_fail)
  qed
next
  case Panic
  with assms(1) show ?thesis by (simp add: sound_def)
qed (simp add: or_misconfigured_def safe_ret assms(3))

section \<open>Status, membership and discovery\<close>

lemma safe_update_status:
  "server_valid L K \<Longrightarrow> safe (update_status L K m c ds) manifest_valid"
  unfolding update_status_def Let_def
  by (rule safe_bind [where P = manifest_valid])
     (auto simp: server_valid_def manifest_valid_def with_status_def intro!: safe_answers)

lemma safe_status_any: "server_valid L K \<Longrightarrow> safe (update_status L K m c ds) (\<lambda>_. True)"
  by (rule safe_True [OF safe_update_status])

lemma safe_report: "server_valid L K \<Longrightarrow> safe (report L K m c ds) P"
  unfolding report_def by (intro safe_intros safe_status_any)

lemma safe_membership:
  "safe (does_managed_cluster_set_exist K n) (\<lambda>_. True)"
  "safe (is_managed_cluster_in_set L K n c) (\<lambda>_. True)"
  "safe (is_cluster_set_bound K n) (\<lambda>_. True)"
  "safe (is_cluster_set_empty L K n) (\<lambda>_. True)"
  unfolding does_managed_cluster_set_exist_def is_managed_cluster_in_set_def is_cluster_set_bound_def
    is_cluster_set_empty_def Let_def
  by (intro safe_intros TrueI)+

lemma safe_installed: "safe (is_multi_cluster_network_installed K) (\<lambda>_. True)"
  unfolding is_multi_cluster_network_installed_def
  by (intro safe_intros TrueI) (auto split: go_error.splits intro!: safe_intros)

section \<open>Placements, works and links\<close>

lemma target_not_Panic: "equals_sign as \<Longrightarrow> extract_target as \<noteq> Panic"
  by (auto simp: extract_target_eq equals_sign_def list_all_iff)

lemma safe_create_placement:
  assumes "server_valid L K" and "controller_reference_spec L"
  shows "safe (create_placement L K n cs reqs m) (placement_valid L)"
proof (cases "set_controller_reference L (p2m_name m) (new_placement n cs reqs)")
  case (Inr p)
  with assms(2) obtain os where "p = (new_placement n cs reqs)\<lparr>pl_owners := os\<rparr>"
    unfolding controller_reference_spec_def by blast
  then have "pl_cluster_sets p \<noteq> []" "pl_conditions p = []" by (simp_all add: new_placement_fields)
  with assms(1) have "answers (cl_create_placement K p) (placement_valid L)" by (simp add: server_valid_def)
  then show ?thesis by (simp add: create_placement_def Inr safe_handle safe_answers safe_fail)
qed (simp add: create_placement_def safe_fail)

lemma safe_associated:
  assumes "server_valid L K" and "manifest_valid m" and "controller_reference_spec L"
  shows "safe (get_associated_placement L K b m) (placement_valid L)"
proof -
  let ?d = "scheduling_details b"
  have get: "safe (invoke c (cl_get_placement K k)) (placement_valid L)" for c k
    using assms(1) by (intro safe_answers) (simp add: server_valid_def)
  have "equals_sign (global_annotations (p2m_spec m))" using assms(2) by (simp add: manifest_valid_def)
  from safe_lift [OF target_not_Panic [OF this], of "\<lambda>_. True"]
  have create: "safe (bindP (liftP (extract_target (global_annotations (p2m_spec m)))) (\<lambda>(cluster_set, _).
      create_placement L K (resource_name ?d) cluster_set (placement_requests ?d) m)) (placement_valid L)"
    by (intro safe_bind_any safe_case_prod safe_create_placement assms) simp
  have update: "safe (bindP (invoke c f) (\<lambda>_. invoke c' (cl_get_placement K k))) (placement_valid L)"
    for c c' k and f :: "'b \<Rightarrow> (api_error + placement) \<times> 'b"
    by (intro safe_bind_any safe_invoke_any get)
  show ?thesis
    unfolding get_associated_placement_def Let_def
    by (intro safe_bind_any safe_attempt_any safe_invoke_any)
       (auto split: sum.splits go_error.splits api_error.splits intro: create update)
qed

lemma safe_index: "xs \<noteq> [] \<Longrightarrow> safe (liftP (index_go xs 0)) (\<lambda>x. x = hd xs)"
  by (rule safe_lift) (auto simp: index_go_def hd_conv_nth)

lemma safe_selected:
  assumes "server_valid L K" and "pl_decision_groups p \<noteq> []" and "hd (pl_decision_groups p) \<noteq> []"
  shows "safe (get_selected_cluster K p) (\<lambda>_. True)"
proof -
  have decision: "safe (invoke c (cl_get_decision K k)) (\<lambda>d. pd_cluster_names d \<noteq> [])" for c k
    using assms(1) by (intro safe_answers) (simp add: server_valid_def)
  show ?thesis
    unfolding get_selected_cluster_def
  proof (rule safe_bind [OF safe_index [OF assms(2)]], simp, rule safe_bind_any)
    show "safe (liftP (index_go (hd (pl_decision_groups p)) 0)) (\<lambda>_. True)"
      by (rule safe_True [OF safe_index [OF assms(3)]])
  qed (intro safe_bind [OF decision] safe_True [OF safe_index])
qed

lemma safe_failed_condition: "safe (extract_failed_condition K c n) (\<lambda>_. True)"
  unfolding extract_failed_condition_def by (intro safe_intros safe_membership TrueI)

lemma safe_deletes:
  "safe (delete_placement K n) (\<lambda>_. True)" "safe (delete_manifest_work K n ns) (\<lambda>_. True)"
  unfolding delete_placement_def delete_manifest_work_def Let_def by (intro safe_intros TrueI)+

lemma safe_owned: "server_valid L K \<Longrightarrow> safe (get_owned_manifest_work_list L K owner) (list_all work_valid)"
  unfolding get_owned_manifest_work_list_def server_valid_def
  by (intro safe_intros safe_answers) blast

lemma safe_delete_owned: "server_valid L K \<Longrightarrow> safe (delete_owned_manifest_work_list L K owner) (\<lambda>_. True)"
  unfolding delete_owned_manifest_work_list_def
  by (intro safe_intros safe_True [OF safe_owned])

lemma delete_step_not_Panic: "link_api_spec L \<Longrightarrow> delete_step L nc links \<noteq> Panic"
  by (auto simp: delete_step_def link_api_spec_def remove_index_def bind_go_Panic_iff Let_def
      dest: service_index_SomeD split: option.splits)

lemma delete_links_not_Panic: "link_api_spec L \<Longrightarrow> delete_links L ncs links \<noteq> Panic"
  unfolding delete_links_def by (intro fold_go_no_panic delete_step_not_Panic)

lemma safe_fetch: "safe (fetch_multi_cluster_network K) (\<lambda>_. True)"
  unfolding fetch_multi_cluster_network_def
  by (intro safe_intros) (auto split: go_error.splits api_error.splits intro: safe_intros)

lemma safe_register: "safe (register_network_links L K ncs) (\<lambda>_. True)"
  unfolding register_network_links_def Let_def by (intro safe_intros safe_fetch)

lemma safe_delete_links: "link_api_spec L \<Longrightarrow> safe (delete_network_links L K ncs) (\<lambda>_. True)"
  unfolding delete_network_links_def Let_def
  by (intro safe_intros safe_fetch safe_lift delete_links_not_Panic TrueI)

section \<open>The stages of a run\<close>

lemma safe_bind_valid:
  "safe m manifest_valid \<Longrightarrow> (\<And>x. manifest_valid x \<Longrightarrow> safe (f x) Q) \<Longrightarrow> safe (bindP m f) Q"
  by (rule safe_bind)

lemma safe_start:
  assumes "server_valid L K" and "qualified_name_spec L"
  shows "safe (start_reconcile L K req) manifest_valid"
proof -
  have read: "safe (invoke c (cl_get_manifest K req)) manifest_valid" for c
    using assms(1) by (intro safe_answers) (simp add: server_valid_def)
  have rest: "safe (bindP (raising (liftP (truncate_name_if_needed L (p2m_name m)))) (\<lambda>owner.
      bindP (modifyP (\<lambda>s. s\<lparr>sys_owner := owner\<rparr>)) (\<lambda>_.
      case get_in_progress_state m of None \<Rightarrow> retP m | Some c \<Rightarrow> raising (update_status L K m c []))))
      manifest_valid" if m: "manifest_valid m" for m
  proof (intro safe_bind_any safe_raising safe_lift safe_modify safe_case_option safe_ret safe_update_status assms m)
    from m have "label_name (p2m_name m)" by (simp add: manifest_valid_def)
    with assms(2) show "truncate_name_if_needed L (p2m_name m) \<noteq> Panic" by (rule truncate_not_Panic)
  qed (simp_all add: recalls_well_def stored_bundles_def)
  show ?thesis
    unfolding start_reconcile_def
    by (rule safe_bind [OF safe_attempt [OF read]])
       (auto split: sum.splits go_error.splits api_error.splits intro: rest safe_intros)
qed

lemma safe_namespace: "server_valid L K \<Longrightarrow> safe (check_namespace L K req m) (\<lambda>_. True)"
  unfolding check_namespace_def by (intro safe_intros safe_report TrueI)

lemma safe_ensure_finalizer:
  assumes "server_valid L K" and "manifest_valid m"
  shows "safe (ensure_finalizer L K req m) manifest_valid"
proof -
  have read: "safe (raising (invoke c (cl_get_manifest K req))) manifest_valid" for c
    using assms(1) by (intro safe_raising safe_answers) (simp add: server_valid_def)
  have "safe (raising (invoke c (cl_update_manifest K (m'\<lparr>p2m_finalizers := fs\<rparr>)))) manifest_valid"
    if "manifest_valid m'" for c m' fs
    using assms(1) that by (intro safe_raising safe_answers) (simp add: server_valid_def manifest_valid_def)
  then show ?thesis
    unfolding ensure_finalizer_def Let_def
    by (intro safe_if safe_ret assms safe_bind_valid [OF read] safe_case_option safe_stop)
qed

lemma connections_not_Panic: "well_bundled bl \<Longrightarrow> get_network_connections bl \<noteq> Panic"
  using well_bundled_connections by (metis go.distinct(3))

lemma safe_bind_connections:
  assumes "well_bundled bl" and "\<And>ncs. safe (f ncs) P"
  shows "safe (bindP (raising (liftP (get_network_connections bl))) f) P"
  by (intro safe_bind_any safe_raising safe_lift connections_not_Panic assms TrueI)

lemma safe_bind_stored:
  assumes "\<And>bl. well_bundled bl \<Longrightarrow> safe (f bl) P"
  shows "safe (bindP (getP (\<lambda>s. stored_bundles s name)) f) P"
  by (rule safe_bind [OF safe_get [where P = well_bundled] assms]) (simp_all add: recalls_well_def)

lemma safe_remove_links: "link_api_spec L \<Longrightarrow> safe (remove_stored_links L K name) (\<lambda>_. True)"
  unfolding remove_stored_links_def
  by (intro safe_bind_stored safe_bind_connections safe_raising safe_delete_links)

lemma forget_recalls:
  "recalls_well s \<Longrightarrow> recalls_well (s\<lparr>sys_bundles := delete_bundles (sys_bundles s) name\<rparr>)"
  by (auto simp: recalls_well_def stored_bundles_def delete_bundles_def well_bundled_def split: option.splits)

lemma store_recalls:
  "recalls_well s \<Longrightarrow> well_bundled bl \<Longrightarrow> recalls_well (s\<lparr>sys_bundles := (sys_bundles s)(name \<mapsto> bl)\<rparr>)"
  by (simp add: recalls_well_def stored_bundles_def)

lemma safe_deletion:
  assumes "server_valid L K" and "link_api_spec L"
  shows "safe (handle_deletion L K m) (\<lambda>_. True)"
proof -
  have release: "safe (release L K m) P" for m and P :: "'c \<Rightarrow> bool"
    unfolding release_def Let_def by (intro safe_intros safe_status_any assms)
  show ?thesis
    unfolding handle_deletion_def finalize_def
    by (intro safe_if safe_bind_any safe_raising safe_status_any safe_delete_owned safe_installed safe_remove_links
        safe_get safe_modify forget_recalls release safe_ret safe_stop assms TrueI)
qed

lemma safe_validate:
  assumes "server_valid L K" and "manifest_valid m"
  shows "safe (validate_manifest L K m) (\<lambda>t. extract_target (global_annotations (p2m_spec m)) = Ok t)"
proof -
  have "equals_sign (global_annotations (p2m_spec m))" using assms(2) by (simp add: manifest_valid_def)
  from target_not_Panic [OF this] have target: "safe (read_target L K m) (\<lambda>_. True)"
    by (auto simp: read_target_def split: go.splits intro: safe_intros safe_report [OF assms(1)])
  have annotations: "safe (check_annotations L K m) (\<lambda>_. True)"
    by (auto simp: check_annotations_def split: go.splits intro: safe_intros safe_report [OF assms(1)])
  have "safe (check_cluster_set L K m n) (\<lambda>_. True)" for n
    unfolding check_cluster_set_def by (intro safe_intros safe_membership safe_report assms TrueI)
  with target annotations have "safe (validate_manifest L K m) (\<lambda>_. True)"
    unfolding validate_manifest_def by (intro safe_intros TrueI)
  from safe_ok [OF this ok_validate] show ?thesis by (rule safe_mono) simp
qed

lemma safe_place_bundle:
  assumes "server_valid L K" and "manifest_valid m" and "controller_reference_spec L"
  shows "safe (place_bundle L K m b) (\<lambda>_. True)"
  unfolding place_bundle_def
proof (rule safe_bind [OF safe_raising [OF safe_associated [OF assms]]], intro safe_if safe_case_option safe_stop)
  fix p c
  assume p: "placement_valid L p" "find_status_condition L (pl_conditions p) ''PlacementSatisfied'' = Some c"
  show "safe (bindP (handleP (get_selected_cluster K p) (\<lambda>e. failP (Raise (PlainError
           (''unable to read placement decision for '' @ pl_name p @ '' placement''))))) (\<lambda>cluster.
         retP (set_cluster cluster b))) (\<lambda>_. True)" if "cond_status c = CondTrue"
  proof -
    from p that have "pl_decision_groups p \<noteq> []" "hd (pl_decision_groups p) \<noteq> []"
      by (simp_all add: placement_valid_def)
    from safe_selected [OF assms(1) this]
    have "safe (handleP (get_selected_cluster K p) (\<lambda>e. failP (h e))) (\<lambda>_. True)" for h :: "go_error \<Rightarrow> stop"
      unfolding safe_def by (fastforce simp: handleP_def failP_def split: prod.splits go.splits)
    then show ?thesis by (intro safe_bind_any safe_ret TrueI)
  qed
  have "pl_cluster_sets p \<noteq> []" using p(1) by (simp add: placement_valid_def)
  from safe_True [OF safe_index [OF this]]
  show "safe (bindP (raising (liftP (index_go (pl_cluster_sets p) 0))) (\<lambda>set_name.
         bindP (raising (extract_failed_condition K c set_name)) (\<lambda>c'. report L K m c' []))) (\<lambda>_. True)"
    by (intro safe_bind_any safe_raising safe_failed_condition safe_report assms)
qed

text \<open>The stage that chooses the clusters; its bundles are authorised, hence well-formed.\<close>

lemma safe_place_bundles:
  assumes "server_valid L K" and "manifest_valid m" and "controller_reference_spec L"
  shows "safe (place_bundles L K m bl) (\<lambda>_. True)"
  unfolding place_bundles_def by (intro safe_intros safe_place_bundle assms TrueI)

lemma safe_choose:
  fixes K :: "('r, 'w) client"
  assumes "server_valid L K" and "manifest_valid m" and "codec_valid C" and "qualified_name_spec L"
    and "controller_reference_spec L" and target: "extract_target (global_annotations (p2m_spec m)) = Ok (n, c)"
  shows "safe (choose_clusters C L K m n c) (\<lambda>mb. well_bundled (snd mb))"
proof -
  note report = safe_report [OF assms(1)]
  have placed: "safe (placed_workload_bundles C L K m []) (\<lambda>_. True)"
    unfolding placed_workload_bundles_def announce_placement_def
    by (intro safe_bind_any safe_misconfigured sound_build report safe_place_bundles safe_raising safe_status_any
        safe_ret assms TrueI)
  have targeted: "safe (bindP (target_cluster_bundles C L K m n c []) (\<lambda>bundles. retP (m, bundles))) (\<lambda>_. True)"
    if "c \<noteq> ''''"
  proof -
    from assms(2) target that have names: "label_name (p2m_name m)" "label_name c"
      by (auto simp: manifest_valid_def)
    have "bundle_for_target L [] (p2m_name m) c resources \<noteq> Panic" for resources :: "'r resource_set"
      by (rule conjunct1 [OF sound_target_bundle [OF assms(4) names, unfolded sound_def]])
    then show ?thesis
      unfolding target_cluster_bundles_def
      by (intro safe_bind_any safe_raising safe_membership safe_if report safe_misconfigured sound_convert safe_lift
          safe_ret TrueI)
  qed
  have "safe (choose_clusters C L K m n c) (\<lambda>_. True)"
    unfolding choose_clusters_def by (intro safe_if targeted placed)
  moreover have "ok_spec (choose_clusters C L K m n c) (\<lambda>mb tr. well_bundled (snd mb))"
    by (rule ok_spec_mono [OF ok_choose [OF target]]) (blast dest: authorised_well_bundled)
  ultimately have "safe (choose_clusters C L K m n c) (\<lambda>mb. True \<and> well_bundled (snd mb))"
    by (rule safe_ok)
  then show ?thesis by simp
qed

lemma safe_clean_up: "safe (clean_up_old_bundles K name bl) (\<lambda>_. True)"
proof -
  have step: "safe (clean_up_bundle K existing bl b u) (\<lambda>_. True)" if "b \<in> set existing" for existing b u
  proof -
    from that have "get_bundle existing (bundle_name b) \<noteq> None" by (auto simp: get_bundle_None_iff)
    then show ?thesis
      unfolding clean_up_bundle_def Let_def
      by (intro safe_case_option safe_if safe_bind_any safe_raising safe_deletes safe_ret TrueI) simp
  qed
  show ?thesis
    unfolding clean_up_old_bundles_def by (intro safe_bind_stored safe_loop_any step)
qed

lemma safe_apply: "safe (apply_bundles K owner bl) (\<lambda>_. True)"
proof -
  have "safe (case r of
             Inl (Api (NotFound t)) \<Rightarrow> raising (invoke (CreateWork w) (cl_create_work K w))
           | Inl _ \<Rightarrow> raising (invoke (UpdateWork (zero_work\<lparr>work_spec := work_spec w\<rparr>))
               (cl_update_work K (zero_work\<lparr>work_spec := work_spec w\<rparr>)))
           | Inr old \<Rightarrow> raising (invoke (UpdateWork (old\<lparr>work_spec := work_spec w\<rparr>))
               (cl_update_work K (old\<lparr>work_spec := work_spec w\<rparr>)))) (\<lambda>_. True)" for r w
    by (auto split: sum.splits go_error.splits api_error.splits intro: safe_intros)
  then show ?thesis
    unfolding apply_bundles_def apply_bundle_def Let_def
    by (intro safe_loop_any safe_bind_any safe_attempt_any safe_invoke_any safe_ret TrueI)
qed

lemma failed_work_text:
  assumes "work_valid w" and "validate_manifest_work_applied w = Fail e" and "as_work_failed e"
  shows "error_text e \<noteq> ''''"
proof -
  from assms(2,3) obtain c where "List.find condition_fails (concat (work_status w)) = Some c"
    and e: "e = ManifestWorkFailedError (cond_message c)"
    by (auto simp: validate_work_eq split: if_splits option.splits)
  then have "c \<in> set (concat (work_status w))" "condition_fails c" by (auto simp: find_Some_iff simp del: set_concat)
  with assms(1) have "cond_message c \<noteq> ''''" by (auto simp: work_valid_def list_all_iff)
  then show ?thesis by (simp add: e)
qed

lemma safe_check_works:
  assumes "server_valid L K"
  shows "safe (check_works L K owner m bl) (\<lambda>_. True)"
proof -
  have "safe (check_work L K m bl w u) (\<lambda>_. True)" if "work_valid w" for w u
  proof (cases "validate_manifest_work_applied w")
    case (Fail e)
    show ?thesis
    proof (cases "as_work_failed e")
      case True
      from safe_bind_any [OF safe_sound_text [OF failed_work_text [OF that Fail True]] safe_report [OF assms]]
      show ?thesis by (simp add: check_work_def Fail True)
    next
      case False
      then show ?thesis by (auto simp: check_work_def Fail intro: safe_intros)
    qed
  next
    case Panic
    then show ?thesis by (simp add: validate_work_eq split: if_splits option.splits)
  qed (simp add: check_work_def safe_ret)
  then have "safe (if length bl \<noteq> length works then stop_with (RequeueAfter requeue_delay)
      else loopP (check_work L K m bl) works ()) (\<lambda>_. True)" if "list_all work_valid works" for works
    using that by (intro safe_if safe_stop safe_loop_any) (simp add: list_all_iff)
  then show ?thesis
    unfolding check_works_def by (rule safe_bind [OF safe_raising [OF safe_owned [OF assms]]])
qed

lemma safe_connect:
  assumes "server_valid L K" and "link_api_spec L" and "well_bundled bl"
  shows "safe (connect_bundles L K m bl) (\<lambda>_. True)"
proof -
  have rest: "safe (bindP (raising (liftP (get_network_connections bl))) (\<lambda>connections.
     if length connections \<noteq> 0
     then if \<not> installed then report L K m c ds else raising (register_network_links L K connections)
     else retP ())) (\<lambda>_. True)" for installed c ds
    by (intro safe_bind_connections assms safe_if safe_report safe_raising safe_register safe_ret TrueI)
  show ?thesis
    unfolding connect_bundles_def
    by (intro safe_bind_any [OF safe_raising [OF safe_installed]] safe_bind_stored safe_bind_connections
        safe_bind_any [OF _ rest] safe_if safe_raising safe_delete_links safe_ret assms TrueI)
qed

lemma safe_complete:
  assumes "server_valid L K" and "well_bundled bl"
  shows "safe (complete L K m bl n) (\<lambda>_. True)"
  unfolding complete_def Let_def
  by (intro safe_if safe_report safe_bind_any safe_raising safe_status_any safe_modify store_recalls safe_ret assms TrueI)

section \<open>The whole run\<close>

lemma safe_schedule:
  assumes "server_valid L K" and "manifest_valid m" and "codec_valid C" and "qualified_name_spec L"
    and "controller_reference_spec L" and "link_api_spec L"
  shows "safe (schedule C L K m) (\<lambda>_. True)"
proof -
  have "safe (roll_out L K m' bl) (\<lambda>_. True)" if "well_bundled bl" for m' bl
    unfolding roll_out_def
    by (intro safe_bind_any safe_clean_up safe_get safe_apply safe_check_works safe_connect safe_complete assms that TrueI)
  then have "safe (case mb of (m', bundles) \<Rightarrow> roll_out L K m' bundles) (\<lambda>_. True)" if "well_bundled (snd mb)" for mb
    using that by (simp add: case_prod_beta')
  from safe_bind [OF safe_choose [OF assms(1-5)] this]
  have "safe (case t of (n, c) \<Rightarrow> bindP (choose_clusters C L K m n c) (\<lambda>(m', bundles). roll_out L K m' bundles)) (\<lambda>_. True)"
    if "extract_target (global_annotations (p2m_spec m)) = Ok t" for t
    using that by (cases t) simp
  from safe_bind [OF safe_validate [OF assms(1,2)] this] show ?thesis by (simp add: schedule_def)
qed

lemma safe_reconcile:
  fixes K :: "('r, 'w) client"
  assumes "server_valid L K" and "codec_valid C" and "qualified_name_spec L" and "controller_reference_spec L"
    and "link_api_spec L"
  shows "safe (reconcile C L K req) (\<lambda>_. True)"
proof -
  have "safe (reconcile_steps C L K req) (\<lambda>_. True)"
    unfolding reconcile_steps_def
  proof (rule safe_bind_valid [OF safe_start [OF assms(1,3)]], rule safe_bind_any [OF safe_namespace [OF assms(1)]])
    fix m :: "'r p2m"
    assume "manifest_valid m"
    from safe_ensure_finalizer [OF assms(1) this]
    show "safe (bindP (ensure_finalizer L K req m) (\<lambda>m. bindP (handle_deletion L K m) (\<lambda>_. schedule C L K m))) (\<lambda>_. True)"
      by (rule safe_bind_valid) (intro safe_bind_any safe_deletion safe_schedule assms)
  qed
  then have "recalls_well s' \<and> r \<noteq> Panic" if "recalls_well s" "reconcile C L K req s = (r, s')" for s r s'
  proof -
    obtain q t where q: "reconcile_steps C L K req s = (q, t)" by fastforce
    from safeD [OF \<open>safe (reconcile_steps C L K req) _\<close> that(1) q] that(2) show ?thesis
      by (cases q) (auto simp: reconcile_def handleP_def q retP_def failP_def split: stop.splits)
  qed
  then show ?thesis unfolding safe_def by blast
qed

lemma reachable_recalls: "reachable C L K s \<Longrightarrow> recalls_well s"
  by (simp add: recalls_well_def stored_well_bundled)

end
