(* ===== verification/P2_DeepCopy.thy ===== *)
theory P2_DeepCopy
  imports P2_Prelude
begin

text \<open>
  \<^verbatim>\<open>api/v1alpha1/zz_generated.deepcopy.go\<close>. The copies are about sharing, so this theory has
  an explicit memory: a heap is a list of cells, an address is a position in it, a cell is
  the array a slice or a pointer refers to, and allocation appends a cell. Values are
  structs with slice headers in them. The theory defines what a struct denotes in a heap
  and which cells it occupies (\<open>look_...\<close>), states what a deep copy promises as the locale
  \<open>deep_copier\<close>, and shows that the promise passes from the fields to the struct.
\<close>

section \<open>Heaps and slices\<close>

record slice =
  sl_array :: nat
  sl_offset :: nat
  sl_len :: nat

text \<open>How arrays of one element type are stored in cells, and the zero value of the type.\<close>

record ('a, 'c) array_kind =
  as_cell :: "'a list \<Rightarrow> 'c"
  of_cell :: "'c \<Rightarrow> 'a list option"
  zero_value :: 'a

definition proper_kind :: "('a, 'c) array_kind \<Rightarrow> bool" where
  "proper_kind k \<longleftrightarrow> (\<forall>xs. of_cell k (as_cell k xs) = Some xs)"

definition array_at :: "('a, 'c) array_kind \<Rightarrow> 'c list \<Rightarrow> nat \<Rightarrow> 'a list option" where
  "array_at k h a = (if a < length h then of_cell k (h ! a) else None)"

text \<open>The elements a slice refers to; nothing when it refers to no array of its type.\<close>

definition elements :: "('a, 'c) array_kind \<Rightarrow> 'c list \<Rightarrow> slice \<Rightarrow> 'a list option" where
  "elements k h s =
     (case array_at k h (sl_array s) of
        None \<Rightarrow> None
      | Some xs \<Rightarrow>
        if sl_offset s + sl_len s \<le> length xs then Some (take (sl_len s) (drop (sl_offset s) xs)) else None)"

text \<open>
  \<open>(*in)[i]\<close>. A slice of a Go program always refers to an array that holds it; the zero
  value stands for the other headers.
\<close>

definition load :: "('a, 'c) array_kind \<Rightarrow> 'c list \<Rightarrow> slice \<Rightarrow> nat \<Rightarrow> 'a" where
  "load k h s i =
     (case elements k h s of
        None \<Rightarrow> zero_value k
      | Some xs \<Rightarrow> if i < length xs then xs ! i else zero_value k)"

text \<open>\<open>(*out)[i] = x\<close>, where \<open>out\<close> is the whole array at an address.\<close>

definition store :: "('a, 'c) array_kind \<Rightarrow> nat \<Rightarrow> nat \<Rightarrow> 'a \<Rightarrow> 'c list \<Rightarrow> 'c list" where
  "store k a i x h =
     (case array_at k h a of None \<Rightarrow> h | Some xs \<Rightarrow> h[a := as_cell k (xs[i := x])])"

section \<open>What a value denotes\<close>

text \<open>The value itself, free of addresses, and the cells it occupies.\<close>

type_synonym ('c, 'a, 'v) look = "'c list \<Rightarrow> 'a \<Rightarrow> ('v \<times> nat set) option"
type_synonym ('c, 'a) copier = "'a \<Rightarrow> 'c list \<Rightarrow> 'a \<times> 'c list"

fun look_all :: "('c, 'a, 'v) look \<Rightarrow> 'c list \<Rightarrow> 'a list \<Rightarrow> ('v list \<times> nat set) option" where
  "look_all l h [] = Some ([], {})"
| "look_all l h (x # xs) =
     (case l h x of
        None \<Rightarrow> None
      | Some (v, A) \<Rightarrow> (case look_all l h xs of None \<Rightarrow> None | Some (vs, B) \<Rightarrow> Some (v # vs, A \<union> B)))"

text \<open>A nil slice denotes \<open>None\<close>, which is not the empty slice.\<close>

definition look_slice :: "('a, 'c) array_kind \<Rightarrow> ('c, 'a, 'v) look \<Rightarrow> ('c, slice option, 'v list option) look" where
  "look_slice k l h s =
     (case s of
        None \<Rightarrow> Some (None, {})
      | Some s \<Rightarrow> (case elements k h s of
          None \<Rightarrow> None
        | Some xs \<Rightarrow> map_option (\<lambda>(vs, A). (Some vs, insert (sl_array s) A)) (look_all l h xs)))"

definition look_flat :: "('c, 'a, 'a) look" where
  "look_flat h x = Some (x, {})"

definition look_pair :: "('c, 'a, 'v) look \<Rightarrow> ('c, 'b, 'w) look \<Rightarrow> ('c, 'a \<times> 'b, 'v \<times> 'w) look" where
  "look_pair l m h p =
     (case l h (fst p) of
        None \<Rightarrow> None
      | Some (v, A) \<Rightarrow> map_option (\<lambda>(w, B). ((v, w), A \<union> B)) (m h (snd p)))"

section \<open>The contract of a deep copy\<close>

text \<open>
  A copy leaves every cell as it was, denotes the same value, and occupies new cells only.
  What a value denotes depends on the cells it occupies alone.
\<close>

locale deep_copier =
  fixes copy :: "('c, 'a) copier" and look :: "('c, 'a, 'v) look"
  assumes copies: "look h x = Some (v, A) \<Longrightarrow> copy x h = (y, h') \<Longrightarrow>
      \<exists>new B. h' = h @ new \<and> look h' y = Some (v, B) \<and> B \<subseteq> {length h..<length h'}"
    and inside: "look h x = Some (v, A) \<Longrightarrow> A \<subseteq> {..<length h}"
    and looks_local: "look h x = Some (v, A) \<Longrightarrow> (\<And>i. i \<in> A \<Longrightarrow> i < length g \<and> g ! i = h ! i) \<Longrightarrow>
      look g x = Some (v, A)"
begin

lemma look_grown: "look h x = Some (v, A) \<Longrightarrow> look (h @ new) x = Some (v, A)"
  by (rule looks_local) (auto simp: nth_append dest: inside)

text \<open>The two consequences a caller relies on: neither value is affected by writes to the other.\<close>

lemma copy_independent:
  assumes "look h x = Some (v, A)" and "copy x h = (y, h')"
  shows "\<exists>B. look h' y = Some (v, B) \<and> A \<inter> B = {} \<and>
    (\<forall>g. length g = length h' \<and> (\<forall>i. i \<notin> A \<longrightarrow> g ! i = h' ! i) \<longrightarrow> look g y = Some (v, B)) \<and>
    (\<forall>g. length g = length h' \<and> (\<forall>i. i \<notin> B \<longrightarrow> g ! i = h' ! i) \<longrightarrow> look g x = Some (v, A))"
proof -
  from copies [OF assms] obtain new B where
    h': "h' = h @ new" and y: "look h' y = Some (v, B)" and B: "B \<subseteq> {length h..<length h'}" by blast
  have A: "A \<subseteq> {..<length h}" by (rule inside [OF assms(1)])
  then have disj: "A \<inter> B = {}" using B by force
  have x: "look h' x = Some (v, A)" using look_grown [OF assms(1)] h' by simp
  have "look g y = Some (v, B)" if "length g = length h'" "\<forall>i. i \<notin> A \<longrightarrow> g ! i = h' ! i" for g
    by (rule looks_local [OF y]) (use that disj B in auto)
  moreover have "look g x = Some (v, A)" if "length g = length h'" "\<forall>i. i \<notin> B \<longrightarrow> g ! i = h' ! i" for g
    by (rule looks_local [OF x]) (use that disj A h' in auto)
  ultimately show ?thesis using y disj by blast
qed

lemma all_inside: "look_all look h xs = Some (vs, A) \<Longrightarrow> A \<subseteq> {..<length h}"
  by (induction xs arbitrary: vs A) (fastforce split: option.splits prod.splits dest: inside)+

lemma all_local:
  "look_all look h xs = Some (vs, A) \<Longrightarrow> (\<And>i. i \<in> A \<Longrightarrow> i < length g \<and> g ! i = h ! i) \<Longrightarrow>
     look_all look g xs = Some (vs, A)"
proof (induction xs arbitrary: vs A)
  case (Cons x xs)
  from Cons.prems(1) obtain v B ws D where
    parts: "look h x = Some (v, B)" "look_all look h xs = Some (ws, D)" "vs = v # ws" "A = B \<union> D"
    by (auto split: option.splits)
  have "look g x = Some (v, B)" "look_all look g xs = Some (ws, D)"
    using Cons.prems(2) parts(4) by (auto intro: looks_local [OF parts(1)] Cons.IH [OF parts(2)])
  with parts show ?case by simp
qed simp

lemma all_nth:
  "look_all look h xs = Some (vs, A) \<Longrightarrow> i < length xs \<Longrightarrow>
     \<exists>B. look h (xs ! i) = Some (vs ! i, B) \<and> B \<subseteq> A"
proof (induction xs arbitrary: vs A i)
  case (Cons x xs)
  from Cons.prems(1) obtain v B ws D where
    "look h x = Some (v, B)" "look_all look h xs = Some (ws, D)" "vs = v # ws" "A = B \<union> D"
    by (auto split: option.splits)
  with Cons.IH [OF this(2)] Cons.prems(2) show ?case by (cases i) fastforce+
qed simp

end

lemma look_all_length: "look_all l h xs = Some (vs, A) \<Longrightarrow> length vs = length xs"
  by (induction xs arbitrary: vs A) (auto split: option.splits)

lemma look_all_snoc:
  "look_all l h xs = Some (vs, A) \<Longrightarrow> l h x = Some (v, B) \<Longrightarrow> look_all l h (xs @ [x]) = Some (vs @ [v], A \<union> B)"
  by (induction xs arbitrary: vs A) (auto split: option.splits)

lemma look_all_flat: "look_all look_flat h xs = Some (xs, {})"
  by (induction xs) (simp_all add: look_flat_def)

lemma flat_copier: "deep_copier Pair look_flat"
  by unfold_locales (auto simp: look_flat_def)

section \<open>Copies of slices\<close>

text \<open>
  The two shapes the generator emits for a field that is a slice. Both test for nil and make
  an array of zero values; the first then uses the built-in \<open>copy\<close>, the second copies the
  elements one by one.
\<close>

definition zeros :: "('a, 'c) array_kind \<Rightarrow> nat \<Rightarrow> 'c" where
  "zeros k n = as_cell k (replicate n (zero_value k))"

definition copy_flat_slice :: "('a, 'c) array_kind \<Rightarrow> ('c, slice option) copier" where
  "copy_flat_slice k s h =
     (case s of
        None \<Rightarrow> (None, h)
      | Some s \<Rightarrow>
        (let out = length h; h1 = h @ [zeros k (sl_len s)]
         in (Some \<lparr>sl_array = out, sl_offset = 0, sl_len = sl_len s\<rparr>,
             h1[out := as_cell k (map (load k h1 s) [0..<sl_len s])])))"

definition copy_element :: "('c, 'a) copier \<Rightarrow> ('a, 'c) array_kind \<Rightarrow> slice \<Rightarrow> nat \<Rightarrow> nat \<Rightarrow> 'c list \<Rightarrow> 'c list" where
  "copy_element copy k s out i h = (case copy (load k h s i) h of (x, h') \<Rightarrow> store k out i x h')"

definition copy_slice :: "('c, 'a) copier \<Rightarrow> ('a, 'c) array_kind \<Rightarrow> ('c, slice option) copier" where
  "copy_slice copy k s h =
     (case s of
        None \<Rightarrow> (None, h)
      | Some s \<Rightarrow>
        (let out = length h; h1 = h @ [zeros k (sl_len s)]
         in (Some \<lparr>sl_array = out, sl_offset = 0, sl_len = sl_len s\<rparr>,
             fold (copy_element copy k s out) [0..<sl_len s] h1)))"

lemma elements_grown:
  "elements k h s = Some xs \<Longrightarrow> length h \<le> length g \<Longrightarrow> g ! sl_array s = h ! sl_array s \<Longrightarrow> elements k g s = Some xs"
  by (auto simp: elements_def array_at_def split: option.splits if_splits)

lemma elements_length: "elements k h s = Some xs \<Longrightarrow> length xs = sl_len s \<and> sl_array s < length h"
  by (auto simp: elements_def array_at_def split: option.splits if_splits)

lemma load_nth: "elements k h s = Some xs \<Longrightarrow> i < length xs \<Longrightarrow> load k h s i = xs ! i"
  by (simp add: load_def)

lemma elements_new:
  "proper_kind k \<Longrightarrow> elements k (h @ as_cell k xs # new) \<lparr>sl_array = length h, sl_offset = 0, sl_len = length xs\<rparr> = Some xs"
  by (simp add: elements_def array_at_def proper_kind_def)

lemma store_new:
  "proper_kind k \<Longrightarrow> store k (length h) i x (h @ as_cell k xs # new) = h @ as_cell k (xs[i := x]) # new"
  by (simp add: store_def array_at_def proper_kind_def)

lemma look_slice_SomeD:
  "look_slice k l h (Some s) = Some (w, A) \<Longrightarrow>
     \<exists>xs vs B. elements k h s = Some xs \<and> look_all l h xs = Some (vs, B) \<and> w = Some vs \<and> A = insert (sl_array s) B"
  by (auto simp: look_slice_def split: option.splits)

text \<open>The slices of a type whose elements are copied deeply are copied deeply.\<close>

locale slice_copier = deep_copier copy look
    for copy :: "('c, 'a) copier" and look :: "('c, 'a, 'v) look" +
  fixes k :: "('a, 'c) array_kind"
  assumes kind: "proper_kind k"
begin

lemma slice_inside:
  assumes "look_slice k look h s = Some (w, A)"
  shows "A \<subseteq> {..<length h}"
proof (cases s)
  case (Some t)
  from look_slice_SomeD [OF assms [unfolded Some]] show ?thesis
    by (auto dest: elements_length all_inside)
qed (use assms in \<open>simp add: look_slice_def\<close>)

lemma slice_local:
  assumes "look_slice k look h s = Some (w, A)" and "\<And>i. i \<in> A \<Longrightarrow> i < length g \<and> g ! i = h ! i"
  shows "look_slice k look g s = Some (w, A)"
proof (cases s)
  case (Some t)
  from look_slice_SomeD [OF assms(1) [unfolded Some]] obtain xs vs B where
    parts: "elements k h t = Some xs" "look_all look h xs = Some (vs, B)" "w = Some vs" "A = insert (sl_array t) B" by blast
  have "elements k g t = Some xs"
    using parts(1) assms(2) [of "sl_array t"] parts(4)
    by (auto simp: elements_def array_at_def split: option.splits if_splits)
  moreover have "look_all look g xs = Some (vs, B)"
    by (rule all_local [OF parts(2)]) (use assms(2) parts(4) in auto)
  ultimately show ?thesis by (simp add: look_slice_def Some parts(3,4))
qed (use assms in \<open>simp add: look_slice_def\<close>)

text \<open>The loop: after \<open>i\<close> steps the new array holds \<open>i\<close> copies and zero values.\<close>

definition copied :: "'c list \<Rightarrow> 'v list \<Rightarrow> nat \<Rightarrow> nat \<Rightarrow> 'c list \<Rightarrow> bool" where
  "copied h vs n i g \<longleftrightarrow>
     (\<exists>ys new B. g = h @ as_cell k (ys @ replicate (n - i) (zero_value k)) # new \<and> length ys = i \<and>
        look_all look g ys = Some (take i vs, B) \<and> B \<subseteq> {Suc (length h)..<length g})"

lemma copied_step:
  assumes "elements k h s = Some xs" and "look_all look h xs = Some (vs, A)" and "i < length xs"
    and "copied h vs (length xs) i g"
  shows "copied h vs (length xs) (Suc i) (copy_element copy k s (length h) i g)"
proof -
  from assms(4) obtain ys new B where
    g: "g = h @ as_cell k (ys @ replicate (length xs - i) (zero_value k)) # new" and ys: "length ys = i"
    and look_ys: "look_all look g ys = Some (take i vs, B)" and B: "B \<subseteq> {Suc (length h)..<length g}"
    unfolding copied_def by blast
  from elements_length [OF assms(1)] have s: "sl_array s < length h" by simp
  then have "elements k g s = Some xs" by (intro elements_grown [OF assms(1)]) (simp_all add: g nth_append)
  from load_nth [OF this assms(3)] have load: "load k g s i = xs ! i" .
  from all_nth [OF assms(2,3)] obtain D where D: "look h (xs ! i) = Some (vs ! i, D)" by blast
  have "look g (xs ! i) = Some (vs ! i, D)" using look_grown [OF D] by (simp add: g)
  moreover obtain x h' where copy: "copy (xs ! i) g = (x, h')" by fastforce
  ultimately obtain new' E where h': "h' = g @ new'" and x: "look h' x = Some (vs ! i, E)"
    and E: "E \<subseteq> {length g..<length h'}" using copies by blast
  let ?zs = "replicate (length xs - Suc i) (zero_value k)"
  let ?g = "h @ as_cell k (ys @ [x] @ ?zs) # new @ new'"
  have zs: "replicate (length xs - i) (zero_value k) = zero_value k # ?zs"
    using assms(3) by (simp add: Suc_diff_Suc replicate_Suc [symmetric])
  have "copy_element copy k s (length h) i g = store k (length h) i x h'"
    by (simp add: copy_element_def load copy)
  also have "h' = h @ as_cell k (ys @ zero_value k # ?zs) # (new @ new')" by (simp add: h' g zs)
  also have "store k (length h) i x \<dots> = ?g"
    using ys by (simp add: store_new [OF kind] list_update_append)
  finally have step: "copy_element copy k s (length h) i g = ?g" .
  have len: "length ?g = length h'" by (simp add: h' g)
  have same: "?g ! j = h' ! j" if "j \<noteq> length h" for j
    using that by (auto simp: h' g nth_append nth_Cons')
  have "look_all look h' ys = Some (take i vs, B)"
    by (rule all_local [OF look_ys]) (use B in \<open>auto simp: h' nth_append\<close>)
  then have "look_all look ?g ys = Some (take i vs, B)"
    by (rule all_local) (use B len same in \<open>auto simp: h'\<close>)
  moreover have "look ?g x = Some (vs ! i, E)"
    by (rule looks_local [OF x]) (use E len same in \<open>auto simp: g\<close>)
  ultimately have "look_all look ?g (ys @ [x]) = Some (take i vs @ [vs ! i], B \<union> E)" by (rule look_all_snoc)
  moreover have "take i vs @ [vs ! i] = take (Suc i) vs"
    using assms(3) look_all_length [OF assms(2)] by (simp add: take_Suc_conv_app_nth)
  moreover have "B \<union> E \<subseteq> {Suc (length h)..<length ?g}" using B E by (force simp: len h' g)
  ultimately show ?thesis
    unfolding copied_def step by (intro exI [of _ "ys @ [x]"] exI [of _ "new @ new'"] exI [of _ "B \<union> E"]) (simp add: ys)
qed

lemma copied_loop:
  assumes "elements k h s = Some xs" and "look_all look h xs = Some (vs, A)" and "i \<le> length xs"
  shows "copied h vs (length xs) i (fold (copy_element copy k s (length h)) [0..<i] (h @ [zeros k (length xs)]))"
  using assms(3)
proof (induction i)
  case 0
  show ?case by (simp add: copied_def zeros_def)
next
  case (Suc i)
  then show ?case using copied_step [OF assms(1,2)] by simp
qed

lemma slice_copies:
  assumes "look_slice k look h s = Some (w, A)" and "copy_slice copy k s h = (t, h')"
  shows "\<exists>new B. h' = h @ new \<and> look_slice k look h' t = Some (w, B) \<and> B \<subseteq> {length h..<length h'}"
proof (cases s)
  case None
  with assms show ?thesis by (simp add: look_slice_def copy_slice_def)
next
  case (Some u)
  from look_slice_SomeD [OF assms(1) [unfolded Some]] obtain xs vs D where
    parts: "elements k h u = Some xs" "look_all look h xs = Some (vs, D)" "w = Some vs" by blast
  have len: "sl_len u = length xs" using elements_length [OF parts(1)] by simp
  from assms(2) have t: "t = Some \<lparr>sl_array = length h, sl_offset = 0, sl_len = length xs\<rparr>"
    and h': "h' = fold (copy_element copy k u (length h)) [0..<length xs] (h @ [zeros k (length xs)])"
    by (simp_all add: Some copy_slice_def Let_def len)
  from copied_loop [OF parts(1,2) order_refl] obtain ys new B where
    g: "h' = h @ as_cell k ys # new" "length ys = length xs" "look_all look h' ys = Some (vs, B)"
      "B \<subseteq> {Suc (length h)..<length h'}"
    unfolding copied_def h' [symmetric] using look_all_length [OF parts(2)] by auto
  have "elements k h' \<lparr>sl_array = length h, sl_offset = 0, sl_len = length xs\<rparr> = Some ys"
    using elements_new [OF kind, of h ys new] g(1,2) by simp
  with g(3) have "look_slice k look h' t = Some (w, insert (length h) B)"
    by (simp add: look_slice_def t parts(3))
  moreover have "insert (length h) B \<subseteq> {length h..<length h'}" using g(1,4) by auto
  ultimately show ?thesis using g(1) by blast
qed

end

sublocale slice_copier \<subseteq> slices: deep_copier "copy_slice copy k" "look_slice k look"
  by unfold_locales (fact slice_copies, fact slice_inside, rule slice_local)

context slice_copier
begin

lemma slice_deep: "deep_copier (copy_slice copy k) (look_slice k look)"
  by (rule slices.deep_copier_axioms)

end

lemma copier_slice:
  "deep_copier copy l \<Longrightarrow> proper_kind k \<Longrightarrow> deep_copier (copy_slice copy k) (look_slice k l)"
  by (rule slice_copier.slice_deep [OF slice_copier.intro [OF _ slice_copier_axioms.intro]])

lemma flat_slice_copier:
  assumes "proper_kind k"
  shows "deep_copier (copy_flat_slice k) (look_slice k look_flat)"
proof -
  have flat: "slice_copier Pair look_flat k"
    by (intro slice_copier.intro flat_copier slice_copier_axioms.intro assms)
  show ?thesis
  proof
    fix h s w A t h'
    assume look: "look_slice k look_flat h s = Some (w, A)" and copy: "copy_flat_slice k s h = (t, h')"
    show "\<exists>new B. h' = h @ new \<and> look_slice k look_flat h' t = Some (w, B) \<and> B \<subseteq> {length h..<length h'}"
    proof (cases s)
      case (Some u)
      from look_slice_SomeD [OF look [unfolded Some]] obtain xs where
        xs: "elements k h u = Some xs" "w = Some xs" by (auto simp: look_all_flat)
      from elements_length [OF xs(1)] have u: "sl_len u = length xs" "sl_array u < length h" by auto
      then have "elements k (h @ [zeros k (length xs)]) u = Some xs"
        by (intro elements_grown [OF xs(1)]) (simp_all add: nth_append)
      from load_nth [OF this] have "map (load k (h @ [zeros k (length xs)]) u) [0..<length xs] = xs"
        by (simp add: map_upt_eqI)
      with copy have h': "h' = h @ [as_cell k xs]"
        and t: "t = Some \<lparr>sl_array = length h, sl_offset = 0, sl_len = length xs\<rparr>"
        by (auto simp: Some copy_flat_slice_def u(1) Let_def)
      have "look_slice k look_flat h' t = Some (w, {length h})"
        using elements_new [OF assms, of h xs "[]"] by (simp add: look_slice_def t h' look_all_flat xs(2))
      then show ?thesis using h' by auto
    qed (use look copy in \<open>simp add: copy_flat_slice_def look_slice_def\<close>)
  qed (fact slice_copier.slice_inside [OF flat], rule slice_copier.slice_local [OF flat])
qed

section \<open>Copies of structs and pointers\<close>

definition copy_pair :: "('c, 'a) copier \<Rightarrow> ('c, 'b) copier \<Rightarrow> ('c, 'a \<times> 'b) copier" where
  "copy_pair c d p h =
     (case c (fst p) h of (x, h1) \<Rightarrow> case d (snd p) h1 of (y, h2) \<Rightarrow> ((x, y), h2))"

lemma look_pair_SomeD:
  "look_pair l m h p = Some (vw, A) \<Longrightarrow>
     \<exists>v w B D. l h (fst p) = Some (v, B) \<and> m h (snd p) = Some (w, D) \<and> vw = (v, w) \<and> A = B \<union> D"
  by (auto simp: look_pair_def split: option.splits)

text \<open>Two fields in sequence.\<close>

locale pair_copier = first: deep_copier c l + second: deep_copier d m
    for c :: "('c, 'a) copier" and l :: "('c, 'a, 'v) look" and d :: "('c, 'b) copier" and m :: "('c, 'b, 'w) look"
begin

lemma pair_copies:
  assumes "look_pair l m h p = Some (vw, A)" and "copy_pair c d p h = (q, h')"
  shows "\<exists>new B. h' = h @ new \<and> look_pair l m h' q = Some (vw, B) \<and> B \<subseteq> {length h..<length h'}"
proof -
  from look_pair_SomeD [OF assms(1)] obtain v w B D where
    parts: "l h (fst p) = Some (v, B)" "m h (snd p) = Some (w, D)" "vw = (v, w)" by blast
  obtain x h1 where x: "c (fst p) h = (x, h1)" by fastforce
  obtain y h2 where y: "d (snd p) h1 = (y, h2)" by fastforce
  from first.copies [OF parts(1) x] obtain new1 B' where
    1: "h1 = h @ new1" "l h1 x = Some (v, B')" "B' \<subseteq> {length h..<length h1}" by blast
  from second.copies [OF second.look_grown [OF parts(2), of new1, folded 1(1)] y] obtain new2 D' where
    2: "h2 = h1 @ new2" "m h2 y = Some (w, D')" "D' \<subseteq> {length h1..<length h2}" by blast
  have q: "q = (x, y)" "h' = h2" using assms(2) by (auto simp: copy_pair_def x y)
  have "look_pair l m h' q = Some (vw, B' \<union> D')"
    using first.look_grown [OF 1(2), of new2, folded 2(1)] 2(2) by (simp add: look_pair_def q parts(3))
  moreover have "B' \<union> D' \<subseteq> {length h..<length h'}" using 1 2 q(2) by force
  ultimately show ?thesis using 1(1) 2(1) q(2) by auto
qed

end

sublocale pair_copier \<subseteq> pairs: deep_copier "copy_pair c d" "look_pair l m"
proof
  fix h p vw A
  assume "look_pair l m h p = Some (vw, A)"
  from look_pair_SomeD [OF this] obtain v w B D where
    parts: "l h (fst p) = Some (v, B)" "m h (snd p) = Some (w, D)" "vw = (v, w)" "A = B \<union> D" by blast
  then show "A \<subseteq> {..<length h}" using first.inside second.inside by blast
  fix g
  assume "\<And>i. i \<in> A \<Longrightarrow> i < length g \<and> g ! i = h ! i"
  with parts(4) have "l g (fst p) = Some (v, B)" "m g (snd p) = Some (w, D)"
    by (auto intro: first.looks_local [OF parts(1)] second.looks_local [OF parts(2)])
  with parts show "look_pair l m g p = Some (vw, A)" by (simp add: look_pair_def)
qed (rule pair_copies)

context pair_copier
begin

lemma pair_deep: "deep_copier (copy_pair c d) (look_pair l m)"
  by (rule pairs.deep_copier_axioms)

end

lemma copier_pair:
  "deep_copier c l \<Longrightarrow> deep_copier d m \<Longrightarrow> deep_copier (copy_pair c d) (look_pair l m)"
  by (rule pair_copier.pair_deep [OF pair_copier.intro])

text \<open>
  A struct is copied as its fields are: \<open>to\<close> takes it apart and \<open>build\<close> puts it together, and
  what it denotes is put together by \<open>f\<close>.
\<close>

lemma copier_struct:
  assumes "deep_copier c l"
    and copying: "\<And>x h. copy x h = (case c (to x) h of (y, h') \<Rightarrow> (build y, h'))"
    and looks: "\<And>x h. look h x = map_option (\<lambda>(v, A). (f v, A)) (l h (to x))"
    and apart: "\<And>x h y h'. c (to x) h = (y, h') \<Longrightarrow> to (build y) = y"
  shows "deep_copier copy look"
proof
  fix h x w A y h'
  assume "look h x = Some (w, A)" and "copy x h = (y, h')"
  then obtain v z where "l h (to x) = Some (v, A)" "w = f v" "c (to x) h = (z, h')" "y = build z"
    by (auto simp: looks copying split: prod.splits)
  with deep_copier.copies [OF assms(1) this(1,3)] apart [OF this(3)]
  show "\<exists>new B. h' = h @ new \<and> look h' y = Some (w, B) \<and> B \<subseteq> {length h..<length h'}"
    by (auto simp: looks)
next
  fix h x w A
  assume "look h x = Some (w, A)"
  then show "A \<subseteq> {..<length h}" by (auto simp: looks dest: deep_copier.inside [OF assms(1)])
next
  fix h x w A g
  assume "look h x = Some (w, A)" and "\<And>i. i \<in> A \<Longrightarrow> i < length g \<and> g ! i = h ! i"
  then obtain v where "l h (to x) = Some (v, A)" "w = f v" by (auto simp: looks)
  moreover from this(1) have "l g (to x) = Some (v, A)"
    by (rule deep_copier.looks_local [OF assms(1)]) fact
  ultimately show "look g x = Some (w, A)" by (simp add: looks)
qed

text \<open>\<open>DeepCopy\<close> of a pointer: nil stays nil, else a new object is filled by \<open>DeepCopyInto\<close>.\<close>

definition pointed :: "nat option \<Rightarrow> slice option" where
  "pointed p = map_option (\<lambda>a. \<lparr>sl_array = a, sl_offset = 0, sl_len = 1\<rparr>) p"

definition deep_copy :: "('c, 'a) copier \<Rightarrow> ('a, 'c) array_kind \<Rightarrow> ('c, nat option) copier" where
  "deep_copy copy k p h =
     (case p of
        None \<Rightarrow> (None, h)
      | Some a \<Rightarrow>
        (let out = length h; h1 = h @ [zeros k 1]
         in (Some out, copy_element copy k \<lparr>sl_array = a, sl_offset = 0, sl_len = 1\<rparr> out 0 h1)))"

definition look_pointer :: "('a, 'c) array_kind \<Rightarrow> ('c, 'a, 'v) look \<Rightarrow> ('c, nat option, 'v option) look" where
  "look_pointer k l h p = map_option (\<lambda>(v, A). (map_option hd v, A)) (look_slice k l h (pointed p))"

lemma pointer_copier:
  assumes "deep_copier copy l" and "proper_kind k"
  shows "deep_copier (deep_copy copy k) (look_pointer k l)"
proof (rule copier_struct [where to = pointed and build = "map_option sl_array" and f = "map_option hd"])
  show "deep_copier (copy_slice copy k) (look_slice k l)"
    by (rule copier_slice [OF assms])
qed (auto simp: deep_copy_def copy_slice_def pointed_def look_pointer_def Let_def split: option.splits)

end
