(* ===== verification/P2_Copies.thy ===== *)
theory P2_Copies
  imports P2_DeepCopy P2_Types
begin

text \<open>
  The deep copies of the API types, field by field as in
  \<^verbatim>\<open>api/v1alpha1/zz_generated.deepcopy.go\<close>. The structs here are those of
  \<^verbatim>\<open>api/v1alpha1/p2codeschedulingmanifest_types.go\<close> as they lie in memory, with slice
  headers. The metadata, raw extensions and conditions are structs of the Kubernetes
  packages: their type is \<open>'x\<close> and their deep copies are parameters.
\<close>

section \<open>Structs and cells\<close>

record workload_annotation_struct =
  ws_name :: string
  ws_annotations :: "slice option"

record spec_struct =
  ss_global :: "slice option"
  ss_workload :: "slice option"
  ss_manifests :: "slice option"

record status_struct =
  st_conditions :: "slice option"
  st_decisions :: "slice option"
  st_state :: string

type_synonym type_meta = "string \<times> string"

record 'x manifest_struct =
  ms_type_meta :: type_meta
  ms_object_meta :: 'x
  ms_spec :: spec_struct
  ms_status :: status_struct

record 'x list_struct =
  ls_type_meta :: type_meta
  ls_list_meta :: 'x
  ls_items :: "slice option"

datatype 'x cell =
    StringCell "string list"
  | AnnotationCell "workload_annotation_struct list"
  | DecisionCell "scheduling_decision list"
  | ExternalCell "'x list"
  | SpecCell "spec_struct list"
  | StatusCell "status_struct list"
  | ManifestCell "'x manifest_struct list"
  | ListCell "'x list_struct list"

record 'x copy_lib =
  copy_object_meta :: "('x cell, 'x) copier"
  copy_list_meta :: "('x cell, 'x) copier"
  copy_raw_extension :: "('x cell, 'x) copier"
  copy_condition :: "('x cell, 'x) copier"
  zero_external :: 'x

definition string_kind :: "(string, 'x cell) array_kind" where
  "string_kind = \<lparr>as_cell = StringCell, of_cell = (\<lambda>c. case c of StringCell xs \<Rightarrow> Some xs | _ \<Rightarrow> None),
     zero_value = ''''\<rparr>"

definition annotation_kind :: "(workload_annotation_struct, 'x cell) array_kind" where
  "annotation_kind = \<lparr>as_cell = AnnotationCell, of_cell = (\<lambda>c. case c of AnnotationCell xs \<Rightarrow> Some xs | _ \<Rightarrow> None),
     zero_value = \<lparr>ws_name = '''', ws_annotations = None\<rparr>\<rparr>"

definition decision_kind :: "(scheduling_decision, 'x cell) array_kind" where
  "decision_kind = \<lparr>as_cell = DecisionCell, of_cell = (\<lambda>c. case c of DecisionCell xs \<Rightarrow> Some xs | _ \<Rightarrow> None),
     zero_value = \<lparr>workload_name = '''', cluster_selected = ''''\<rparr>\<rparr>"

definition external_kind :: "'x copy_lib \<Rightarrow> ('x, 'x cell) array_kind" where
  "external_kind D = \<lparr>as_cell = ExternalCell, of_cell = (\<lambda>c. case c of ExternalCell xs \<Rightarrow> Some xs | _ \<Rightarrow> None),
     zero_value = zero_external D\<rparr>"

definition zero_spec :: spec_struct where
  "zero_spec = \<lparr>ss_global = None, ss_workload = None, ss_manifests = None\<rparr>"

definition zero_status :: status_struct where
  "zero_status = \<lparr>st_conditions = None, st_decisions = None, st_state = ''''\<rparr>"

definition zero_manifest :: "'x copy_lib \<Rightarrow> 'x manifest_struct" where
  "zero_manifest D = \<lparr>ms_type_meta = ('''', ''''), ms_object_meta = zero_external D, ms_spec = zero_spec,
     ms_status = zero_status\<rparr>"

definition spec_kind :: "(spec_struct, 'x cell) array_kind" where
  "spec_kind = \<lparr>as_cell = SpecCell, of_cell = (\<lambda>c. case c of SpecCell xs \<Rightarrow> Some xs | _ \<Rightarrow> None),
     zero_value = zero_spec\<rparr>"

definition status_kind :: "(status_struct, 'x cell) array_kind" where
  "status_kind = \<lparr>as_cell = StatusCell, of_cell = (\<lambda>c. case c of StatusCell xs \<Rightarrow> Some xs | _ \<Rightarrow> None),
     zero_value = zero_status\<rparr>"

definition manifest_kind :: "'x copy_lib \<Rightarrow> ('x manifest_struct, 'x cell) array_kind" where
  "manifest_kind D = \<lparr>as_cell = ManifestCell, of_cell = (\<lambda>c. case c of ManifestCell xs \<Rightarrow> Some xs | _ \<Rightarrow> None),
     zero_value = zero_manifest D\<rparr>"

definition list_kind :: "'x copy_lib \<Rightarrow> ('x list_struct, 'x cell) array_kind" where
  "list_kind D = \<lparr>as_cell = ListCell, of_cell = (\<lambda>c. case c of ListCell xs \<Rightarrow> Some xs | _ \<Rightarrow> None),
     zero_value = \<lparr>ls_type_meta = ('''', ''''), ls_list_meta = zero_external D, ls_items = None\<rparr>\<rparr>"

lemmas kind_defs = string_kind_def annotation_kind_def decision_kind_def external_kind_def spec_kind_def
  status_kind_def manifest_kind_def list_kind_def

lemma proper_kinds [simp]:
  "proper_kind string_kind" "proper_kind annotation_kind" "proper_kind decision_kind"
  "proper_kind (external_kind D)" "proper_kind spec_kind" "proper_kind status_kind"
  "proper_kind (manifest_kind D)" "proper_kind (list_kind D)"
  by (simp_all add: proper_kind_def kind_defs)

section \<open>\<open>DeepCopyInto\<close>\<close>

text \<open>
  \<open>*out = *in\<close> copies the fields; those that hold slices or external structs are then
  overwritten. The result of each function is the struct \<open>out\<close> points to.
\<close>

definition copy_into_decision :: "('x cell, scheduling_decision) copier" where
  "copy_into_decision d h = (d, h)"

definition copy_into_annotation :: "('x cell, workload_annotation_struct) copier" where
  "copy_into_annotation w h =
     (case copy_flat_slice string_kind (ws_annotations w) h of (as, h1) \<Rightarrow> (w\<lparr>ws_annotations := as\<rparr>, h1))"

definition copy_into_spec :: "'x copy_lib \<Rightarrow> ('x cell, spec_struct) copier" where
  "copy_into_spec D sp h =
     (case copy_flat_slice string_kind (ss_global sp) h of (gs, h1) \<Rightarrow>
      case copy_slice copy_into_annotation annotation_kind (ss_workload sp) h1 of (ws, h2) \<Rightarrow>
      case copy_slice (copy_raw_extension D) (external_kind D) (ss_manifests sp) h2 of (ms, h3) \<Rightarrow>
        (sp\<lparr>ss_global := gs, ss_workload := ws, ss_manifests := ms\<rparr>, h3))"

definition copy_into_status :: "'x copy_lib \<Rightarrow> ('x cell, status_struct) copier" where
  "copy_into_status D st h =
     (case copy_slice (copy_condition D) (external_kind D) (st_conditions st) h of (cs, h1) \<Rightarrow>
      case copy_flat_slice decision_kind (st_decisions st) h1 of (ds, h2) \<Rightarrow>
        (st\<lparr>st_conditions := cs, st_decisions := ds\<rparr>, h2))"

definition copy_into_manifest :: "'x copy_lib \<Rightarrow> ('x cell, 'x manifest_struct) copier" where
  "copy_into_manifest D m h =
     (case copy_object_meta D (ms_object_meta m) h of (om, h1) \<Rightarrow>
      case copy_into_spec D (ms_spec m) h1 of (sp, h2) \<Rightarrow>
      case copy_into_status D (ms_status m) h2 of (st, h3) \<Rightarrow>
        (m\<lparr>ms_object_meta := om, ms_spec := sp, ms_status := st\<rparr>, h3))"

definition copy_into_list :: "'x copy_lib \<Rightarrow> ('x cell, 'x list_struct) copier" where
  "copy_into_list D l h =
     (case copy_list_meta D (ls_list_meta l) h of (lm, h1) \<Rightarrow>
      case copy_slice (copy_into_manifest D) (manifest_kind D) (ls_items l) h1 of (is, h2) \<Rightarrow>
        (l\<lparr>ls_list_meta := lm, ls_items := is\<rparr>, h2))"

section \<open>\<open>DeepCopy\<close> and \<open>DeepCopyObject\<close>\<close>

definition deep_copy_decision :: "('x cell, nat option) copier" where
  "deep_copy_decision = deep_copy copy_into_decision decision_kind"

definition deep_copy_annotation :: "('x cell, nat option) copier" where
  "deep_copy_annotation = deep_copy copy_into_annotation annotation_kind"

definition deep_copy_spec :: "'x copy_lib \<Rightarrow> ('x cell, nat option) copier" where
  "deep_copy_spec D = deep_copy (copy_into_spec D) spec_kind"

definition deep_copy_status :: "'x copy_lib \<Rightarrow> ('x cell, nat option) copier" where
  "deep_copy_status D = deep_copy (copy_into_status D) status_kind"

definition deep_copy_manifest :: "'x copy_lib \<Rightarrow> ('x cell, nat option) copier" where
  "deep_copy_manifest D = deep_copy (copy_into_manifest D) (manifest_kind D)"

definition deep_copy_list :: "'x copy_lib \<Rightarrow> ('x cell, nat option) copier" where
  "deep_copy_list D = deep_copy (copy_into_list D) (list_kind D)"

text \<open>A nil pointer becomes a nil interface, not an interface that holds a nil pointer.\<close>

datatype runtime_object = NilObject | ManifestObject nat | ListObject nat

definition deep_copy_object_manifest :: "'x copy_lib \<Rightarrow> nat option \<Rightarrow> 'x cell list \<Rightarrow> runtime_object \<times> 'x cell list" where
  "deep_copy_object_manifest D p h =
     (case deep_copy_manifest D p h of (None, h') \<Rightarrow> (NilObject, h') | (Some c, h') \<Rightarrow> (ManifestObject c, h'))"

definition deep_copy_object_list :: "'x copy_lib \<Rightarrow> nat option \<Rightarrow> 'x cell list \<Rightarrow> runtime_object \<times> 'x cell list" where
  "deep_copy_object_list D p h =
     (case deep_copy_list D p h of (None, h') \<Rightarrow> (NilObject, h') | (Some c, h') \<Rightarrow> (ListObject c, h'))"

section \<open>What the structs denote\<close>

record ('x, 'v) external_looks =
  lo_object_meta :: "('x cell, 'x, 'v) look"
  lo_list_meta :: "('x cell, 'x, 'v) look"
  lo_raw_extension :: "('x cell, 'x, 'v) look"
  lo_condition :: "('x cell, 'x, 'v) look"

definition look_annotation ::
    "('x cell, workload_annotation_struct, string \<times> string list option) look" where
  "look_annotation h w =
     look_pair look_flat (look_slice string_kind look_flat) h (ws_name w, ws_annotations w)"

definition look_spec ::
    "'x copy_lib \<Rightarrow> ('x, 'v) external_looks \<Rightarrow> ('x cell, spec_struct,
       string list option \<times> (string \<times> string list option) list option \<times> 'v list option) look" where
  "look_spec D E h sp =
     look_pair (look_slice string_kind look_flat) (look_pair (look_slice annotation_kind look_annotation)
       (look_slice (external_kind D) (lo_raw_extension E))) h (ss_global sp, ss_workload sp, ss_manifests sp)"

definition look_status ::
    "'x copy_lib \<Rightarrow> ('x, 'v) external_looks \<Rightarrow> ('x cell, status_struct,
       'v list option \<times> scheduling_decision list option \<times> string) look" where
  "look_status D E h st =
     look_pair (look_slice (external_kind D) (lo_condition E)) (look_pair (look_slice decision_kind look_flat)
       look_flat) h (st_conditions st, st_decisions st, st_state st)"

definition look_manifest where
  "look_manifest D E h m =
     look_pair look_flat (look_pair (lo_object_meta E) (look_pair (look_spec D E) (look_status D E))) h
       (ms_type_meta m, ms_object_meta m, ms_spec m, ms_status m)"

definition look_list where
  "look_list D E h l =
     look_pair look_flat (look_pair (lo_list_meta E) (look_slice (manifest_kind D) (look_manifest D E))) h
       (ls_type_meta l, ls_list_meta l, ls_items l)"

text \<open>The contract of the external copies.\<close>

definition copies_externals :: "'x copy_lib \<Rightarrow> ('x, 'v) external_looks \<Rightarrow> bool" where
  "copies_externals D E \<longleftrightarrow>
     deep_copier (copy_object_meta D) (lo_object_meta E) \<and> deep_copier (copy_list_meta D) (lo_list_meta E) \<and>
     deep_copier (copy_raw_extension D) (lo_raw_extension E) \<and> deep_copier (copy_condition D) (lo_condition E)"

section \<open>The copies are deep\<close>

interpretation annotation_fields: pair_copier Pair look_flat "copy_flat_slice string_kind" "look_slice string_kind look_flat"
  by (intro pair_copier.intro flat_copier flat_slice_copier) simp

interpretation annotation: deep_copier copy_into_annotation look_annotation
  by (rule copier_struct [OF annotation_fields.pair_deep, where to = "\<lambda>w. (ws_name w, ws_annotations w)"
        and build = "\<lambda>(n, as). \<lparr>ws_name = n, ws_annotations = as\<rparr>" and f = "\<lambda>v. v"])
     (auto simp: copy_into_annotation_def copy_pair_def look_annotation_def option.map_id
       split: prod.splits)

interpretation annotations: slice_copier copy_into_annotation look_annotation annotation_kind
  by unfold_locales simp

interpretation decision: deep_copier copy_into_decision look_flat
  by unfold_locales (auto simp: copy_into_decision_def look_flat_def)

lemmas into_defs = copy_into_spec_def copy_into_status_def copy_into_manifest_def copy_into_list_def copy_pair_def

lemmas struct_looks = look_spec_def look_status_def look_manifest_def look_list_def option.map_id

lemma spec_copier:
  assumes "copies_externals D E"
  shows "deep_copier (copy_into_spec D) (look_spec D E)"
proof (rule copier_struct [where to = "\<lambda>s. (ss_global s, ss_workload s, ss_manifests s)" and f = "\<lambda>v. v"
      and build = "\<lambda>(gs, ws, ms). \<lparr>ss_global = gs, ss_workload = ws, ss_manifests = ms\<rparr>"])
  have "deep_copier (copy_raw_extension D) (lo_raw_extension E)" using assms by (simp add: copies_externals_def)
  then show "deep_copier (copy_pair (copy_flat_slice string_kind) (copy_pair (copy_slice copy_into_annotation annotation_kind)
      (copy_slice (copy_raw_extension D) (external_kind D))))
    (look_pair (look_slice string_kind look_flat) (look_pair (look_slice annotation_kind look_annotation)
       (look_slice (external_kind D) (lo_raw_extension E))))"
    by (intro copier_pair flat_slice_copier copier_slice annotation.deep_copier_axioms) simp_all
qed (auto simp: into_defs struct_looks split: prod.splits)

lemma status_copier:
  assumes "copies_externals D E"
  shows "deep_copier (copy_into_status D) (look_status D E)"
proof (rule copier_struct [where to = "\<lambda>s. (st_conditions s, st_decisions s, st_state s)" and f = "\<lambda>v. v"
      and build = "\<lambda>(cs, ds, n). \<lparr>st_conditions = cs, st_decisions = ds, st_state = n\<rparr>"])
  have "deep_copier (copy_condition D) (lo_condition E)" using assms by (simp add: copies_externals_def)
  then show "deep_copier (copy_pair (copy_slice (copy_condition D) (external_kind D))
      (copy_pair (copy_flat_slice decision_kind) Pair))
    (look_pair (look_slice (external_kind D) (lo_condition E)) (look_pair (look_slice decision_kind look_flat) look_flat))"
    by (intro copier_pair flat_slice_copier copier_slice flat_copier) simp_all
qed (auto simp: into_defs struct_looks split: prod.splits)

lemma manifest_copier:
  assumes "copies_externals D E"
  shows "deep_copier (copy_into_manifest D) (look_manifest D E)"
proof (rule copier_struct [where to = "\<lambda>m. (ms_type_meta m, ms_object_meta m, ms_spec m, ms_status m)"
      and f = "\<lambda>v. v"
      and build = "\<lambda>(t, om, sp, st). \<lparr>ms_type_meta = t, ms_object_meta = om, ms_spec = sp, ms_status = st\<rparr>"])
  have "deep_copier (copy_object_meta D) (lo_object_meta E)" using assms by (simp add: copies_externals_def)
  then show "deep_copier (copy_pair Pair (copy_pair (copy_object_meta D) (copy_pair (copy_into_spec D) (copy_into_status D))))
    (look_pair look_flat (look_pair (lo_object_meta E) (look_pair (look_spec D E) (look_status D E))))"
    by (intro copier_pair flat_copier spec_copier status_copier assms)
qed (auto simp: into_defs struct_looks split: prod.splits)

lemma list_copier:
  assumes "copies_externals D E"
  shows "deep_copier (copy_into_list D) (look_list D E)"
proof (rule copier_struct [where to = "\<lambda>l. (ls_type_meta l, ls_list_meta l, ls_items l)" and f = "\<lambda>v. v"
      and build = "\<lambda>(t, lm, is). \<lparr>ls_type_meta = t, ls_list_meta = lm, ls_items = is\<rparr>"])
  have "deep_copier (copy_list_meta D) (lo_list_meta E)" using assms by (simp add: copies_externals_def)
  then show "deep_copier (copy_pair Pair (copy_pair (copy_list_meta D) (copy_slice (copy_into_manifest D) (manifest_kind D))))
    (look_pair look_flat (look_pair (lo_list_meta E) (look_slice (manifest_kind D) (look_manifest D E))))"
    by (intro copier_pair flat_copier copier_slice manifest_copier assms) simp_all
qed (auto simp: into_defs struct_looks split: prod.splits)

lemma deep_copy_manifest_deep:
  "copies_externals D E \<Longrightarrow> deep_copier (deep_copy_manifest D) (look_pointer (manifest_kind D) (look_manifest D E))"
  unfolding deep_copy_manifest_def by (intro pointer_copier manifest_copier) simp_all

lemma deep_copy_list_deep:
  "copies_externals D E \<Longrightarrow> deep_copier (deep_copy_list D) (look_pointer (list_kind D) (look_list D E))"
  unfolding deep_copy_list_def by (intro pointer_copier list_copier) simp_all

end
