(* ===== verification/P2_Main.thy ===== *)
theory P2_Main
  imports P2_Status
begin

text \<open>
  The process: \<^verbatim>\<open>cmd/main.go\<close> (the scheme, the command line, the manager and its start),
  \<^verbatim>\<open>api/v1alpha1/groupversion_info.go\<close>, and the registration of the controller
  (\<open>SetupWithManager\<close>). The controller runtime is a parameter (\<open>platform\<close>); the functions
  here record what is asked of it, in order, in a trace. An exit of the process is an error
  whose value is the exit code. Logging other than the warning about the missing API, and
  the options of the logger, change nothing the program does and are left out.
\<close>

section \<open>The API group and the scheme\<close>

record group_version =
  gv_group :: string
  gv_version :: string

definition scheduling_group_version :: group_version where
  "scheduling_group_version = \<lparr>gv_group = ''scheduling.p2code.eu'', gv_version = ''v1alpha1''\<rparr>"

text \<open>\<open>SchemeBuilder\<close> and what the \<open>init\<close> function of the types registers with it.\<close>

record scheme_builder =
  sb_group_version :: group_version
  sb_objects :: "string list"

definition new_scheme_builder :: scheme_builder where
  "new_scheme_builder = \<lparr>sb_group_version = scheduling_group_version, sb_objects = []\<rparr>"

definition register_types :: "scheme_builder \<Rightarrow> scheme_builder" where
  "register_types b = b\<lparr>sb_objects := sb_objects b @ [''P2CodeSchedulingManifest'', ''P2CodeSchedulingManifestList'']\<rparr>"

datatype api_package =
    ClientGo | ClusterV1 | ClusterV1beta1 | ClusterV1beta2 | WorkV1
  | Scheduling scheme_builder
  | NetworkOperator

definition api_packages :: "api_package list" where
  "api_packages = [ClientGo, ClusterV1, ClusterV1beta1, ClusterV1beta2, WorkV1,
     Scheduling (register_types new_scheme_builder), NetworkOperator]"

section \<open>The manager and the controller\<close>

text \<open>The part of \<open>tls.Config\<close> the program writes, and its options (functions that change one).\<close>

record tls_config =
  next_protos :: "string list"

record metrics_options =
  bind_address :: string
  secure_serving :: bool
  metrics_tls :: "(tls_config \<Rightarrow> tls_config) list"
  authenticated :: bool

record 's manager_options =
  mo_scheme :: 's
  mo_metrics :: metrics_options
  mo_webhook_tls :: "(tls_config \<Rightarrow> tls_config) list"
  mo_probe_address :: string
  mo_leader_election :: bool
  mo_leader_election_id :: string

datatype event_filter = GenerationChangedPredicate

record controller_spec =
  ctl_for :: string
  ctl_owns :: "string list"
  ctl_filter :: event_filter

datatype 's boot_event =
    NewManager "'s manager_options"
  | CompleteController controller_spec
  | AddHealthz string
  | AddReadyz string
  | StartManager

text \<open>
  The packages the process calls: \<open>AddToScheme\<close> of each API, the flags other packages
  define (whether one is boolean, and which values it takes), \<open>GetConfigOrDie\<close> (which exits
  when it finds no configuration) and the operations of the manager.
\<close>

record ('s, 'w) platform =
  pf_new_scheme :: 's
  pf_add_to_scheme :: "api_package \<Rightarrow> 's \<Rightarrow> string + 's"
  pf_other_flag :: "string \<Rightarrow> (bool \<times> (string \<Rightarrow> bool)) option"
  pf_get_config :: "'w \<Rightarrow> bool \<times> 'w"
  pf_perform :: "'s boot_event \<Rightarrow> 'w \<Rightarrow> (string + unit) \<times> 'w"

text \<open>\<open>utilruntime.Must\<close> panics on an error.\<close>

definition init_scheme :: "('s, 'w) platform \<Rightarrow> (nat, 's) go" where
  "init_scheme P =
     fold_go (\<lambda>pkg s. case pf_add_to_scheme P pkg s of Inl e \<Rightarrow> Panic | Inr s' \<Rightarrow> Ok s')
       api_packages (pf_new_scheme P)"

section \<open>The command line\<close>

record flags =
  metrics_addr :: string
  probe_addr :: string
  enable_leader_election :: bool
  secure_metrics :: bool
  enable_http2 :: bool

definition default_flags :: flags where
  "default_flags = \<lparr>metrics_addr = ''0'', probe_addr = '':8081'', enable_leader_election = False,
     secure_metrics = True, enable_http2 = False\<rparr>"

text \<open>\<open>strconv.ParseBool\<close>.\<close>

definition parse_bool :: "string \<Rightarrow> bool option" where
  "parse_bool s =
     (if s \<in> set [''1'', ''t'', ''T'', ''true'', ''TRUE'', ''True''] then Some True
      else if s \<in> set [''0'', ''f'', ''F'', ''false'', ''FALSE'', ''False''] then Some False
      else None)"

text \<open>Is there a flag of that name, and is it boolean?\<close>

definition flag_is_bool :: "('s, 'w) platform \<Rightarrow> string \<Rightarrow> bool option" where
  "flag_is_bool P name =
     (if name \<in> set [''metrics-bind-address'', ''health-probe-bind-address''] then Some False
      else if name \<in> set [''leader-elect'', ''metrics-secure'', ''enable-http2''] then Some True
      else map_option fst (pf_other_flag P name))"

definition set_flag :: "('s, 'w) platform \<Rightarrow> string \<Rightarrow> string \<Rightarrow> flags \<Rightarrow> flags option" where
  "set_flag P name v fl =
     (if name = ''metrics-bind-address'' then Some (fl\<lparr>metrics_addr := v\<rparr>)
      else if name = ''health-probe-bind-address'' then Some (fl\<lparr>probe_addr := v\<rparr>)
      else if name = ''leader-elect'' then map_option (\<lambda>b. fl\<lparr>enable_leader_election := b\<rparr>) (parse_bool v)
      else if name = ''metrics-secure'' then map_option (\<lambda>b. fl\<lparr>secure_metrics := b\<rparr>) (parse_bool v)
      else if name = ''enable-http2'' then map_option (\<lambda>b. fl\<lparr>enable_http2 := b\<rparr>) (parse_bool v)
      else case pf_other_flag P name of
          None \<Rightarrow> None
        | Some (_, accepts) \<Rightarrow> if accepts v then Some fl else None)"

text \<open>The text of an argument after its dashes, and its split at the first equals sign.\<close>

definition flag_text :: "string \<Rightarrow> string" where
  "flag_text s = drop (if take 2 s = ''--'' then 2 else 1) s"

definition split_flag :: "string \<Rightarrow> string \<times> string option" where
  "split_flag t =
     (if CHR ''='' \<in> set t then (takeWhile (\<lambda>c. c \<noteq> CHR ''='') t, Some (tl (dropWhile (\<lambda>c. c \<noteq> CHR ''='') t)))
      else (t, None))"

datatype parsed = Parsed flags | Exit nat

text \<open>
  \<open>flag.Parse\<close>, one argument: a single or double dash, a value after an equals sign or, for a
  flag that is not boolean, in the next argument. \<open>Inl\<close> is the end: the first argument that is
  no flag or is a double dash, or a wrong command line, which exits with code 2 (a request
  for help with 0); \<open>Inr\<close> holds the arguments left.
\<close>

definition set_or_exit ::
    "('s, 'w) platform \<Rightarrow> string \<Rightarrow> string \<Rightarrow> flags \<Rightarrow> string list \<Rightarrow> parsed + string list \<times> flags" where
  "set_or_exit P name v fl rest =
     (case set_flag P name v fl of None \<Rightarrow> Inl (Exit 2) | Some fl' \<Rightarrow> Inr (rest, fl'))"

definition parse_one ::
    "('s, 'w) platform \<Rightarrow> string \<Rightarrow> string list \<Rightarrow> flags \<Rightarrow> parsed + string list \<times> flags" where
  "parse_one P s args fl =
     (if length s < 2 \<or> hd s \<noteq> CHR ''-'' \<or> s = ''--'' then Inl (Parsed fl)
      else if hd (flag_text s) = CHR ''-'' \<or> hd (flag_text s) = CHR ''='' then Inl (Exit 2)
      else case split_flag (flag_text s) of (name, value) \<Rightarrow>
        (case flag_is_bool P name of
           None \<Rightarrow> Inl (Exit (if name = ''help'' \<or> name = ''h'' then 0 else 2))
         | Some boolean \<Rightarrow>
             (case value of
                Some v \<Rightarrow> set_or_exit P name v fl args
              | None \<Rightarrow>
                  if boolean then set_or_exit P name ''true'' fl args
                  else if args = [] then Inl (Exit 2)
                  else set_or_exit P name (hd args) fl (tl args))))"

lemma parse_one_rest:
  assumes "parse_one P s args fl = Inr (rest, fl')"
  shows "set rest \<subseteq> set args" and "length rest \<le> length args"
  using assms by (auto simp: parse_one_def set_or_exit_def split: if_splits prod.splits option.splits dest: list.set_sel(2))

function parse_flags :: "('s, 'w) platform \<Rightarrow> string list \<Rightarrow> flags \<Rightarrow> parsed" where
  "parse_flags P [] fl = Parsed fl"
| "parse_flags P (s # args) fl =
     (case parse_one P s args fl of Inl res \<Rightarrow> res | Inr (rest, fl') \<Rightarrow> parse_flags P rest fl')"
  by pat_completeness auto

termination parse_flags
  by (relation "measure (\<lambda>(P, args, fl). length args)") (auto dest: parse_one_rest(2))

section \<open>The options\<close>

definition disable_http2 :: "tls_config \<Rightarrow> tls_config" where
  "disable_http2 c = c\<lparr>next_protos := [''http/1.1'']\<rparr>"

definition tls_opts :: "flags \<Rightarrow> (tls_config \<Rightarrow> tls_config) list" where
  "tls_opts fl = (if \<not> enable_http2 fl then [disable_http2] else [])"

definition metrics_server_options :: "flags \<Rightarrow> metrics_options" where
  "metrics_server_options fl =
     (let mo = \<lparr>bind_address = metrics_addr fl, secure_serving = secure_metrics fl, metrics_tls = tls_opts fl,
                authenticated = False\<rparr>
      in if secure_metrics fl then mo\<lparr>authenticated := True\<rparr> else mo)"

definition manager_options :: "'s \<Rightarrow> flags \<Rightarrow> 's manager_options" where
  "manager_options s fl =
     \<lparr>mo_scheme = s, mo_metrics = metrics_server_options fl, mo_webhook_tls = tls_opts fl,
      mo_probe_address = probe_addr fl, mo_leader_election = enable_leader_election fl,
      mo_leader_election_id = ''022ee4e1.p2code.eu''\<rparr>"

text \<open>The controller \<open>SetupWithManager\<close> builds.\<close>

definition scheduling_controller :: controller_spec where
  "scheduling_controller =
     \<lparr>ctl_for = ''P2CodeSchedulingManifest'', ctl_owns = [''Placement'', ''ManifestWork''],
      ctl_filter = GenerationChangedPredicate\<rparr>"

section \<open>The process\<close>

record ('s, 'w) boot =
  bt_world :: 'w
  bt_trace :: "('s boot_event \<times> bool) list"
  bt_warned :: bool

type_synonym ('s, 'w, 'a) bootP = "(('s, 'w) boot, nat, 'a) proc"

text \<open>A step of the set-up; on an error the process exits with code 1.\<close>

definition perform :: "('s, 'w) platform \<Rightarrow> 's boot_event \<Rightarrow> ('s, 'w, unit) bootP" where
  "perform P ev = (\<lambda>b. case pf_perform P ev (bt_world b) of
     (Inl e, w) \<Rightarrow> (Fail 1, b\<lparr>bt_world := w, bt_trace := bt_trace b @ [(ev, False)]\<rparr>)
   | (Inr _, w) \<Rightarrow> (Ok (), b\<lparr>bt_world := w, bt_trace := bt_trace b @ [(ev, True)]\<rparr>))"

definition get_config_or_die :: "('s, 'w) platform \<Rightarrow> ('s, 'w, unit) bootP" where
  "get_config_or_die P = (\<lambda>b. case pf_get_config P (bt_world b) of (found, w) \<Rightarrow>
     (if found then Ok () else Fail 1, b\<lparr>bt_world := w\<rparr>))"

definition setup_with_manager :: "('s, 'w) platform \<Rightarrow> ('s, 'w, unit) bootP" where
  "setup_with_manager P = perform P (CompleteController scheduling_controller)"

text \<open>\<open>utils.IsMultiClusterNetworkInstalled\<close> of the model, on the world of the process.\<close>

definition discover :: "('r, 'w) client \<Rightarrow> ('s, 'w, bool) bootP" where
  "discover K = (\<lambda>b.
     case attemptP (is_multi_cluster_network_installed K)
         \<lparr>sys_world = bt_world b, sys_bundles = Map.empty, sys_owner = '''', sys_trace = []\<rparr> of
       (Ok (Inr installed), s) \<Rightarrow> (Ok installed, b\<lparr>bt_world := sys_world s\<rparr>)
     | (Ok (Inl e), s) \<Rightarrow> (Ok False, b\<lparr>bt_world := sys_world s\<rparr>)
     | (Fail n, s) \<Rightarrow> (Fail n, b\<lparr>bt_world := sys_world s\<rparr>)
     | (Panic, s) \<Rightarrow> (Panic, b\<lparr>bt_world := sys_world s\<rparr>))"

definition run_manager :: "('s, 'w) platform \<Rightarrow> ('r, 'w) client \<Rightarrow> 's manager_options \<Rightarrow> ('s, 'w, unit) bootP" where
  "run_manager P K opts =
     bindP (get_config_or_die P) (\<lambda>_.
     bindP (perform P (NewManager opts)) (\<lambda>_.
     bindP (setup_with_manager P) (\<lambda>_.
     bindP (perform P (AddHealthz ''healthz'')) (\<lambda>_.
     bindP (perform P (AddReadyz ''readyz'')) (\<lambda>_.
     bindP (discover K) (\<lambda>installed.
     bindP (if installed then retP () else modifyP (\<lambda>b. b\<lparr>bt_warned := True\<rparr>)) (\<lambda>_.
       perform P StartManager)))))))"

definition main_process :: "('s, 'w) platform \<Rightarrow> ('r, 'w) client \<Rightarrow> string list \<Rightarrow> ('s, 'w, unit) bootP" where
  "main_process P K args =
     bindP (liftP (init_scheme P)) (\<lambda>s.
       case parse_flags P args default_flags of
         Exit n \<Rightarrow> failP n
       | Parsed fl \<Rightarrow> run_manager P K (manager_options s fl))"

section \<open>The order of the set-up\<close>

definition setup_order :: "'s manager_options \<Rightarrow> 's boot_event list" where
  "setup_order opts = [NewManager opts, CompleteController scheduling_controller, AddHealthz ''healthz'',
     AddReadyz ''readyz'', StartManager]"

text \<open>
  \<open>sets_up evs r todo\<close>: the steps done are the first ones of \<open>todo\<close>, all but the last with
  success; the process ends normally exactly when all of \<open>todo\<close> succeeded.
\<close>

definition sets_up :: "('s boot_event \<times> bool) list \<Rightarrow> (nat, unit) go \<Rightarrow> 's boot_event list \<Rightarrow> bool" where
  "sets_up evs r todo \<longleftrightarrow>
     r = Ok () \<and> evs = map (\<lambda>e. (e, True)) todo \<or>
     r = Fail 1 \<and> (\<exists>k < length todo. evs = map (\<lambda>e. (e, True)) (take k todo) @ [(todo ! k, False)])"

definition does :: "('s, 'w, unit) bootP \<Rightarrow> 's boot_event list \<Rightarrow> bool" where
  "does m todo \<longleftrightarrow> (\<forall>b r b'. m b = (r, b') \<longrightarrow> (\<exists>evs. bt_trace b' = bt_trace b @ evs \<and> sets_up evs r todo))"

lemma does_perform: "does (perform P ev) [ev]"
  by (auto simp: does_def perform_def sets_up_def split: prod.splits sum.splits)

lemma does_step:
  assumes "does m [ev]" and "does n todo"
  shows "does (bindP m (\<lambda>_. n)) (ev # todo)"
  unfolding does_def
proof (intro allI impI)
  fix b r b'
  assume run: "bindP m (\<lambda>_. n) b = (r, b')"
  obtain q c where q: "m b = (q, c)" by fastforce
  from assms(1) q obtain e1 where e1: "bt_trace c = bt_trace b @ e1" "sets_up e1 q [ev]"
    unfolding does_def by blast
  show "\<exists>evs. bt_trace b' = bt_trace b @ evs \<and> sets_up evs r (ev # todo)"
  proof (cases q)
    case (Ok u)
    with run q have "n c = (r, b')" by (simp add: bindP_def)
    with assms(2) obtain e2 where e2: "bt_trace b' = bt_trace c @ e2" "sets_up e2 r todo"
      unfolding does_def by blast
    have "e1 = [(ev, True)]" using e1(2) Ok by (simp add: sets_up_def)
    then have "sets_up (e1 @ e2) r (ev # todo)"
    proof (cases "r = Ok ()")
      case False
      with e2(2) obtain k where "r = Fail 1" "k < length todo"
        "e2 = map (\<lambda>e. (e, True)) (take k todo) @ [(todo ! k, False)]" unfolding sets_up_def by blast
      with \<open>e1 = _\<close> show ?thesis unfolding sets_up_def by (intro disjI2 conjI exI [of _ "Suc k"]) simp_all
    qed (use e2(2) in \<open>auto simp: sets_up_def\<close>)
    with e1(1) e2(1) show ?thesis by auto
  next
    case (Fail n)
    with run q have "r = Fail n" "b' = c" by (auto simp: bindP_def)
    with e1 Fail show ?thesis by (auto simp: sets_up_def)
  next
    case Panic
    with e1(2) show ?thesis by (simp add: sets_up_def)
  qed
qed

lemma discover_quiet: "\<exists>installed b'. discover K b = (Ok installed, b') \<and> bt_trace b' = bt_trace b"
proof -
  obtain r s' where run: "is_multi_cluster_network_installed K
      \<lparr>sys_world = bt_world b, sys_bundles = Map.empty, sys_owner = [], sys_trace = []\<rparr> = (r, s')" by fastforce
  have "r \<noteq> Panic"
    using run by (auto simp: is_multi_cluster_network_installed_def bindP_def attemptP_def invoke_def retP_def failP_def
        split: prod.splits sum.splits if_splits go_error.splits)
  then show ?thesis
    by (cases r) (auto simp: discover_def attemptP_def run)
qed

lemma discover_then:
  assumes "does n todo"
  shows "does (bindP (discover K) (\<lambda>installed.
      bindP (if installed then retP () else modifyP (\<lambda>b. b\<lparr>bt_warned := True\<rparr>)) (\<lambda>_. n))) todo"
  unfolding does_def
proof (intro allI impI)
  fix b r b'
  assume run: "bindP (discover K) (\<lambda>installed.
      bindP (if installed then retP () else modifyP (\<lambda>b. b\<lparr>bt_warned := True\<rparr>)) (\<lambda>_. n)) b = (r, b')"
  from discover_quiet [of K b] obtain i c where c: "discover K b = (Ok i, c)" "bt_trace c = bt_trace b" by blast
  let ?d = "if i then c else c\<lparr>bt_warned := True\<rparr>"
  from run c(1) have "n ?d = (r, b')" by (cases i) (simp_all add: bindP_def retP_def modifyP_def)
  with assms obtain evs where "bt_trace b' = bt_trace ?d @ evs" "sets_up evs r todo" unfolding does_def by blast
  with c(2) show "\<exists>evs. bt_trace b' = bt_trace b @ evs \<and> sets_up evs r todo" by (cases i) auto
qed

lemma run_manager_sets_up:
  assumes "run_manager P K opts b = (r, b')"
  shows "(r = Fail 1 \<and> bt_trace b' = bt_trace b) \<or>
    (\<exists>evs. bt_trace b' = bt_trace b @ evs \<and> sets_up evs r (setup_order opts))"
proof -
  let ?rest = "bindP (perform P (NewManager opts)) (\<lambda>_.
     bindP (setup_with_manager P) (\<lambda>_.
     bindP (perform P (AddHealthz ''healthz'')) (\<lambda>_.
     bindP (perform P (AddReadyz ''readyz'')) (\<lambda>_.
     bindP (discover K) (\<lambda>installed.
     bindP (if installed then retP () else modifyP (\<lambda>b. b\<lparr>bt_warned := True\<rparr>)) (\<lambda>_.
       perform P StartManager))))))"
  have rest: "does ?rest (setup_order opts)"
    unfolding setup_order_def setup_with_manager_def
    by (intro does_step does_perform discover_then)
  obtain found w where "pf_get_config P (bt_world b) = (found, w)" by fastforce
  then have c: "get_config_or_die P b = (if found then Ok () else Fail 1, b\<lparr>bt_world := w\<rparr>)"
    by (simp add: get_config_or_die_def)
  show ?thesis
  proof (cases found)
    case True
    with assms c have "?rest (b\<lparr>bt_world := w\<rparr>) = (r, b')"
      by (simp add: run_manager_def bindP_def [of "get_config_or_die P"])
    with rest have "\<exists>evs. bt_trace b' = bt_trace (b\<lparr>bt_world := w\<rparr>) @ evs \<and> sets_up evs r (setup_order opts)"
      unfolding does_def by blast
    then show ?thesis by simp
  next
    case False
    with assms c show ?thesis by (auto simp: run_manager_def bindP_def [of "get_config_or_die P"])
  qed
qed

section \<open>The command line\<close>

text \<open>The flags as arguments.\<close>

definition bool_text :: "bool \<Rightarrow> string" where
  "bool_text b = (if b then ''true'' else ''false'')"

definition flag_args :: "flags \<Rightarrow> string list" where
  "flag_args fl =
     [''--metrics-bind-address='' @ metrics_addr fl, ''--health-probe-bind-address='' @ probe_addr fl,
      ''--leader-elect='' @ bool_text (enable_leader_election fl), ''--metrics-secure='' @ bool_text (secure_metrics fl),
      ''--enable-http2='' @ bool_text (enable_http2 fl)]"

lemma parse_flag_args: "parse_flags P (flag_args fl @ rest) fl0 = parse_flags P rest fl"
  by (cases fl; cases fl0) (simp add: flag_args_def parse_one_def set_or_exit_def flag_text_def split_flag_def
      flag_is_bool_def set_flag_def parse_bool_def bool_text_def)

text \<open>An argument of the form of a flag with a given name.\<close>

definition mentions :: "string \<Rightarrow> string \<Rightarrow> bool" where
  "mentions name s \<longleftrightarrow> fst (split_flag (flag_text s)) = name"

lemma set_other_flag:
  "name \<noteq> ''enable-http2'' \<Longrightarrow> set_flag P name v fl = Some fl' \<Longrightarrow> enable_http2 fl' = enable_http2 fl"
  by (auto simp: set_flag_def split: if_splits option.splits)

lemma parse_one_keeps_http2:
  assumes "parse_one P s args fl = Inr (rest, fl') \<or> parse_one P s args fl = Inl (Parsed fl')"
    and "\<not> mentions ''enable-http2'' s"
  shows "enable_http2 fl' = enable_http2 fl"
  using assms unfolding parse_one_def set_or_exit_def mentions_def
  by (elim disjE) (auto split: if_splits prod.splits option.splits dest: set_other_flag [rotated])

lemma parse_keeps_http2:
  "parse_flags P args fl = Parsed fl' \<Longrightarrow> (\<And>s. s \<in> set args \<Longrightarrow> \<not> mentions ''enable-http2'' s) \<Longrightarrow>
     enable_http2 fl' = enable_http2 fl"
proof (induction P args fl rule: parse_flags.induct)
  case (2 P s args fl)
  have s: "\<not> mentions ''enable-http2'' s" by (rule "2.prems"(2)) simp
  show ?case
  proof (cases "parse_one P s args fl")
    case (Inl e)
    with "2.prems"(1) have "parse_one P s args fl = Inl (Parsed fl')" by simp
    with parse_one_keeps_http2 [OF _ s] show ?thesis by blast
  next
    case (Inr q)
    obtain rest fl1 where q: "q = (rest, fl1)" by fastforce
    note one = Inr [unfolded q]
    from one "2.prems"(1) have "parse_flags P rest fl1 = Parsed fl'" by simp
    moreover have "\<not> mentions ''enable-http2'' t" if "t \<in> set rest" for t
      using "2.prems"(2) parse_one_rest(1) [OF one] that by auto
    ultimately have "enable_http2 fl' = enable_http2 fl1" using "2.IH" [OF one refl] by blast
    with parse_one_keeps_http2 [OF disjI1 [OF one] s] show ?thesis by simp
  qed
qed simp

end
