(* ===== verification/P2_Sample.thy ===== *)
theory P2_Sample
  imports P2_Scheduling P2_Target P2_Success P2_Requests P2_No_Panic P2_Copies P2_Main
begin

text \<open>
  A concrete instance of the parameters, on which the properties are evaluated: library
  functions that follow their documentation, a codec for four manifests (two Deployments
  in the default namespace, the service of the second and a volume claim), and an API
  server that answers every request of a run that schedules them on two clusters.
\<close>

section \<open>Library functions\<close>

definition sample_lib :: lib where
  "sample_lib =
     \<lparr>is_qualified_name = sample_qualified_name,
      group_version_string = (\<lambda>g v. if g = '''' then v else g @ ''/'' @ v),
      parse_selector = (\<lambda>s. case split_on (CHR ''='') s of
         [k, v] \<Rightarrow> Inr (k, v) | _ \<Rightarrow> Inl ''unable to parse requirement''),
      cluster_set_label = ''cluster.open-cluster-management.io/clusterset'',
      to_camel = filter (\<lambda>c. c \<noteq> CHR '' ''),
      contains_finalizer = (\<lambda>fs f. list_ex (\<lambda>g. g = f) fs),
      add_finalizer = (\<lambda>fs f. if list_ex (\<lambda>g. g = f) fs then None else Some (fs @ [f])),
      remove_finalizer = (\<lambda>fs f. if list_ex (\<lambda>g. g = f) fs then Some (filter (\<lambda>g. g \<noteq> f) fs) else None),
      set_controller_reference = (\<lambda>owner p. Inr (p\<lparr>pl_owners := owner # pl_owners p\<rparr>)),
      set_status_condition = (\<lambda>cs c. c # filter (\<lambda>d. cond_type d \<noteq> cond_type c) cs),
      find_status_condition = (\<lambda>cs t. List.find (\<lambda>c. cond_type c = t) cs),
      get_service = (\<lambda>l name. case service_index (link_services l) name of
         None \<Rightarrow> (- 1, None) | Some i \<Rightarrow> (int i, Some (link_services l ! i))),
      add_service = (\<lambda>l s. if list_ex (\<lambda>t. svc_name t = svc_name s) (link_services l) then l
         else l\<lparr>link_services := link_services l @ [s]\<rparr>)\<rparr>"

section \<open>Manifests\<close>

definition sample_metadata :: "string \<Rightarrow> string \<Rightarrow> string \<Rightarrow> string \<Rightarrow> manifest_metadata" where
  "sample_metadata name grp ver kind =
     \<lparr>md_name = name, md_namespace = ''default'',
      md_gvk = \<lparr>gvk_group = grp, gvk_version = ver, gvk_kind = kind\<rparr>, md_labels = (\<lambda>_. None)\<rparr>"

definition sample_container :: "string list \<Rightarrow> container" where
  "sample_container env =
     \<lparr>c_env_from = [], c_env = map (\<lambda>v. \<lparr>ev_value = v, ev_value_from = None\<rparr>) env\<rparr>"

definition sample_pod :: "string \<Rightarrow> string list \<Rightarrow> string list \<Rightarrow> pod_template_spec" where
  "sample_pod app env claims =
     \<lparr>pt_labels = (\<lambda>k. if k = ''app'' then Some app else None),
      pt_spec = \<lparr>image_pull_secrets = [],
        volumes = map (\<lambda>c. \<lparr>vol_pvc = Some c, vol_config_map = None, vol_secret = None\<rparr>) claims,
        service_account_name = '''', containers = [sample_container env], init_containers = []\<rparr>\<rparr>"

definition sample_codec :: "nat codec" where
  "sample_codec =
     \<lparr>dec_unstructured = (\<lambda>r.
        if r = 0 then Inr (sample_metadata ''web'' ''apps'' ''v1'' ''Deployment'')
        else if r = 1 then Inr (sample_metadata ''db'' ''apps'' ''v1'' ''Deployment'')
        else if r = 2 then Inr (sample_metadata ''db-svc'' '''' ''v1'' ''Service'')
        else if r = 3 then Inr (sample_metadata ''data'' '''' ''v1'' ''PersistentVolumeClaim'')
        else Inl ''unknown manifest''),
      dec_pod = (\<lambda>_. Inl ''not a Pod''),
      dec_deployment = (\<lambda>r. if r = 0 then Inr (sample_pod ''web'' [''db-svc:5432''] [])
        else if r = 1 then Inr (sample_pod ''db'' [] [''data'']) else Inl ''not a Deployment''),
      dec_stateful_set = (\<lambda>_. Inl ''not a StatefulSet''),
      dec_daemon_set = (\<lambda>_. Inl ''not a DaemonSet''),
      dec_job = (\<lambda>_. Inl ''not a Job''),
      dec_cron_job = (\<lambda>_. Inl ''not a CronJob''),
      dec_service = (\<lambda>r. if r = 2 then Inr [(''app'', ''db'')] else Inl ''not a Service''),
      dec_cluster_role_binding = (\<lambda>_. Inl ''not a ClusterRoleBinding''),
      dec_role_binding = (\<lambda>_. Inl ''not a RoleBinding''),
      dec_ingress = (\<lambda>_. Inl ''not an Ingress''),
      dec_route = (\<lambda>_. Inl ''not a Route''),
      dec_service_monitor = (\<lambda>_. Inl ''not a ServiceMonitor''),
      dec_hpa = (\<lambda>_. Inl ''not a HorizontalPodAutoscaler'')\<rparr>"

definition sample_manifest :: "string list \<Rightarrow> workload_annotation list \<Rightarrow> bool \<Rightarrow> nat p2m" where
  "sample_manifest global workloads deleting =
     \<lparr>p2m_name = ''demo'', p2m_namespace = p2code_scheduler_namespace, p2m_deleting = deleting,
      p2m_finalizers = [finalizer],
      p2m_spec = \<lparr>global_annotations = global, workload_annotations = workloads, manifests = [0, 1, 2, 3]\<rparr>,
      p2m_status = \<lparr>conditions = [], decisions = [], state = ''''\<rparr>\<rparr>"

definition sample_annotations :: "workload_annotation list" where
  "sample_annotations =
     [\<lparr>wa_name = ''web'', wa_annotations = [''p2code.filter.location=ireland'']\<rparr>,
      \<lparr>wa_name = ''db'', wa_annotations = []\<rparr>]"

abbreviation demo :: "nat p2m" where
  "demo \<equiv> sample_manifest [''p2code.target.managedClusterSet=edge''] sample_annotations False"

definition sample_request :: namespaced_name where
  "sample_request = \<lparr>nn_namespace = p2code_scheduler_namespace, nn_name = ''demo''\<rparr>"

section \<open>The server\<close>

definition sample_placement :: "string \<Rightarrow> placement" where
  "sample_placement name =
     zero_placement\<lparr>pl_name := name, pl_namespace := p2code_scheduler_namespace,
       pl_cluster_sets := [''edge''],
       pl_conditions := [true_condition ''PlacementSatisfied'' ''AllDecisionsScheduled'' ''''],
       pl_decision_groups := [[name]]\<rparr>"

definition sample_work :: "nat manifest_work" where
  "sample_work = zero_work\<lparr>work_status := [[true_condition ''Applied'' ''Applied'' '''']]\<rparr>"

definition sample_client :: "nat p2m \<Rightarrow> nat manifest_work list \<Rightarrow> (nat, unit) client" where
  "sample_client m works =
     \<lparr>cl_get_manifest = (\<lambda>_ u. (Inr m, u)),
      cl_update_manifest = (\<lambda>m' u. (Inr m', u)),
      cl_update_status = (\<lambda>m' u. (Inr m', u)),
      cl_get_placement = (\<lambda>n u. (Inr (sample_placement (nn_name n)), u)),
      cl_create_placement = (\<lambda>p u. (Inr p, u)),
      cl_update_placement = (\<lambda>p u. (Inr p, u)),
      cl_delete_placement = (\<lambda>_ u. (Inr (), u)),
      cl_get_decision = (\<lambda>n u. (Inr \<lparr>pd_name = nn_name n,
         pd_cluster_names = [if has_prefix (nn_name n) ''web'' then ''cluster1'' else ''cluster2'']\<rparr>, u)),
      cl_list_works = (\<lambda>_ u. (Inr works, u)),
      cl_get_work = (\<lambda>_ u. (Inl (NotFound ''not found''), u)),
      cl_create_work = (\<lambda>_ u. (Inr (), u)),
      cl_update_work = (\<lambda>_ u. (Inr (), u)),
      cl_delete_work = (\<lambda>_ u. (Inr (), u)),
      cl_list_cluster_sets = (\<lambda>u. (Inr [''edge''], u)),
      cl_list_clusters = (\<lambda>_ u. (Inr [\<lparr>mcl_name = ''cluster1''\<rparr>, \<lparr>mcl_name = ''cluster2''\<rparr>], u)),
      cl_list_bindings = (\<lambda>_ u. (Inr [\<lparr>csb_cluster_set = ''edge''\<rparr>], u)),
      cl_get_network = (\<lambda>_ u. (Inr empty_network, u)),
      cl_create_network = (\<lambda>n u. (Inr n, u)),
      cl_update_network = (\<lambda>_ u. (Inr (), u)),
      cl_in_cluster_config = (\<lambda>u. (Inr (), u)),
      cl_http_client = (\<lambda>u. (Inr (), u)),
      cl_rest_mapper = (\<lambda>u. (Inr (), u)),
      cl_rest_mapping = (\<lambda>_ u. (Inr (), u))\<rparr>"

definition initial_state :: "'w \<Rightarrow> ('r, 'w) sys" where
  "initial_state w = \<lparr>sys_world = w, sys_bundles = Map.empty, sys_owner = '''', sys_trace = []\<rparr>"

text \<open>A manifest with a target cluster, and one that is being deleted.\<close>

definition target_manifest :: "nat p2m" where
  "target_manifest = sample_manifest
     [''p2code.target.managedClusterSet=edge'', ''p2code.target.cluster=cluster1''] [] False"

definition deleted_manifest :: "nat p2m" where
  "deleted_manifest = sample_manifest [''p2code.target.managedClusterSet=edge''] [] True"

definition target_client :: "(nat, unit) client" where
  "target_client = sample_client target_manifest [sample_work]"

definition deletion_client :: "(nat, unit) client" where
  "deletion_client = sample_client deleted_manifest [sample_work]"

definition converted_sample :: "nat resource list" where
  "converted_sample = (case bulk_convert_to_resource_set sample_codec sample_lib (manifests (p2m_spec target_manifest)) of
     Ok rs \<Rightarrow> rs | _ \<Rightarrow> [])"

definition target_bundle :: "nat workload_bundle" where
  "target_bundle = \<lparr>bundle_name = ''demo'', bundle_resources = converted_sample, absent_resources = [],
     external_connections = [],
     scheduling_details = \<lparr>placement_requests = None, cluster_name = ''cluster1'',
       resource_name = ''cluster1-demo''\<rparr>\<rparr>"

section \<open>Evaluation\<close>

lemmas proc_defs = bindP_def handleP_def attemptP_def retP_def failP_def liftP_def getP_def
  modifyP_def invoke_def raising_def stop_with_def

lemma sample_names:
  "truncate_name_if_needed sample_lib ''demo'' = Ok ''demo''"
  "truncate_name_if_needed sample_lib ''cluster1-demo'' = Ok ''cluster1-demo''"
  by code_simp+

lemma sample_selectors:
  "owner_selector sample_lib ''demo'' = Inr (''scheduling.p2code.eu/owner'', ''demo'')"
  "parse_selector sample_lib (''cluster.open-cluster-management.io/clusterset='' @ ''edge'') =
     Inr (''cluster.open-cluster-management.io/clusterset'', ''edge'')"
  by code_simp+

lemma target_fields:
  "p2m_name target_manifest = ''demo''" "p2m_deleting target_manifest = False"
  "contains_finalizer sample_lib (p2m_finalizers target_manifest) finalizer = True"
  "conditions (p2m_status target_manifest) = []"
  "extract_target (global_annotations (p2m_spec target_manifest)) = Ok (''edge'', ''cluster1'')"
  "length (manifests (p2m_spec target_manifest)) = 4"
  by code_simp+

lemma deleted_fields:
  "p2m_name deleted_manifest = ''demo''" "p2m_deleting deleted_manifest = True"
  "contains_finalizer sample_lib (p2m_finalizers deleted_manifest) finalizer = True"
  "conditions (p2m_status deleted_manifest) = []"
  "remove_finalizer sample_lib (p2m_finalizers deleted_manifest) finalizer = Some []"
  by code_simp+

lemma target_supported:
  assumes "p2m_spec m = p2m_spec target_manifest"
  shows "validate_annotations_supported m = Ok ()"
proof -
  have "validate_annotations_supported target_manifest = Ok ()" by code_simp
  then show ?thesis unfolding validate_annotations_supported_def assms .
qed

lemma target_converted:
  "bulk_convert_to_resource_set sample_codec sample_lib (manifests (p2m_spec target_manifest)) = Ok converted_sample"
proof -
  have "(case bulk_convert_to_resource_set sample_codec sample_lib (manifests (p2m_spec target_manifest)) of
      Ok rs \<Rightarrow> True | _ \<Rightarrow> False)" by code_simp
  then show ?thesis by (simp add: converted_sample_def split: go.splits)
qed

lemma converted_length: "length converted_sample = 4"
  by code_simp

lemma work_applied: "validate_manifest_work_applied sample_work = Ok ()"
  by code_simp

lemma target_bundled: "bundle_for_target sample_lib [] ''demo'' ''cluster1'' converted_sample = Ok [target_bundle]"
  using sample_names(2) by (simp add: bundle_for_target_def add_bundle_def zero_details_def target_bundle_def)

lemma client_answers:
  "cl_get_manifest (sample_client m works) n u = (Inr m, u)"
  "cl_update_manifest (sample_client m works) m' u = (Inr m', u)"
  "cl_update_status (sample_client m works) m' u = (Inr m', u)"
  "cl_list_works (sample_client m works) l u = (Inr works, u)"
  "cl_get_work (sample_client m works) n u = (Inl (NotFound ''not found''), u)"
  "cl_create_work (sample_client m works) w u = (Inr (), u)"
  "cl_delete_work (sample_client m works) w u = (Inr (), u)"
  "cl_list_cluster_sets (sample_client m works) u = (Inr [''edge''], u)"
  "cl_list_clusters (sample_client m works) sel u = (Inr [\<lparr>mcl_name = ''cluster1''\<rparr>, \<lparr>mcl_name = ''cluster2''\<rparr>], u)"
  "cl_list_bindings (sample_client m works) ns u = (Inr [\<lparr>csb_cluster_set = ''edge''\<rparr>], u)"
  "cl_get_network (sample_client m works) n u = (Inr empty_network, u)"
  "cl_update_network (sample_client m works) net u = (Inr (), u)"
  "cl_in_cluster_config (sample_client m works) u = (Inr (), u)"
  "cl_http_client (sample_client m works) u = (Inr (), u)"
  "cl_rest_mapper (sample_client m works) u = (Inr (), u)"
  "cl_rest_mapping (sample_client m works) k u = (Inr (), u)"
  by (simp_all add: sample_client_def)

lemma with_status_fields:
  "p2m_name (with_status L c d m) = p2m_name m" "p2m_spec (with_status L c d m) = p2m_spec m"
  "p2m_finalizers (with_status L c d m) = p2m_finalizers m"
  "p2m_deleting (with_status L c d m) = p2m_deleting m"
  by (simp_all add: with_status_def)

lemma sample_update_status:
  "update_status L (sample_client m0 works) m c d s =
     (Ok (with_status L c d m0), s\<lparr>sys_trace := sys_trace s @
        [(GetManifest \<lparr>nn_namespace = p2m_namespace m, nn_name = p2m_name m\<rparr>, True),
         (UpdateStatus (with_status L c d m0), True)]\<rparr>)"
  by (simp add: update_status_def proc_defs client_answers Let_def)

lemma sample_installed:
  "is_multi_cluster_network_installed (sample_client m works) s =
     (Ok True, s\<lparr>sys_trace := sys_trace s @ discovered True\<rparr>)"
  by (simp add: is_multi_cluster_network_installed_def proc_defs client_answers)

lemma sample_start:
  assumes "p2m_name m = ''demo''" and "conditions (p2m_status m) = []"
  shows "\<exists>c s'. start_reconcile sample_lib (sample_client m works) sample_request s =
      (Ok (with_status sample_lib c [] m), s') \<and> sys_owner s' = ''demo'' \<and> sys_bundles s' = sys_bundles s"
  using assms by (simp add: start_reconcile_def proc_defs client_answers sample_names
      sample_update_status get_in_progress_state_def del: append.simps) blast

lemma target_validated:
  assumes "p2m_spec m = p2m_spec target_manifest"
  shows "\<exists>s'. validate_manifest sample_lib (sample_client m0 works) m s = (Ok (''edge'', ''cluster1''), s') \<and>
    sys_owner s' = sys_owner s \<and> sys_bundles s' = sys_bundles s"
  using assms target_supported [OF assms]
  by (simp add: validate_manifest_def check_annotations_def read_target_def check_cluster_set_def
      proc_defs client_answers target_fields does_managed_cluster_set_exist_def is_cluster_set_empty_def
      is_cluster_set_bound_def Let_def del: append.simps)

lemma target_chosen:
  assumes "p2m_spec m = p2m_spec target_manifest" and "p2m_name m = ''demo''"
  shows "\<exists>s'. choose_clusters sample_codec sample_lib (sample_client m0 works) m ''edge'' ''cluster1'' s =
      (Ok (m, [target_bundle]), s') \<and> sys_owner s' = sys_owner s \<and> sys_bundles s' = sys_bundles s"
  using assms sample_selectors(2)
  by (simp add: choose_clusters_def target_cluster_bundles_def is_managed_cluster_in_set_def proc_defs
      client_answers target_fields target_converted target_bundled or_misconfigured_def)

lemma target_rolled_out:
  assumes "p2m_spec m = p2m_spec target_manifest" and "p2m_name m = ''demo''"
    and "p2m_name m0 = ''demo''" and "sys_owner s = ''demo''" and "sys_bundles s = Map.empty"
  shows "\<exists>s'. roll_out sample_lib (sample_client m0 [sample_work]) m [target_bundle] s = (Ok Done, s') \<and>
    list_ex (\<lambda>e. is_work_write (fst e)) (sys_trace s') \<and> sys_bundles s' = [''demo'' \<mapsto> [target_bundle]]"
  using assms sample_selectors(1)
  by (simp add: roll_out_def clean_up_old_bundles_def apply_bundles_def apply_bundle_def check_works_def
      check_work_def work_applied connect_bundles_def complete_def get_owned_manifest_work_list_def
      stored_bundles_def get_network_connections_def connections_step_def filter_network_connections_def
      sample_installed sample_update_status client_answers target_fields proc_defs converted_length
      absent_resources_warning_def with_status_fields target_bundle_def)

text \<open>A run that schedules: it writes a ManifestWork and stores the bundle.\<close>

lemma target_run:
  "\<exists>s'. reconcile sample_codec sample_lib target_client sample_request (initial_state ()) = (Ok Done, s') \<and>
     list_ex (\<lambda>e. is_work_write (fst e)) (sys_trace s') \<and> sys_bundles s' = [''demo'' \<mapsto> [target_bundle]]"
proof -
  from sample_start [OF target_fields(1,4)] obtain c s1 where
    s1: "start_reconcile sample_lib target_client sample_request (initial_state ()) =
        (Ok (with_status sample_lib c [] target_manifest), s1)" "sys_owner s1 = ''demo''" "sys_bundles s1 = Map.empty"
    unfolding target_client_def by (metis initial_state_def sys.select_convs(2))
  let ?m = "with_status sample_lib c [] target_manifest"
  have m: "p2m_spec ?m = p2m_spec target_manifest" "p2m_name ?m = ''demo''" "p2m_deleting ?m = False"
    "contains_finalizer sample_lib (p2m_finalizers ?m) finalizer = True"
    using target_fields by (simp_all add: with_status_fields)
  from target_validated [OF m(1)] obtain s2 where
    s2: "validate_manifest sample_lib target_client ?m s1 = (Ok (''edge'', ''cluster1''), s2)"
      "sys_owner s2 = ''demo''" "sys_bundles s2 = Map.empty"
    unfolding target_client_def using s1 by metis
  from target_chosen [OF m(1,2)] obtain s3 where
    s3: "choose_clusters sample_codec sample_lib target_client ?m ''edge'' ''cluster1'' s2 = (Ok (?m, [target_bundle]), s3)"
      "sys_owner s3 = ''demo''" "sys_bundles s3 = Map.empty"
    unfolding target_client_def using s2 by metis
  from target_rolled_out [OF m(1,2) target_fields(1) s3(2,3)] obtain s4 where
    s4: "roll_out sample_lib target_client ?m [target_bundle] s3 = (Ok Done, s4)"
      "list_ex (\<lambda>e. is_work_write (fst e)) (sys_trace s4)" "sys_bundles s4 = [''demo'' \<mapsto> [target_bundle]]"
    unfolding target_client_def by blast
  have "reconcile sample_codec sample_lib target_client sample_request (initial_state ()) = (Ok Done, s4)"
    using s1(1) s2(1) s3(1) s4(1) m(3,4)
    by (simp add: reconcile_def reconcile_steps_def check_namespace_def sample_request_def ensure_finalizer_def
        handle_deletion_def schedule_def handleP_def bindP_def retP_def)
  with s4 show ?thesis by blast
qed

text \<open>The last request of that run is the report of success.\<close>

lemma target_success:
  assumes "reconcile sample_codec sample_lib target_client sample_request (initial_state ()) = (r, s')"
    and "sys_bundles s' = [''demo'' \<mapsto> [target_bundle]]"
  shows "\<exists>pre p. sys_trace s' = pre @ [(UpdateStatus p, True)] \<and> state (p2m_status p) = scheduling_successful"
proof -
  from run_specD [OF run_reconcile_bundles assms(1)] obtain tr q where
    tr: "sys_trace s' = tr" "bundles_after sample_codec sample_lib target_client sample_request (initial_state ()) q tr s'"
    by (auto simp: initial_state_def)
  have "sys_bundles s' ''demo'' = Some [target_bundle]" using assms(2) by simp
  with tr(2) show ?thesis
    unfolding bundles_after_def forgotten_def stores_on_success_def completes_def success_reported_def
    by (auto simp: tr(1) delete_bundles_def initial_state_def split: if_splits)
qed

lemma deletion_run:
  "\<exists>s'. reconcile sample_codec sample_lib deletion_client sample_request (initial_state ()) = (Ok Done, s') \<and>
     (\<exists>pre m. sys_trace s' = pre @ [(UpdateManifest m, True)] \<and> p2m_finalizers m = [])"
proof -
  from sample_start [OF deleted_fields(1,4)] obtain c s1 where
    s1: "start_reconcile sample_lib deletion_client sample_request (initial_state ()) =
        (Ok (with_status sample_lib c [] deleted_manifest), s1)" "sys_owner s1 = ''demo''" "sys_bundles s1 = Map.empty"
    unfolding deletion_client_def by (metis initial_state_def sys.select_convs(2))
  have "\<exists>s2. (finalize sample_lib deletion_client (with_status sample_lib c [] deleted_manifest) :: (nat, unit, stop, unit) sysP) s1 =
      (Fail (Return Done), s2) \<and> (\<exists>pre m. sys_trace s2 = pre @ [(UpdateManifest m, True)] \<and> p2m_finalizers m = [])"
    using s1(2,3) sample_selectors(1)
    by (simp add: finalize_def release_def remove_stored_links_def deletion_client_def sample_update_status
        sample_installed delete_owned_manifest_work_list_def get_owned_manifest_work_list_def client_answers
        stored_bundles_def get_network_connections_def filter_network_connections_def delete_network_links_def
        fetch_multi_cluster_network_def delete_links_def proc_defs with_status_fields deleted_fields Let_def)
  then obtain s2 where
    s2: "(finalize sample_lib deletion_client (with_status sample_lib c [] deleted_manifest) :: (nat, unit, stop, unit) sysP) s1 = (Fail (Return Done), s2)"
      "\<exists>pre m. sys_trace s2 = pre @ [(UpdateManifest m, True)] \<and> p2m_finalizers m = []" by blast
  have "reconcile sample_codec sample_lib deletion_client sample_request (initial_state ()) = (Ok Done, s2)"
    using s1(1) s2(1) deleted_fields(2,3)
    by (simp add: reconcile_def reconcile_steps_def check_namespace_def sample_request_def ensure_finalizer_def
        handle_deletion_def with_status_fields handleP_def bindP_def retP_def)
  with s2(2) show ?thesis by blast
qed

section \<open>Values the properties are evaluated on\<close>

lemma sample_link_api: "link_api_spec sample_lib"
proof -
  have ex: "list_ex (\<lambda>t. svc_name t = n) ss \<longleftrightarrow> n \<in> svc_name ` set ss" for n ss
    by (auto simp: list_ex_iff)
  show ?thesis by (auto simp: link_api_spec_def sample_lib_def link_path_def ex split: option.splits)
qed

lemma sample_qualified_spec: "qualified_name_spec sample_lib"
  by (simp add: qualified_name_spec_def sample_lib_def sample_qualified_name_def)

definition sample_resource :: "nat \<Rightarrow> nat resource" where
  "sample_resource r =
     \<lparr>res_metadata = (case dec_unstructured sample_codec r of Inr m \<Rightarrow> m
        | Inl _ \<Rightarrow> sample_metadata '''' '''' '''' ''''), res_annotations = [], res_manifest = r\<rparr>"

definition sample_bundles :: "nat bundle_list" where
  "sample_bundles =
     [\<lparr>bundle_name = ''web'', bundle_resources = [sample_resource 0], absent_resources = [],
       external_connections = [\<lparr>spp_service = ''db-svc'', spp_port = 5432\<rparr>],
       scheduling_details = \<lparr>placement_requests = None, cluster_name = ''cluster1'', resource_name = ''web-demo''\<rparr>\<rparr>,
      \<lparr>bundle_name = ''db'', bundle_resources = [sample_resource 1, sample_resource 2], absent_resources = [],
       external_connections = [],
       scheduling_details = \<lparr>placement_requests = None, cluster_name = ''cluster2'', resource_name = ''db-demo''\<rparr>\<rparr>]"

definition sample_connection :: network_connection where
  "sample_connection =
     \<lparr>nc_service = \<lparr>spp_service = ''db-svc'', spp_port = 5432\<rparr>,
      nc_source = \<lparr>loc_cluster = ''cluster2'', loc_namespace = ''default''\<rparr>,
      nc_target = \<lparr>loc_cluster = ''cluster1'', loc_namespace = ''default''\<rparr>\<rparr>"

lemma sample_connections: "get_network_connections sample_bundles = Ok [sample_connection]"
  by code_simp

lemma sample_well_bundled: "well_bundled sample_bundles"
proof -
  have "distinct (map bundle_name sample_bundles)"
    "list_all (\<lambda>b. external_connections b = [] \<or> length (bundle_workloads b) = 1) sample_bundles"
    "list_all (\<lambda>b. distinct (map resource_key (bundle_resources b))) sample_bundles"
    by code_simp+
  then show ?thesis by (simp add: well_bundled_def connectable_def list_all_iff)
qed

lemma sample_fetched: "fetched (sample_client m works) n \<Longrightarrow> links_wf (mcn_links n)"
  by (auto simp: fetched_def sample_client_def empty_network_def links_wf_def)

text \<open>The network stage on the two bundles: a link is registered.\<close>

lemma sample_connected:
  "\<exists>s'. connect_bundles sample_lib target_client target_manifest sample_bundles (initial_state ()) = (Ok (), s')"
  by (simp add: connect_bundles_def target_client_def sample_installed stored_bundles_def initial_state_def
      get_network_connections_def [of "[]"] filter_network_connections_def sample_connections
      register_network_links_def fetch_multi_cluster_network_def client_answers proc_defs Let_def)

lemma demo_built:
  "\<exists>bl. build_and_update_bundles sample_codec sample_lib [] demo = Ok bl \<and> map bundle_name bl = [''web'', ''db'']"
proof -
  have "(case build_and_update_bundles sample_codec sample_lib [] demo of
      Ok bl \<Rightarrow> map bundle_name bl = [''web'', ''db''] | _ \<Rightarrow> False)" by code_simp
  then show ?thesis by (simp split: go.splits)
qed

lemma default_built:
  "\<exists>bl. build_and_update_bundles sample_codec sample_lib [] deleted_manifest = Ok bl \<and> length bl = 1"
proof -
  have "(case build_and_update_bundles sample_codec sample_lib [] deleted_manifest of
      Ok bl \<Rightarrow> length bl = 1 | _ \<Rightarrow> False)" by code_simp
  then show ?thesis by (simp split: go.splits)
qed

lemma web_analysed:
  "\<exists>rs missing. analyse_workload sample_codec sample_lib (sample_resource 0) [sample_resource 2, sample_resource 3] =
     Ok (rs, missing, [\<lparr>spp_service = ''db-svc'', spp_port = 5432\<rparr>])"
proof -
  have "(case analyse_workload sample_codec sample_lib (sample_resource 0) [sample_resource 2, sample_resource 3] of
      Ok (rs, missing, conns) \<Rightarrow> conns = [\<lparr>spp_service = ''db-svc'', spp_port = 5432\<rparr>] | _ \<Rightarrow> False)"
    by code_simp
  then show ?thesis by (auto split: go.splits prod.splits)
qed

lemma db_analysed:
  "\<exists>rs missing conns. analyse_workload sample_codec sample_lib (sample_resource 1) [sample_resource 2, sample_resource 3] =
     Ok (rs, missing, conns) \<and> length rs = 2 \<and> missing = []"
proof -
  have "(case analyse_workload sample_codec sample_lib (sample_resource 1) [sample_resource 2, sample_resource 3] of
      Ok (rs, missing, conns) \<Rightarrow> length rs = 2 \<and> missing = [] | _ \<Rightarrow> False)"
    by code_simp
  then show ?thesis by (auto split: go.splits prod.splits)
qed

lemma sample_templates:
  "extract_pod_template_spec sample_codec (sample_resource 0) = Ok (sample_pod ''web'' [''db-svc:5432''] [])"
  "extract_pod_template_spec sample_codec (sample_resource 1) = Ok (sample_pod ''db'' [] [''data''])"
  by (simp_all add: extract_pod_template_spec_def sample_resource_def sample_codec_def sample_metadata_def)

text \<open>The state after the run of \<open>target_run\<close> is reachable and remembers a bundle.\<close>

lemma sample_reachable:
  "\<exists>s. reachable sample_codec sample_lib target_client s \<and> sys_bundles s = [''demo'' \<mapsto> [target_bundle]]"
proof -
  from target_run obtain s where
    "reconcile sample_codec sample_lib target_client sample_request (initial_state ()) = (Ok Done, s)"
    "sys_bundles s = [''demo'' \<mapsto> [target_bundle]]" by blast
  then show ?thesis using reachable.run [OF reachable.start [of _ _ _ "()"]] unfolding initial_state_def by blast
qed

section \<open>A server whose answers are valid, and one whose answers are bounded\<close>

lemma sample_codec_valid: "codec_valid sample_codec"
proof -
  have "label_name ''web''" "label_name ''db''" "label_name ''db-svc''" "label_name ''data''" by code_simp+
  then show ?thesis by (auto simp: codec_valid_def sample_codec_def sample_metadata_def split: if_splits)
qed

lemma sample_controller_reference: "controller_reference_spec sample_lib"
  by (auto simp: controller_reference_spec_def sample_lib_def)

lemma target_manifest_valid: "manifest_valid target_manifest"
proof -
  have names: "label_name ''demo''" "label_name ''cluster1''" by code_simp+
  have "equals_sign (global_annotations (p2m_spec target_manifest))"
    "workload_annotations (p2m_spec target_manifest) = []" by code_simp+
  with names target_fields(1,5) show ?thesis by (simp add: manifest_valid_def)
qed

lemma sample_server_valid: "server_valid sample_lib target_client"
proof -
  have "placement_valid sample_lib (sample_placement name)" for name
    by (simp add: placement_valid_def sample_placement_def sample_lib_def true_condition_def)
  moreover have "placement_valid sample_lib p" if "pl_cluster_sets p \<noteq> []" "pl_conditions p = []" for p
    using that by (simp add: placement_valid_def sample_lib_def)
  moreover have "work_valid sample_work" by code_simp
  ultimately show ?thesis
    by (simp add: server_valid_def answers_def target_client_def sample_client_def target_manifest_valid)
qed

definition bounded_client :: "(nat, unit) client" where
  "bounded_client = target_client\<lparr>cl_update_manifest := (\<lambda>_ u. (Inr target_manifest, u)),
     cl_update_status := (\<lambda>_ u. (Inr target_manifest, u))\<rparr>"

lemma bounded_answers: "answers_fit bounded_client 4 1"
  using target_fields(6)
  by (simp add: answers_fit_def bounded_client_def target_client_def sample_client_def)

section \<open>A heap and a platform\<close>

text \<open>External structs are numbers that refer to no cell.\<close>

definition sample_copies :: "nat copy_lib" where
  "sample_copies = \<lparr>copy_object_meta = Pair, copy_list_meta = Pair, copy_raw_extension = Pair,
     copy_condition = Pair, zero_external = 0\<rparr>"

definition sample_looks :: "(nat, nat) external_looks" where
  "sample_looks = \<lparr>lo_object_meta = look_flat, lo_list_meta = look_flat, lo_raw_extension = look_flat,
     lo_condition = look_flat\<rparr>"

lemma sample_copies_externals: "copies_externals sample_copies sample_looks"
  by (simp add: copies_externals_def sample_copies_def sample_looks_def flat_copier)

text \<open>A list of one manifest with one annotation and one raw manifest.\<close>

definition sample_heap :: "nat cell list" where
  "sample_heap =
     [StringCell [''p2code.target.managedClusterSet=edge''], ExternalCell [7],
      ManifestCell [(zero_manifest sample_copies)\<lparr>ms_object_meta := 5,
        ms_spec := zero_spec\<lparr>ss_global := Some \<lparr>sl_array = 0, sl_offset = 0, sl_len = 1\<rparr>,
          ss_manifests := Some \<lparr>sl_array = 1, sl_offset = 0, sl_len = 1\<rparr>\<rparr>\<rparr>],
      ListCell [\<lparr>ls_type_meta = (''P2CodeSchedulingManifestList'', ''v1''), ls_list_meta = 3,
        ls_items = Some \<lparr>sl_array = 2, sl_offset = 0, sl_len = 1\<rparr>\<rparr>]]"

lemma sample_heap_look:
  "\<exists>v. look_pointer (list_kind sample_copies) (look_list sample_copies sample_looks) sample_heap (Some 3) =
     Some (v, {0, 1, 2, 3})"
  by (simp add: look_pointer_def pointed_def look_slice_def elements_def array_at_def kind_defs sample_heap_def
      struct_looks look_pair_def look_flat_def sample_looks_def zero_manifest_def zero_spec_def zero_status_def
      numeral_2_eq_2 numeral_3_eq_3 insert_commute)

definition sample_platform :: "(unit, unit) platform" where
  "sample_platform =
     \<lparr>pf_new_scheme = (), pf_add_to_scheme = (\<lambda>_ s. Inr s), pf_other_flag = (\<lambda>_. None),
      pf_get_config = (\<lambda>u. (True, u)), pf_perform = (\<lambda>_ u. (Inr (), u))\<rparr>"

definition fresh_boot :: "(unit, unit) boot" where
  "fresh_boot = \<lparr>bt_world = (), bt_trace = [], bt_warned = False\<rparr>"

lemma sample_platform_fields:
  "pf_get_config sample_platform u = (True, u)" "pf_perform sample_platform ev u = (Inr (), u)"
  by (simp_all add: sample_platform_def)

lemma sample_command_lines:
  "parse_flags sample_platform [''--leader-elect''] default_flags =
     Parsed (default_flags\<lparr>enable_leader_election := True\<rparr>)"
  "parse_flags sample_platform [''-metrics-bind-address'', '':8443''] default_flags =
     Parsed (default_flags\<lparr>metrics_addr := '':8443''\<rparr>)"
  by (simp_all add: parse_one_def set_or_exit_def flag_text_def split_flag_def flag_is_bool_def set_flag_def
      parse_bool_def)

lemma sample_process:
  "fst (main_process sample_platform target_client [''--leader-elect''] fresh_boot) = Ok ()"
proof -
  have "init_scheme sample_platform = Ok ()" by (simp add: init_scheme_def api_packages_def sample_platform_def)
  moreover have "fst (run_manager sample_platform target_client opts fresh_boot) = Ok ()" for opts
    by (simp add: run_manager_def perform_def get_config_or_die_def setup_with_manager_def discover_def
        sample_platform_fields target_client_def sample_installed proc_defs)
  ultimately show ?thesis
    by (simp add: main_process_def sample_command_lines(1) bindP_def liftP_def del: parse_flags.simps)
qed

end
