(* ===== verification/Spec2Isabelle.thy ===== *)
theory Spec2Isabelle
  imports P2_Sample
begin

text \<open>
  A verification development of the P2CODE scheduler operator: a Kubernetes controller that
  reads a P2CodeSchedulingManifest (a list of manifests with annotations), groups the
  manifests into bundles (a workload with the ancillary resources it needs), has Open
  Cluster Management choose a managed cluster for each bundle, creates one ManifestWork for
  each bundle in the namespace of its cluster, and registers the network links the bundles
  need of each other in a MultiClusterNetwork resource.

  \<^bold>\<open>How the program is modelled.\<close> A Go function that can fail is a function into \<open>go\<close>:
  \<open>Ok\<close>, \<open>Fail\<close> (a non-nil error) or \<open>Panic\<close> (an index or slice out of range, a nil
  dereference). A method that talks to the API server is a \<open>proc\<close>, a function from a state
  to a result and a state, where the state survives an error. The state \<open>sys\<close> holds the
  reconciler's fields \<open>Bundles\<close> and \<open>OwnerLabel\<close>, a world \<open>'w\<close> and the trace of the
  requests sent with their outcomes. Three records are parameters, because their code is
  not in the repository: the \<open>client\<close> (any functions over the world, so every property of
  a run holds for every behaviour of the API server, concurrent changes included), the
  \<open>codec\<close> (JSON decoders over the raw manifests, of type \<open>'r\<close>) and the \<open>lib\<close> (helper
  functions of the Kubernetes, strcase and AC3 packages). What a property relies on of
  them is a hypothesis: \<open>qualified_name_spec\<close> for \<open>validation.IsQualifiedName\<close> (P2\_Utils),
  \<open>link_api_spec\<close> for \<open>GetService\<close> and \<open>AddService\<close> of a MultiClusterLink (P2\_Network),
  \<open>codec_valid\<close>, \<open>server_valid\<close> and \<open>controller_reference_spec\<close> for the absence of panics
  (P2\_Panics, P2\_No\_Panic), \<open>answers_fit\<close> for the number of requests (P2\_Requests). The
  process and the deep copies have parameters of their own: the \<open>platform\<close> (the controller
  runtime, P2\_Main) and the copies of the Kubernetes types (\<open>copies_externals\<close>, P2\_Copies).
  An instance of all of them is in P2\_Sample.

  \<^bold>\<open>Theories and code.\<close>
  \<^item> P2\_Prelude: results, procedures, loops, weakest preconditions and the locale
    \<open>first_match\<close> of the lookups. P2\_Strings: the Go functions on strings the code uses.
  \<^item> P2\_Types: \<^verbatim>\<open>api/v1alpha1/p2codeschedulingmanifest_types.go\<close>,
    \<^verbatim>\<open>internal/controller/errors.go\<close>, the types of the controller, and the fields of
    foreign objects it reads or writes.
  \<^item> P2\_Utils: \<^verbatim>\<open>utils/utils.go\<close>, names and sentence case.
  \<^item> P2\_ResourceSet: \<^verbatim>\<open>resourceset.go\<close>; the locale \<open>keyed_collection\<close> is the contract of
    \<open>Add\<close> and \<open>Merge\<close>, interpreted on them.
  \<^item> P2\_Annotations: \<^verbatim>\<open>annotations.go\<close>, with a closed form of each function.
  \<^item> P2\_Analyse: \<^verbatim>\<open>analyse.go\<close>. P2\_Analyse\_Spec: the references a workload makes, read
    off the decoded objects, and the theorem that the analysis resolves exactly these.
  \<^item> P2\_Bundle: \<^verbatim>\<open>bundle.go\<close>; \<open>bundles_of\<close> specifies the bundles of a list of workloads.
  \<^item> P2\_Network: the computations of \<^verbatim>\<open>network-connectivity.go\<close>; the abstract view of a
    list of links is its set of edges, and the locale \<open>connectivity_table\<close> derives the
    round trip and the replacement of connections from the laws of the two operations.
  \<^item> P2\_Cluster: requests, client, state, and policies: a locale for each set of requests a
    method may send (\<open>read_policy\<close>, \<open>status_policy\<close>, and those of P2\_Controller).
  \<^item> P2\_Status: \<^verbatim>\<open>status.go\<close>, \<^verbatim>\<open>membership.go\<close> and the discovery of \<^verbatim>\<open>utils/utils.go\<close>.
  \<^item> P2\_Controller: the helper methods of
    \<^verbatim>\<open>p2codeschedulingmanifest_controller.go\<close> and the methods of
    \<^verbatim>\<open>network-connectivity.go\<close> that send requests.
  \<^item> P2\_Reconcile: the method \<open>Reconcile\<close>, one definition for each stage, in its order.
  \<^item> P2\_Reconcile\_Spec, P2\_Runs: which requests each stage may send, and a calculus of
    specifications (\<open>run_spec\<close>, \<open>ok_spec\<close>) over the requests of one execution.
  \<^item> P2\_Ordering (all or nothing), P2\_Finalize (the finalizer), P2\_Reachable (what the
    operator stores, and the invariant of its reachable states), P2\_Scheduling (single
    stages), P2\_Liveness (how a run that is over has ended), P2\_Requests (how many requests
    a run sends), P2\_Panics and P2\_No\_Panic (functions and stages that do not panic): the
    lemmas the properties below rest on.
  \<^item> P2\_Rbac: the permission markers above \<open>Reconcile\<close>.
  \<^item> P2\_Main: \<^verbatim>\<open>cmd/main.go\<close>, \<^verbatim>\<open>api/v1alpha1/groupversion_info.go\<close> and
    \<open>SetupWithManager\<close>: the scheme, the command line, the options, the order of the set-up.
  \<^item> P2\_DeepCopy, P2\_Copies: \<^verbatim>\<open>api/v1alpha1/zz_generated.deepcopy.go\<close> on a heap of cells;
    the locale \<open>deep_copier\<close> is the contract of a deep copy, and \<open>slice_copier\<close> and
    \<open>pair_copier\<close> carry it from elements and fields to slices and structs.
  \<^item> P2\_Sample: an instance of the parameters on which the properties are evaluated.

  \<^bold>\<open>The properties\<close> are about whole runs (C1 to C10), the placement and clean-up stages (C11
  to C13), the network links (C14 to C17), the bundling (C18 to C20), the analysis of a
  workload (C21 to C24), the annotations (C25 to C28), the conversion of manifests and the
  names (C29 to C32), further stages of a run (C33 to C36), the deep copies (C37), the process
  (C38, C39) and the permissions (C40). Some state where the code panics or does less than
  its comments say: C24, C26, C28, C32, C35, C36. C6 says what excludes every panic of a run.

  \<^bold>\<open>Choices.\<close> Every definition is total and executable; the loops of the program run over
  finite slices, so there is no fuel. Go strings are lists of bytes (characters), an \<open>int\<close>
  read by \<open>strconv.Atoi\<close> is an integer that fits 64 bits or an error. A map ranged over
  is the list of its entries in the order of that iteration, so a result holds for every
  order. Resource sets and bundle lists are slices of pointers; the pointers of one slice
  are distinct and those stored in \<open>Bundles\<close> are not written again (each run starts with
  an empty list), so they are lists of values, and a write through a pointer updates the
  element it was found at. A failed read leaves the zero object in the variable, as in the
  code. \<open>strings.ToLower\<close> is modelled on ASCII letters (it is applied to kinds only).

  The one recursion that is not structural, the command line parser, has a termination
  proof (the number of arguments left). The bound of C7 counts the requests of the longest
  path: 57 for the stages that do not depend on a size, 8 for each manifest (the placement
  of its bundle, and its ManifestWork), 4 for each stored bundle (the clean-up), and one for
  each listed ManifestWork (the deletion).

  \<^bold>\<open>Not modelled.\<close> Logging and the options of the logger, the pause after a placement
  update (\<open>time.Sleep\<close>), the contexts, what the controller runtime does with the controller
  it is asked for (watches, queue, event filter), and the tests. Runs do not overlap, which
  is the default of the controller runtime (one worker).
\<close>

section \<open>A run of \<open>Reconcile\<close>\<close>



text \<open>
  C2. The finalizer is released last. Every update of the custom resource a run sends
  either adds the finalizer, or comes after the whole clean-up: the ManifestWorks the
  server lists under the owner label (the truncated name of the manifest the run has read)
  were all deleted with success, discovery was asked for the MultiClusterNetwork API, and
  if it is installed an update of the network resource was accepted.
\<close>

theorem finalizer_released_last:
  assumes "reconcile C L K req s = (r, s')"
    and "sys_trace s' = sys_trace s @ pre @ (UpdateManifest m, ok) # post"
  shows "adds_finalizer L m \<or> (\<exists>owner. labels L K req owner \<and> cleaned_up L K owner pre)"
proof -
  from run_specD [OF run_reconcile_released assms(1)] assms(2) obtain owner where
    "released_in_order L K owner (pre @ (UpdateManifest m, ok) # post)"
    "labels L K req owner \<or> list_all (\<lambda>e. no_manifest_write (fst e)) (pre @ (UpdateManifest m, ok) # post)"
    by auto
  then show ?thesis unfolding released_in_order_def by (auto simp: no_manifest_write_def)
qed

lemma finalizer_released_last_witness:
  "\<exists>owner pre. labels sample_lib deletion_client sample_request owner \<and>
     cleaned_up sample_lib deletion_client owner pre"
proof -
  from deletion_run obtain s' pre m where
    run: "reconcile sample_codec sample_lib deletion_client sample_request (initial_state ()) = (Ok Done, s')"
    and tr: "sys_trace s' = pre @ [(UpdateManifest m, True)]" and m: "p2m_finalizers m = []" by blast
  from tr have "sys_trace s' = sys_trace (initial_state () :: (nat, unit) sys) @ pre @ (UpdateManifest m, True) # []"
    by (simp add: initial_state_def)
  from finalizer_released_last [OF run this] m show ?thesis
    by (auto simp: adds_finalizer_def sample_lib_def split: if_splits)
qed

text \<open>
  C3. What a run can do to the stored bundles: nothing; forget those of the manifest it
  deletes (named by the answer to a status Finalizing), after the whole clean-up under the
  label of the manifest it has read; or, only in a run that ends normally, store the bundles
  of the manifest it schedules: authorised as in C1, the ManifestWork of each written, with
  every owned ManifestWork found applied, the links they need registered, no manifest of the
  manifest rolled out left over, no absent resource, and the status SchedulingSuccessful
  with their decisions as the last request; they are stored under the name in its answer.
\<close>

theorem stored_bundles_after_run:
  "case reconcile C L K req s of (r, s') \<Rightarrow>
     \<exists>tr q. sys_trace s' = sys_trace s @ tr \<and> r = outcome q \<and> bundles_after C L K req s q tr s'"
proof -
  obtain r s' where run: "reconcile C L K req s = (r, s')" by fastforce
  from run_specD [OF run_reconcile_bundles run] run show ?thesis by auto
qed

text \<open>
  C4. An invariant of the operator: in every reachable state (runs for any requests,
  restarts, and any changes of the cluster by others) the stored bundles have distinct
  names, hold no resource twice, have exactly one workload if they have connections, and
  have no absent resources.
\<close>

theorem operator_remembers_well:
  assumes "reachable C L K s"
  shows "remembered_well (sys_bundles s)"
  using assms by (rule reachable_remembered_well)

lemma operator_remembers_well_witness:
  "\<exists>s. reachable sample_codec sample_lib target_client s \<and>
     sys_bundles s = [''demo'' \<mapsto> [target_bundle]] \<and> remembered_well (sys_bundles s)"
proof -
  from sample_reachable obtain s where
    "reachable sample_codec sample_lib target_client s" "sys_bundles s = [''demo'' \<mapsto> [target_bundle]]" by blast
  with operator_remembers_well [OF this(1)] show ?thesis by blast
qed

text \<open>
  C5. A run that ends without asking for another one has said why: its last request is an
  accepted status update with a terminal state, a failed read of the manifest, or the
  accepted removal of the finalizer (or an update answered with a manifest that is deleted
  and has none). This matters as the event filter drops status changes: a run that ended
  otherwise would not be repeated.
\<close>

theorem runs_conclude:
  assumes "reconcile C L K req s = (Ok Done, s')"
  shows "\<exists>tr. sys_trace s' = sys_trace s @ tr \<and> concluded L K req tr"
  using run_specD [OF run_concludes assms] by blast

lemma runs_conclude_witness:
  "\<exists>tr. tr \<noteq> [] \<and> concludes sample_lib target_client sample_request (last tr)"
proof -
  from target_run obtain s' where
    "reconcile sample_codec sample_lib target_client sample_request (initial_state ()) = (Ok Done, s')" by blast
  from runs_conclude [OF this] show ?thesis by (auto simp: concluded_def)
qed

text \<open>
  C6. No run from a reachable state panics, for manifests whose names are label values and
  whose annotations have an equals sign, an API server whose placements, decisions and
  failed conditions are filled in, decoders that answer with ingress rules with paths and
  workload names that are label values, and library functions that follow their
  documentation.
\<close>

theorem reconcile_never_panics:
  assumes "reachable C L K s" and "server_valid L K" and "codec_valid C" and "qualified_name_spec L"
    and "controller_reference_spec L" and "link_api_spec L"
  shows "fst (reconcile C L K req s) \<noteq> Panic"
proof -
  obtain r s' where run: "reconcile C L K req s = (r, s')" by fastforce
  from safeD [OF safe_reconcile [OF assms(2-6)] reachable_recalls [OF assms(1)] run] run show ?thesis by simp
qed

lemma reconcile_never_panics_witness:
  "\<exists>s. reachable sample_codec sample_lib target_client s \<and> sys_bundles s = [''demo'' \<mapsto> [target_bundle]] \<and>
     fst (reconcile sample_codec sample_lib target_client sample_request s) \<noteq> Panic"
proof -
  from sample_reachable obtain s where s: "reachable sample_codec sample_lib target_client s"
    "sys_bundles s = [''demo'' \<mapsto> [target_bundle]]" by blast
  from reconcile_never_panics [OF s(1) sample_server_valid sample_codec_valid sample_qualified_spec
      sample_controller_reference sample_link_api] s
  show ?thesis by blast
qed

text \<open>
  C7. A run sends a bounded number of requests: with at most \<open>M\<close> manifests in an object the
  server returns, \<open>W\<close> ManifestWorks in a list and \<open>B\<close> stored bundles, at most
  \<open>8 M + 4 B + W + 57\<close>.
\<close>

theorem requests_bounded:
  assumes "answers_fit K M W" and "\<And>name. length (stored_bundles s name) \<le> B"
    and "reconcile C L K req s = (r, s')"
  shows "length (sys_trace s') \<le> length (sys_trace s) + (8 * M + 4 * B + W + 57)"
  by (rule spendsD [OF spends_reconcile [OF assms(1)] _ assms(3)]) (simp add: few_stored_def assms(2))

lemma requests_bounded_witness:
  "length (sys_trace (snd (reconcile sample_codec sample_lib bounded_client sample_request (initial_state ())))) \<le> 90"
proof -
  have none: "\<And>name. length (stored_bundles (initial_state () :: (nat, unit) sys) name) \<le> 0"
    by (simp add: stored_bundles_def initial_state_def)
  have run: "reconcile sample_codec sample_lib bounded_client sample_request (initial_state ()) =
      (fst (reconcile sample_codec sample_lib bounded_client sample_request (initial_state ())),
       snd (reconcile sample_codec sample_lib bounded_client sample_request (initial_state ())))" by simp
  show ?thesis
    using requests_bounded [OF bounded_answers none run] by (simp add: initial_state_def)
qed

text \<open>
  C8. In every reachable state the connections of the stored bundles can be computed (no
  error, no panic), and they are exactly those a bundle needs of a service in another
  bundle and that cross a cluster or a namespace.
\<close>

theorem stored_connections:
  assumes "reachable C L K s"
  shows "\<exists>ncs. get_network_connections (stored_bundles s name) = Ok ncs \<and>
    set ncs = {nc. is_link_required nc \<and>
      (\<exists>b w other c sv. needs (stored_bundles s name) b other c sv \<and> bundle_workloads b = [w] \<and>
         nc = connection_of b other c sv w)}"
  by (rule well_bundled_connections) (rule stored_well_bundled [OF assms])

lemma stored_connections_witness:
  "\<exists>s ncs. sys_bundles s = [''demo'' \<mapsto> [target_bundle]] \<and>
     get_network_connections (stored_bundles (s :: (nat, unit) sys) ''demo'') = Ok ncs"
proof -
  from sample_reachable obtain s where
    "reachable sample_codec sample_lib target_client s" "sys_bundles s = [''demo'' \<mapsto> [target_bundle]]" by blast
  with stored_connections [OF this(1), of "''demo''"] show ?thesis by blast
qed

text \<open>
  C9. A request for a namespace other than that of the scheduler sends reads and status
  updates only, and leaves the stored bundles alone, whatever the manifest says (also when
  it is being deleted).
\<close>

theorem wrong_namespace_only_reports:
  assumes "nn_namespace req \<noteq> p2code_scheduler_namespace" and "reconcile C L K req s = (r, s')"
  shows "\<exists>tr. sys_trace s' = sys_trace s @ tr \<and> reports_only s tr s'"
  by (rule run_specD [OF run_wrong_namespace [OF assms(1)] assms(2)])

lemma wrong_namespace_only_reports_witness:
  "\<exists>r s' tr. reconcile sample_codec sample_lib target_client \<lparr>nn_namespace = ''default'', nn_name = ''demo''\<rparr>
       (initial_state ()) = (r, s') \<and> sys_trace s' = tr \<and> reports_only (initial_state ()) tr s'"
proof -
  have ns: "nn_namespace \<lparr>nn_namespace = ''default'', nn_name = ''demo''\<rparr> \<noteq> p2code_scheduler_namespace"
    by (simp add: p2code_scheduler_namespace_def)
  obtain r s' where run: "reconcile sample_codec sample_lib target_client
      \<lparr>nn_namespace = ''default'', nn_name = ''demo''\<rparr> (initial_state ()) = (r, s')" by fastforce
  from wrong_namespace_only_reports [OF ns run] run show ?thesis by (auto simp: initial_state_def)
qed

text \<open>
  C10. A manifest that cannot be scheduled (an unsupported annotation, no target cluster
  set, a manifest that is not valid, a bundling that fails) ends the run before any write
  to a placement, a ManifestWork or a network link: only reads and status updates are sent.
\<close>

theorem unschedulable_only_reports:
  assumes "\<not> schedulable C L m" and "schedule C L K m s = (r, s')"
  shows "\<exists>tr. sys_trace s' = sys_trace s @ tr \<and> reports_only s tr s' \<and> (\<nexists>y. r = Ok y)"
  using run_specD [OF run_unschedulable [OF assms(1)] assms(2)] by simp

lemma unschedulable_only_reports_witness:
  "\<exists>r s' tr. schedule sample_codec sample_lib target_client (sample_manifest [''p2code.colour=red''] [] False)
       (initial_state ()) = (r, s') \<and> sys_trace s' = tr \<and> reports_only (initial_state ()) tr s' \<and> (\<nexists>y. r = Ok y)"
proof -
  let ?m = "sample_manifest [''p2code.colour=red''] [] False"
  have "(case validate_annotations_supported ?m of Ok _ \<Rightarrow> False | _ \<Rightarrow> True)" by code_simp
  then have "\<not> schedulable sample_codec sample_lib ?m"
    by (auto simp: schedulable_def)
  moreover obtain r s' where run: "schedule sample_codec sample_lib target_client ?m (initial_state ()) = (r, s')"
    by fastforce
  ultimately show ?thesis
    using unschedulable_only_reports [of sample_codec sample_lib ?m target_client "initial_state ()" r s'] run
    by (auto simp: initial_state_def)
qed

text \<open>
  C11. The requests for the placement of a bundle: a placement is created for the target
  cluster set with the placement rules of the bundle and the manifest as its owner; an
  existing placement is updated in its predicates only (so its cluster sets stay those it
  was created with).
\<close>

theorem placement_requests_of_bundle:
  "case get_associated_placement L K b m s of (r, s') \<Rightarrow>
     \<exists>tr. sys_trace s' = sys_trace s @ tr \<and> list_all (\<lambda>e. placement_request L K m b (fst e)) tr"
proof -
  obtain r s' where run: "get_associated_placement L K b m s = (r, s')" by fastforce
  from run_specD [OF run_associated run] run show ?thesis by auto
qed

text \<open>
  C12. The clean-up of the bundles of the run before never panics (the lookup of the
  previous bundle finds it), and deletes only ManifestWorks and placements of old bundles
  that are gone or have moved to another cluster.
\<close>

theorem clean_up_old_bundles_safe:
  assumes "reachable C L K s" and "clean_up_old_bundles K name bl s = (r, s')"
  shows "r \<noteq> Panic \<and> sys_bundles s' = sys_bundles s \<and>
    (\<exists>tr. sys_trace s' = sys_trace s @ tr \<and> list_all (\<lambda>e. clean_up_request K (stored_bundles s name) bl (fst e)) tr)"
proof -
  have "distinct (map bundle_name (stored_bundles s name))"
    using stored_well_bundled [OF assms(1)] by (simp add: well_bundled_def)
  moreover have "loopP (clean_up_bundle K (stored_bundles s name) bl) (stored_bundles s name) () s = (r, s')"
    using assms(2) by (simp add: clean_up_old_bundles_def bindP_def getP_def)
  ultimately show ?thesis using run_specD [OF run_clean_up_loop] by blast
qed

lemma clean_up_old_bundles_safe_witness:
  "\<exists>s r s'. sys_bundles s = [''demo'' \<mapsto> [target_bundle]] \<and>
     clean_up_old_bundles target_client ''demo'' [] (s :: (nat, unit) sys) = (r, s') \<and> r \<noteq> Panic"
proof -
  from sample_reachable obtain s where
    s: "reachable sample_codec sample_lib target_client s" "sys_bundles s = [''demo'' \<mapsto> [target_bundle]]" by blast
  obtain r s' where run: "clean_up_old_bundles target_client ''demo'' [] s = (r, s')" by fastforce
  from clean_up_old_bundles_safe [OF s(1) run] s(2) run show ?thesis by blast
qed

text \<open>
  C13. When every stored bundle is still there and on the same cluster, the clean-up sends
  nothing and changes nothing: a repeated run does not disturb what is scheduled.
\<close>

theorem clean_up_keeps_unmoved:
  assumes "reachable C L K s" and "list_all (unmoved bl) (stored_bundles s name)"
  shows "clean_up_old_bundles K name bl s = (Ok (), s)"
proof -
  have "distinct (map bundle_name (stored_bundles s name))"
    using stored_well_bundled [OF assms(1)] by (simp add: well_bundled_def)
  from clean_up_loop_unmoved [OF this subset_refl] assms(2)
  have "loopP (clean_up_bundle K (stored_bundles s name) bl) (stored_bundles s name) () = retP ()"
    by (simp add: list_all_iff)
  then show ?thesis by (simp add: clean_up_old_bundles_def bindP_def getP_def retP_def)
qed

lemma clean_up_keeps_unmoved_witness:
  "\<exists>s. sys_bundles s = [''demo'' \<mapsto> [target_bundle]] \<and>
     clean_up_old_bundles target_client ''demo'' [target_bundle] (s :: (nat, unit) sys) = (Ok (), s)"
proof -
  from sample_reachable obtain s where
    s: "reachable sample_codec sample_lib target_client s" "sys_bundles s = [''demo'' \<mapsto> [target_bundle]]" by blast
  then have "list_all (unmoved [target_bundle]) (stored_bundles s ''demo'')"
    by (simp add: stored_bundles_def unmoved_def)
  from clean_up_keeps_unmoved [OF s(1) this] s(2) show ?thesis by blast
qed

section \<open>Network links\<close>

text \<open>
  C14. When the network stage lets a run go on and its bundles need connections, the last
  request of the stage is an accepted update of the MultiClusterNetwork resource whose
  edges are those of a resource the server returned, plus one for every connection.
\<close>

theorem needed_links_registered:
  assumes "link_api_spec L" and "\<And>n. fetched K n \<Longrightarrow> links_wf (mcn_links n)" and "well_bundled bl"
    and "connect_bundles L K m bl s = (Ok (), s')"
  shows "\<exists>tr ncs. sys_trace s' = sys_trace s @ tr \<and> get_network_connections bl = Ok ncs \<and>
    (ncs = [] \<or> (\<exists>pre n n'. tr = pre @ [(UpdateNetwork n', True)] \<and> fetched K n \<and>
       edges (mcn_links n') = edges (mcn_links n) \<union> connection_edge ` set ncs))"
proof -
  from run_specD [OF ok_connect [unfolded ok_spec_def] assms(4)] obtain tr ncs where
    tr: "sys_trace s' = sys_trace s @ tr"
      "ncs \<noteq> [] \<longrightarrow> network_sent K (\<lambda>ls ls'. ls' = register_links L ncs ls) tr"
    and ncs: "get_network_connections bl = Ok ncs" by auto
  have "edges (register_links L ncs (mcn_links n)) = edges (mcn_links n) \<union> connection_edge ` set ncs"
    if "fetched K n" for n
    using links.register_table assms(1) assms(2) [OF that] by blast
  with tr ncs show ?thesis unfolding network_sent_def by metis
qed

lemma needed_links_registered_witness:
  "\<exists>s' pre n n'. sys_trace s' = pre @ [(UpdateNetwork n', True)] \<and> fetched target_client n \<and>
     edges (mcn_links n') = edges (mcn_links n) \<union> connection_edge ` {sample_connection} \<and>
     connect_bundles sample_lib target_client target_manifest sample_bundles (initial_state ()) = (Ok (), s')"
proof -
  from sample_connected obtain s' where run:
    "connect_bundles sample_lib target_client target_manifest sample_bundles (initial_state ()) = (Ok (), s')" by blast
  have "\<And>n. fetched target_client n \<Longrightarrow> links_wf (mcn_links n)"
    unfolding target_client_def by (rule sample_fetched)
  from needed_links_registered [OF sample_link_api this sample_well_bundled run] run show ?thesis
    by (auto simp: sample_connections initial_state_def)
qed

text \<open>
  C15. Registering connections that no link has and then deleting them gives back a well
  formed list of links with the same edges.
\<close>

theorem links_round_trip:
  assumes "link_api_spec L" and "links_wf ls" and "connection_edge ` set ncs \<inter> edges ls = {}"
  shows "\<exists>ls'. delete_links L ncs (register_links L ncs ls) = Ok ls' \<and> links_wf ls' \<and> edges ls' = edges ls"
  using links.round_trip [of L ls ncs] assms by blast

lemma links_round_trip_witness:
  "\<exists>ls'. delete_links sample_lib [sample_connection] (register_links sample_lib [sample_connection] []) = Ok ls' \<and>
     edges ls' = {}"
  using links_round_trip [OF sample_link_api, of "[]" "[sample_connection]"] by (auto simp: links_wf_def)

text \<open>
  C16. Replacing the connections of the run before by those of this run (delete the old,
  register the new) leaves exactly the other edges and the new ones.
\<close>

theorem links_replaced:
  assumes "link_api_spec L" and "links_wf ls"
  shows "\<exists>ls'. delete_links L old ls = Ok ls' \<and> links_wf (register_links L new ls') \<and>
    edges (register_links L new ls') = (edges ls - connection_edge ` set old) \<union> connection_edge ` set new"
  using links.replace [of L ls old new] assms by blast

lemma links_replaced_witness:
  "\<exists>ls'. delete_links sample_lib [sample_connection] [] = Ok ls' \<and>
     edges (register_links sample_lib [sample_connection] ls') = {connection_edge sample_connection}"
  using links_replaced [OF sample_link_api, of "[]" "[sample_connection]" "[sample_connection]"]
  by (auto simp: links_wf_def)

text \<open>
  C17. The connections of a list of bundles: for well formed bundles the computation
  succeeds, and a connection is in the result exactly when one of the bundles names the
  service of another bundle and the two are not in the same namespace of the same cluster.
\<close>

theorem connections_of_bundles:
  assumes "build_and_update_bundles C L [] m = Ok built" and "list_all2 (assigned K tr) built bl"
  shows "\<exists>ncs. get_network_connections bl = Ok ncs \<and>
    set ncs = {nc. is_link_required nc \<and>
      (\<exists>b w other c sv. needs bl b other c sv \<and> bundle_workloads b = [w] \<and> nc = connection_of b other c sv w)}"
  by (rule well_bundled_connections, rule assigned_well_bundled [OF assms(2)])
     (use build_well [OF assms(1)] in blast)

lemma connections_of_bundles_witness:
  "\<exists>bl ncs. map bundle_name bl = [''web'', ''db''] \<and> get_network_connections (bl :: nat bundle_list) = Ok ncs"
proof -
  from demo_built obtain built where built: "build_and_update_bundles sample_codec sample_lib [] demo = Ok built"
    "map bundle_name built = [''web'', ''db'']" by (elim exE conjE) (rule that)
  let ?tr = "[(GetDecision (scheduler_key ''web''), True)] :: nat events"
  let ?f = "set_cluster ''cluster1''"
  have "assigned target_client ?tr b (?f b)" for b
    unfolding assigned_def
    by (intro exI [of _ "scheduler_key ''web''"] exI [of _ "\<lparr>pd_name = ''web'', pd_cluster_names = [''cluster1'']\<rparr>"])
       (simp add: target_client_def sample_client_def scheduler_key_def has_prefix_def)
  then have "list_all2 (assigned target_client ?tr) built (map ?f built)"
    by (simp add: list_all2_conv_all_nth)
  from connections_of_bundles [OF built(1) this] obtain ncs where
    "get_network_connections (map ?f built) = Ok ncs" by blast
  moreover have "map bundle_name (map ?f built) = [''web'', ''db'']"
    using built(2) by (simp add: comp_def)
  ultimately show ?thesis by (intro exI [of _ "map ?f built"] exI [of _ ncs] conjI)
qed

section \<open>Bundling\<close>

text \<open>
  C18. With workload annotations the bundles are: one for each name of a workload, under
  distinct names, and each is the bundle of the last workload of its name: that workload
  first, then the ancillary resources of its analysis, its absent resources and its
  connections, and as placement rules the global ones followed by its own.
\<close>

theorem one_bundle_per_workload:
  assumes "build_and_update_bundles C L [] m = Ok bl" and "workload_annotations (p2m_spec m) \<noteq> []"
  shows "\<exists>resources common ws.
    bulk_convert_to_resource_set C L (manifests (p2m_spec m)) = Ok resources \<and>
    extract_placement_rules (global_annotations (p2m_spec m)) = Ok common \<and>
    assign_workload_annotations (filter is_workload resources) (workload_annotations (p2m_spec m)) = Ok ws \<and>
    bundles_of C L common (filter (\<lambda>r. \<not> is_workload r) resources) (p2m_name m) ws bl"
  by (rule build_per_workload [OF assms]) blast

lemma one_bundle_per_workload_witness:
  "\<exists>common anc ws bl. map bundle_name bl = [''web'', ''db''] \<and>
     bundles_of sample_codec sample_lib common anc ''demo'' ws bl"
proof -
  from demo_built obtain bl where built: "build_and_update_bundles sample_codec sample_lib [] demo = Ok bl"
    "map bundle_name bl = [''web'', ''db'']" by (elim exE conjE) (rule that)
  have "workload_annotations (p2m_spec demo) \<noteq> []" "p2m_name demo = ''demo''"
    by (simp_all add: sample_manifest_def sample_annotations_def)
  with one_bundle_per_workload [OF built(1)] obtain common anc ws where
    "bundles_of sample_codec sample_lib common anc ''demo'' ws bl" by auto
  with built(2) show ?thesis by (intro exI conjI)
qed

text \<open>
  C19. Without workload annotations there is one bundle, it holds the resources of all the
  manifests (each name, namespace and kind once, as the conversion keeps them), and its
  placement rules are the global ones; it is called default without global filter
  annotations and global with them.
\<close>

theorem single_bundle_holds_all:
  assumes "build_and_update_bundles C L [] m = Ok bl" and "workload_annotations (p2m_spec m) = []"
  shows "\<exists>resources common rn.
    bulk_convert_to_resource_set C L (manifests (p2m_spec m)) = Ok resources \<and>
    extract_placement_rules (global_annotations (p2m_spec m)) = Ok common \<and>
    bl = [\<lparr>bundle_name = (if common = [] then ''default'' else ''global''), bundle_resources = resources,
           absent_resources = [], external_connections = [],
           scheduling_details = \<lparr>placement_requests = Some common, cluster_name = '''', resource_name = rn\<rparr>\<rparr>]"
  by (rule build_single [OF assms]) blast

lemma single_bundle_holds_all_witness:
  "\<exists>bl resources. build_and_update_bundles sample_codec sample_lib [] deleted_manifest = Ok bl \<and>
     bulk_convert_to_resource_set sample_codec sample_lib [0, 1, 2, 3] = Ok resources \<and>
     map bundle_resources bl = [resources]"
proof -
  from default_built obtain bl where built: "build_and_update_bundles sample_codec sample_lib [] deleted_manifest = Ok bl"
    by blast
  have "workload_annotations (p2m_spec deleted_manifest) = []" "manifests (p2m_spec deleted_manifest) = [0, 1, 2, 3]"
    by (simp_all add: deleted_manifest_def sample_manifest_def)
  with single_bundle_holds_all [OF built] built show ?thesis by auto
qed

text \<open>
  C20. Every resource of every bundle is one of the manifests of the custom resource,
  decoded, of a supported API group and with a namespace where it needs one; no bundle
  holds a resource twice; bundle names are distinct; a bundle with external connections has
  exactly one workload (which the computation of its links relies on).
\<close>

theorem bundles_well_formed:
  assumes "build_and_update_bundles C L [] m = Ok bl"
  shows "well_bundled bl \<and> list_all (\<lambda>b. list_all (scheduled_from C L m) (bundle_resources b)) bl"
  using build_well [OF assms] by (simp add: list_all_iff)

lemma bundles_well_formed_witness:
  "\<exists>bl. map bundle_name bl = [''web'', ''db''] \<and> well_bundled bl \<and>
     list_all (\<lambda>b. list_all (scheduled_from sample_codec sample_lib demo) (bundle_resources b)) bl"
proof -
  from demo_built obtain bl where built: "build_and_update_bundles sample_codec sample_lib [] demo = Ok bl"
    "map bundle_name bl = [''web'', ''db'']" by (elim exE conjE) (rule that)
  note both = bundles_well_formed [OF built(1)]
  show ?thesis by (intro exI [of _ bl] conjI built(2) conjunct1 [OF both] conjunct2 [OF both])
qed

section \<open>Analysis of a workload\<close>

text \<open>
  C21. The analysis of a workload resolves exactly the references the workload makes: the
  resources it returns are ancillary resources, without duplicates, whose name and kind are
  those of the references that exist; the absent resources are exactly the others.
  References are those of its pod (pull secrets, volumes, service account with its roles
  and bindings, environment of containers and init containers), of the services that select
  it with their ingresses, routes and monitors, its namespace, the service of a
  StatefulSet, and autoscalers.
\<close>

theorem analysis_resolves_references:
  assumes "analyse_workload C L w anc = Ok acc" and "extract_pod_template_spec C w = Ok t"
  shows "resolved anc (workload_refs C L w anc t) (found_of acc)"
  by (rule analyse_workload_resolved [OF assms])

lemma analysis_resolves_references_witness:
  "\<exists>acc. resolved [sample_resource 2, sample_resource 3]
     (workload_refs sample_codec sample_lib (sample_resource 1) [sample_resource 2, sample_resource 3]
        (sample_pod ''db'' [] [''data''])) (found_of acc) \<and> length (fst acc) = 2"
proof -
  from db_analysed obtain rs missing conns where
    "analyse_workload sample_codec sample_lib (sample_resource 1) [sample_resource 2, sample_resource 3] =
       Ok (rs, missing, conns)" and "length rs = 2" by blast
  with analysis_resolves_references [OF this(1) sample_templates(2)] show ?thesis
    by (intro exI [of _ "(rs, missing, conns)"]) simp
qed

text \<open>
  C22. The external connections of a workload are those its environment variables name, in
  order, over its containers and then its init containers.
\<close>

theorem analysis_finds_connections:
  assumes "analyse_workload C L w anc = Ok (rs, missing, conns)" and "extract_pod_template_spec C w = Ok t"
  shows "conns = concat (map connections_of (concat (map c_env (containers (pt_spec t) @ init_containers (pt_spec t)))))"
  by (rule analyse_workload_connections [OF assms])

lemma analysis_finds_connections_witness:
  "[\<lparr>spp_service = ''db-svc'', spp_port = 5432\<rparr>] = connections_of \<lparr>ev_value = ''db-svc:5432'', ev_value_from = None\<rparr>"
proof -
  from web_analysed obtain rs missing where
    "analyse_workload sample_codec sample_lib (sample_resource 0) [sample_resource 2, sample_resource 3] =
       Ok (rs, missing, [\<lparr>spp_service = ''db-svc'', spp_port = 5432\<rparr>])" by (elim exE) (rule that)
  from analysis_finds_connections [OF this sample_templates(1)] show ?thesis
    by (simp add: sample_pod_def sample_container_def)
qed

text \<open>
  C23. The analysis of containers fails exactly when an environment variable names a
  service and a port that does not fit a 64-bit integer, although the code's comment asks
  for any valid port only; it never panics.
\<close>

theorem containers_fail_on_port_overflow:
  "if \<exists>c \<in> set cs. \<exists>ev \<in> set (c_env c). port_overflows ev
   then analyse_containers cs anc = Fail (PlainError ''value out of range'')
   else \<exists>rs missing. analyse_containers cs anc =
     Ok (rs, missing, concat (map connections_of (concat (map c_env cs))))"
  by (rule analyse_containers_eq)

text \<open>
  C24. Looking for the ingresses of a service panics exactly when an ingress has a rule
  without HTTP paths, which the Kubernetes API allows.
\<close>

theorem ingress_without_paths_panics:
  "ingress_step C service ingress resources = Panic \<longleftrightarrow>
     (\<exists>rules. dec_ingress C (res_manifest ingress) = Inr rules \<and> None \<in> set rules)"
  by (cases "dec_ingress C (res_manifest ingress)") (auto simp: ingress_step_def ingress_rules_eq)

section \<open>Annotations\<close>

text \<open>
  C25. The annotations of a manifest, the global ones and then those of its workloads, are
  accepted exactly when the text before the first equals sign of each is one of the two
  target keys or starts with \<open>p2code.filter\<close>; otherwise the error names the first that is
  not. Nothing is asked of the value, nor of an equals sign.
\<close>

theorem annotations_accepted_iff:
  "validate_annotations_supported m =
     (case List.find (\<lambda>a. let key = takeWhile (\<lambda>c. c \<noteq> CHR ''='') a
          in key \<noteq> ''p2code.target.managedClusterSet'' \<and> key \<noteq> ''p2code.target.cluster'' \<and>
             take 13 key \<noteq> ''p2code.filter'')
        (global_annotations (p2m_spec m) @ concat (map wa_annotations (workload_annotations (p2m_spec m)))) of
        None \<Rightarrow> Ok ()
      | Some a \<Rightarrow> Fail (PlainError (a @ '' is an unsupported annotation'')))"
  by (rule validate_annotations_eq)

text \<open>
  C26. The placement rules are one for each filter annotation, in order; the extraction
  panics exactly when a filter annotation has no equals sign (which C25 lets through).
\<close>

theorem placement_rules_extracted:
  "extract_placement_rules as =
     (if \<exists>a \<in> set as. is_filter_annotation a \<and> CHR ''='' \<notin> set a then Panic
      else Ok (map rule_of (filter is_filter_annotation as)))"
  by (rule extract_placement_rules_eq)

text \<open>
  C27. Printing rules as annotations and extracting them again gives the rules back, for
  keys with the filter prefix and keys and values without an equals sign.
\<close>

theorem placement_rules_round_trip:
  assumes "list_all (\<lambda>(k, v). has_prefix k filter_prefix \<and> CHR ''='' \<notin> set k \<and> CHR ''='' \<notin> set v) kvs"
  shows "extract_placement_rules (map (\<lambda>(k, v). k @ CHR ''='' # v) kvs) =
    Ok (map (\<lambda>(k, v). \<lparr>req_key = k, req_operator = ''In'', req_values = [v]\<rparr>) kvs)"
proof -
  have one: "is_filter_annotation (k @ CHR ''='' # v) \<and>
      rule_of (k @ CHR ''='' # v) = \<lparr>req_key = k, req_operator = ''In'', req_values = [v]\<rparr>"
    if "(k, v) \<in> set kvs" for k v
  proof -
    have kv: "has_prefix k filter_prefix" "CHR ''='' \<notin> set k" "CHR ''='' \<notin> set v"
      using assms that by (auto simp: list_all_iff)
    then show ?thesis
      by (simp add: rule_of_pair is_filter_annotation_def annotation_key_def split_on_pair)
  qed
  then have "filter is_filter_annotation (map (\<lambda>(k, v). k @ CHR ''='' # v) kvs) = map (\<lambda>(k, v). k @ CHR ''='' # v) kvs"
    by (auto simp: filter_id_conv)
  with one show ?thesis by (auto simp: extract_placement_rules_eq)
qed

lemma placement_rules_round_trip_witness:
  "extract_placement_rules [''p2code.filter.location=ireland''] =
     Ok [\<lparr>req_key = ''p2code.filter.location'', req_operator = ''In'', req_values = [''ireland'']\<rparr>]"
  using placement_rules_round_trip [of "[(''p2code.filter.location'', ''ireland'')]"]
  by (simp add: has_prefix_def filter_prefix_def)

text \<open>
  C28. The target: the value of the last annotation of each of the two keys; an error
  exactly when the cluster set is missing or empty; a panic exactly when a target
  annotation has no equals sign.
\<close>

theorem target_extracted:
  "extract_target as =
     (if \<exists>a \<in> set as. is_target_annotation a \<and> CHR ''='' \<notin> set a then Panic
      else if last_value target_cluster_set_key as = ''''
      then Fail (PlainError ''no target managed cluster set provided'')
      else Ok (last_value target_cluster_set_key as, last_value target_cluster_key as))"
  by (rule extract_target_eq)

section \<open>Manifests and names\<close>

text \<open>
  C29. The conversion of the manifests keeps each key (name, namespace, kind) once, and
  every resource it returns is one of the manifests, with its metadata, and valid.
\<close>

theorem conversion_sound:
  assumes "bulk_convert_to_resource_set C L ms = Ok rs"
  shows "distinct (map resource_key rs) \<and>
    list_all (\<lambda>r. res_manifest r \<in> set ms \<and> res_annotations r = [] \<and>
       dec_unstructured C (res_manifest r) = Inr (res_metadata r) \<and>
       metadata_is_valid L (res_metadata r) = Ok ()) rs"
  using bulk_convert_sound [OF assms] by (simp add: list_all_iff)

lemma conversion_sound_witness:
  "distinct (map resource_key converted_sample) \<and> length converted_sample = 4"
  using conversion_sound [OF target_converted] converted_length by simp

text \<open>
  C30. No manifest is dropped by the conversion: each decodes, and a resource of its key is
  in the result.
\<close>

theorem conversion_complete:
  assumes "bulk_convert_to_resource_set C L ms = Ok rs" and "m \<in> set ms"
  shows "\<exists>md. dec_unstructured C m = Inr md \<and> metadata_key md \<in> resource_key ` set rs"
  by (rule bulk_convert_complete [OF assms])

lemma conversion_complete_witness:
  "\<exists>md. dec_unstructured sample_codec 2 = Inr md \<and> metadata_key md \<in> resource_key ` set converted_sample"
  by (rule conversion_complete [OF target_converted]) (simp add: target_manifest_def sample_manifest_def)

text \<open>
  C31. The name of a Kubernetes object is truncated to at most 63 bytes, to a prefix of
  itself, and not at all when it is short enough; it never panics and never ends in a dash.
\<close>

theorem names_truncated:
  assumes "qualified_name_spec L" and "dns_name s"
  shows "\<exists>t. truncate_name_if_needed L s = Ok t \<and> length t \<le> 63 \<and> (\<exists>u. s = t @ u) \<and>
    (if length s \<le> 63 then t = s else last t \<noteq> CHR ''-'')"
proof (cases "length s \<le> 63")
  case True
  with truncate_short [OF assms True] show ?thesis by simp
next
  case False
  let ?t = "trim_right (CHR ''-'') (take 63 s)"
  from trim_right_prefix [of "take 63 s" "CHR ''-''"] obtain u where "take 63 s = ?t @ u" by blast
  then have "s = ?t @ (u @ drop 63 s)" by (metis append.assoc append_take_drop_id)
  moreover have "length ?t \<le> 63" using length_trim_right [of "CHR ''-''" "take 63 s"] by simp
  moreover have "?t \<noteq> []"
  proof
    assume "?t = []"
    with \<open>take 63 s = ?t @ u\<close> trim_right_prefix [of "take 63 s" "CHR ''-''"]
    have "set (take 63 s) \<subseteq> {CHR ''-''}" by auto
    moreover have "hd s \<in> set (take 63 s)" using False by (cases s) auto
    ultimately have "hd s = CHR ''-''" by auto
    with assms(2) show False by (simp add: dns_name_def alnum_def)
  qed
  ultimately show ?thesis
    using truncate_long [OF assms] False trim_right_last [of "CHR ''-''" "take 63 s"] by auto
qed

lemma names_truncated_witness:
  "\<exists>t. truncate_name_if_needed sample_lib (replicate 70 (CHR ''a'')) = Ok t \<and> length t \<le> 63"
proof -
  have "dns_name (replicate 70 (CHR ''a''))" by code_simp
  from names_truncated [OF sample_qualified_spec this] show ?thesis by blast
qed

text \<open>
  The truncation panics exactly when a name is not a qualified name for a reason other
  than its length: the code slices 63 bytes of a shorter name.
\<close>

lemma truncation_panics_iff:
  "truncate_name_if_needed L s = Panic \<longleftrightarrow> is_qualified_name L s \<noteq> [] \<and> length s < 63"
  by (rule truncate_panics_iff)

text \<open>
  C32. The truncation trims dashes but not dots: the name of an object whose 63rd byte is a
  dot is truncated to a name that is not valid as a label value.
\<close>

theorem truncation_may_leave_dot:
  assumes "qualified_name_spec L" and "dns_name s" and "63 < length s" and "s ! 62 = CHR ''.''"
  shows "\<exists>t. truncate_name_if_needed L s = Ok t \<and> length t = 63 \<and> is_qualified_name L t \<noteq> []"
proof -
  have last: "take 63 s = take 62 s @ [CHR ''.'']"
    using assms(3,4) take_Suc_conv_app_nth [of 62 s] by simp
  then have trim: "trim_right (CHR ''-'') (take 63 s) = take 63 s"
    by (simp add: trim_right_def)
  have "\<not> label_name (take 63 s)"
    using last by (simp add: label_name_def alnum_def)
  moreover have "CHR ''/'' \<notin> set (take 63 s)"
    using dns_name_no_slash [OF assms(2)] by (auto dest: in_set_takeD)
  ultimately have "is_qualified_name L (take 63 s) \<noteq> []"
    using assms(1) by (simp add: qualified_name_spec_def)
  then show ?thesis
    using truncate_long [OF assms(1,2,3)] assms(3) by (simp add: trim)
qed

lemma truncation_may_leave_dot_witness:
  "\<exists>t. truncate_name_if_needed sample_lib (replicate 62 (CHR ''a'') @ ''.demo'') = Ok t \<and>
     is_qualified_name sample_lib t \<noteq> []"
proof -
  have "dns_name (replicate 62 (CHR ''a'') @ ''.demo'')" by code_simp
  from truncation_may_leave_dot [OF sample_qualified_spec this] obtain t where
    "truncate_name_if_needed sample_lib (replicate 62 (CHR ''a'') @ ''.demo'') = Ok t"
    "is_qualified_name sample_lib t \<noteq> []" by (simp add: nth_append) (elim exE conjE)
  then show ?thesis by (intro exI [of _ t] conjI)
qed

text \<open>
  The regular expression of a service reference accepts exactly the texts made of one
  or more of the characters a-z, 0-9, slash and dash, a colon, and one or more digits.
\<close>

lemma service_reference_form:
  "is_service_name_port_reference s \<longleftrightarrow>
     (\<exists>h ds. s = h @ CHR '':'' # ds \<and> h \<noteq> [] \<and> ds \<noteq> [] \<and>
        list_all is_service_char h \<and> list_all is_digit ds)"
  by (simp add: is_service_name_port_reference_def match_service_port_iff)

section \<open>Stages of a run\<close>

text \<open>
  Discovery of the MultiClusterNetwork API, when it returns without an error, sends
  four requests, the first three with success, and answers whether the last one succeeded.
\<close>

lemma discovery_answers:
  assumes "is_multi_cluster_network_installed K s = (Ok b, s')"
  shows "sys_trace s' = sys_trace s @ discovered b"
  using run_specD [OF ok_installed [unfolded ok_spec_def] assms] by auto

lemma discovery_answers_witness:
  "\<exists>s'. is_multi_cluster_network_installed target_client (initial_state ()) = (Ok True, s') \<and>
     sys_trace s' = discovered True"
proof -
  let ?s = "initial_state () :: (nat, unit) sys"
  obtain s' where run: "is_multi_cluster_network_installed target_client ?s = (Ok True, s')"
    using sample_installed [of target_manifest "[sample_work]" ?s] unfolding target_client_def by blast
  from discovery_answers [OF run] run show ?thesis by (simp add: initial_state_def)
qed

text \<open>
  C33. A run writes a placement or a ManifestWork only after it has checked the target of
  the manifest it schedules: by three requests in a row and their answers, the cluster set
  its annotations name exists, has a cluster and is bound to the namespace of the scheduler;
  and if they name a cluster, the server has listed it in that set.
\<close>

theorem cluster_set_checked:
  assumes "reconcile C L K req s = (r, s')"
    and "sys_trace s' = sys_trace s @ pre @ (c, ok) # post" and "is_placement_write c \<or> is_work_write c"
  shows "\<exists>m owner. scheduled_manifest L K req (sys_world s) m owner \<and> target_usable L K m pre"
proof -
  have "\<not> quiet (pre @ (c, ok) # post)" using assms(3) by (auto simp: no_roll_out_def)
  with run_specD [OF run_reconcile_target assms(1)] assms(2) obtain m owner where
    m: "scheduled_manifest L K req (sys_world s) m owner"
      "target_checked_first L K m (pre @ (c, ok) # post)" by auto
  from roll_out_after_target [OF m(2) assms(3)] m(1) show ?thesis by blast
qed

lemma cluster_set_checked_witness:
  "\<exists>m owner pre. scheduled_manifest sample_lib target_client sample_request () m owner \<and>
     target_usable sample_lib target_client m pre"
proof -
  from target_run obtain s' where run:
    "reconcile sample_codec sample_lib target_client sample_request (initial_state ()) = (Ok Done, s')"
    and ex: "list_ex (\<lambda>e. is_work_write (fst e)) (sys_trace s')" by blast
  from ex obtain c ok where c: "(c, ok) \<in> set (sys_trace s')" "is_placement_write c \<or> is_work_write c"
    by (auto simp: list_ex_iff)
  from split_list [OF c(1)] obtain pre post where "sys_trace s' = pre @ (c, ok) # post" by blast
  then have "sys_trace s' = sys_trace (initial_state () :: (nat, unit) sys) @ pre @ (c, ok) # post"
    by (simp add: initial_state_def)
  from cluster_set_checked [OF run this c(2)] show ?thesis by (auto simp: initial_state_def)
qed

text \<open>
  C34. A ManifestWork is accepted exactly when it reports at least one resource and none of
  its conditions says that applying or availability failed; otherwise the error carries the
  message of the first failing condition.
\<close>

theorem work_validated:
  "validate_manifest_work_applied w =
     (if work_status w = []
      then Fail (ManifestWorkNotReadyError (''ResourceStatus for '' @ work_name w @ '' ManifestWork is empty''))
      else case List.find condition_fails (concat (work_status w)) of
          None \<Rightarrow> Ok ()
        | Some c \<Rightarrow> Fail (ManifestWorkFailedError (cond_message c)))"
  by (rule validate_work_eq)

text \<open>
  C35. A failed ManifestWork whose condition has an empty message, which the Kubernetes API
  allows, makes the run panic: the code takes the first byte of the message.
\<close>

theorem failed_work_without_message_panics:
  assumes "work_status w \<noteq> []" and "List.find condition_fails (concat (work_status w)) = Some c"
    and "cond_message c = ''''"
  shows "check_work L K m bl w () s = (Panic, s)"
  using assms
  by (simp add: check_work_def validate_work_eq sentence_case_def raising_def bindP_def handleP_def liftP_def)

lemma failed_work_without_message_panics_witness:
  "check_work sample_lib target_client target_manifest []
     (sample_work\<lparr>work_status := [[\<lparr>cond_type = ''Applied'', cond_status = CondFalse, cond_reason = ''Failed'',
        cond_message = ''''\<rparr>]]\<rparr>) () (initial_state ()) = (Panic, initial_state ())"
  by (rule failed_work_without_message_panics [where c = "\<lparr>cond_type = ''Applied'', cond_status = CondFalse,
        cond_reason = ''Failed'', cond_message = ''''\<rparr>"]) (simp_all add: condition_fails_def)

text \<open>
  C36. A run reports that the workloads are scheduled (SchedulingSuccessful,
  TentativelyScheduled or ScheduledWithUnreliableConnectivity) only when they are: before
  the report the bundles of the manifest it schedules were authorised as in C1, the
  ManifestWork of every one of them was written, in order, and the server listed under the
  owner label exactly as many ManifestWorks as there are bundles, each of them applied (so
  a work left over by a bundle that is gone keeps a run from reporting success). The status
  has the decisions of these bundles, and the first two states tell by the count whether a
  manifest was left over.
\<close>

theorem success_only_when_applied:
  assumes "reconcile C L K req s = (r, s')"
    and "sys_trace s' = sys_trace s @ pre @ (UpdateStatus p, ok) # post"
    and "state (p2m_status p) \<in> {scheduling_successful, tentatively_scheduled, unreliably_scheduled}"
  shows "\<exists>m owner m' bl. scheduled_manifest L K req (sys_world s) m owner \<and> authorised C L K pre m bl \<and>
    rolled_manifest K pre m bl m' \<and> list_all2 (serves K owner) bl (work_writes pre) \<and>
    works_applied L K owner bl pre \<and> decisions (p2m_status p) = get_scheduling_decisions bl \<and>
    (state (p2m_status p) = scheduling_successful \<longrightarrow> length (manifests (p2m_spec m')) \<le> placed_count bl) \<and>
    (state (p2m_status p) = tentatively_scheduled \<longrightarrow> placed_count bl < length (manifests (p2m_spec m')))"
proof -
  have success: "state (p2m_status p) \<in> set success_states" using assms(3) by (simp add: success_states_def)
  then have "\<not> list_all (\<lambda>e. modest (fst e)) (pre @ (UpdateStatus p, ok) # post)"
    by (auto simp: modest_def claims_success_def)
  with run_specD [OF run_reconcile_success assms(1)] assms(2) obtain m owner where
    m: "scheduled_manifest L K req (sys_world s) m owner"
      "scheduling_backed C L K owner m (pre @ (UpdateStatus p, ok) # post)" by auto
  from success_after_works [OF m(2) success] success m(1) show ?thesis
    unfolding honest_def by blast
qed

lemma success_only_when_applied_witness:
  "\<exists>m owner bl pre. scheduled_manifest sample_lib target_client sample_request () m owner \<and>
     authorised sample_codec sample_lib target_client pre m bl \<and>
     list_all2 (serves target_client owner) bl (work_writes pre) \<and> works_applied sample_lib target_client owner bl pre"
proof -
  from target_run obtain s' where run:
    "reconcile sample_codec sample_lib target_client sample_request (initial_state ()) = (Ok Done, s')"
    and stored: "sys_bundles s' = [''demo'' \<mapsto> [target_bundle]]" by blast
  from target_success [OF run stored] obtain pre p where
    p: "sys_trace s' = sys_trace (initial_state () :: (nat, unit) sys) @ pre @ (UpdateStatus p, True) # []"
      "state (p2m_status p) = scheduling_successful" by (auto simp: initial_state_def)
  from success_only_when_applied [OF run p(1)] p(2) show ?thesis by (auto simp: initial_state_def)
qed

text \<open>
  The ManifestWork of a bundle holds the manifests of its resources in their order, and
  asks for server-side apply for exactly its volume claims.
\<close>

lemma work_of_bundle:
  "work_manifests (work_spec (work_of owner b)) = map res_manifest (bundle_resources b) \<and>
   mc_name ` set (work_configs (work_spec (work_of owner b))) =
     res_name ` {r \<in> set (bundle_resources b). res_kind r = ''PersistentVolumeClaim''} \<and>
   (work_namespace (work_of owner b), work_name (work_of owner b)) =
     (nn_namespace (work_key b), nn_name (work_key b))"
  by (auto simp: work_of_def generate_manifest_work_for_bundle_def resources_to_server_side_apply_def
      manifest_config_option_def work_key_def image_image)

section \<open>Deep copies\<close>

text \<open>
  C37. A deep copy of a list of manifests (and with it of the manifests, specs, statuses
  and annotations in it) denotes the same value and shares no memory with the original:
  writes to the cells of the one do not change what the other denotes. A nil pointer, and
  only a nil pointer, is copied to a nil object. The deep copies of the Kubernetes types are
  taken to be deep copies.
\<close>

theorem deep_copies_share_nothing:
  assumes "copies_externals D E"
    and "look_pointer (list_kind D) (look_list D E) h p = Some (v, A)"
    and "deep_copy_object_list D p h = (obj, h')"
  shows "\<exists>q B. obj = (case q of None \<Rightarrow> NilObject | Some a \<Rightarrow> ListObject a) \<and> (q = None \<longleftrightarrow> p = None) \<and>
    look_pointer (list_kind D) (look_list D E) h' q = Some (v, B) \<and> A \<inter> B = {} \<and>
    (\<forall>g. length g = length h' \<and> (\<forall>i. i \<notin> A \<longrightarrow> g ! i = h' ! i) \<longrightarrow>
       look_pointer (list_kind D) (look_list D E) g q = Some (v, B)) \<and>
    (\<forall>g. length g = length h' \<and> (\<forall>i. i \<notin> B \<longrightarrow> g ! i = h' ! i) \<longrightarrow>
       look_pointer (list_kind D) (look_list D E) g p = Some (v, A))"
proof -
  obtain q h1 where q: "deep_copy_list D p h = (q, h1)" by fastforce
  have "obj = (case q of None \<Rightarrow> NilObject | Some a \<Rightarrow> ListObject a)" "h1 = h'"
    using assms(3) by (auto simp: deep_copy_object_list_def q split: option.splits)
  moreover have "q = None \<longleftrightarrow> p = None"
    using q by (auto simp: deep_copy_list_def deep_copy_def Let_def split: option.splits)
  ultimately show ?thesis
    using deep_copier.copy_independent [OF deep_copy_list_deep [OF assms(1)] assms(2) q] by blast
qed

lemma deep_copies_share_nothing_witness:
  "\<exists>q B v. look_pointer (list_kind sample_copies) (look_list sample_copies sample_looks)
     (snd (deep_copy_object_list sample_copies (Some 3) sample_heap)) (Some q) = Some (v, B) \<and> {0, 1, 2, 3} \<inter> B = {}"
proof -
  from sample_heap_look obtain v where v: "look_pointer (list_kind sample_copies) (look_list sample_copies sample_looks)
    sample_heap (Some 3) = Some (v, {0, 1, 2, 3})" by blast
  obtain obj h' where run: "deep_copy_object_list sample_copies (Some 3) sample_heap = (obj, h')" by fastforce
  from deep_copies_share_nothing [OF sample_copies_externals v run] run show ?thesis by auto
qed

section \<open>The process\<close>

text \<open>
  C38. The set-up of the process asks the controller runtime for: a manager with the options
  of the command line and the scheme with every API, the controller for the custom resource
  (owning placements and ManifestWorks, with the generation filter), the two health checks,
  and last the start. It stops with exit code 1 at the first of them that fails, so the
  manager is started only when all the others succeeded.
\<close>

theorem manager_set_up_in_order:
  assumes "main_process P K args b = (r, b')"
  shows "(bt_trace b' = bt_trace b \<and> r \<noteq> Ok ()) \<or>
    (\<exists>s fl evs. init_scheme P = Ok s \<and> parse_flags P args default_flags = Parsed fl \<and>
       bt_trace b' = bt_trace b @ evs \<and> sets_up evs r (setup_order (manager_options s fl)))"
proof (cases "init_scheme P")
  case (Ok s)
  show ?thesis
  proof (cases "parse_flags P args default_flags")
    case (Parsed fl)
    with assms Ok have "run_manager P K (manager_options s fl) b = (r, b')"
      by (simp add: main_process_def bindP_def liftP_def)
    from run_manager_sets_up [OF this] Ok Parsed show ?thesis by blast
  qed (use assms Ok in \<open>auto simp: main_process_def bindP_def liftP_def failP_def\<close>)
qed (use assms in \<open>auto simp: main_process_def bindP_def liftP_def\<close>)

lemma manager_set_up_in_order_witness:
  "\<exists>evs. sets_up evs (fst (main_process sample_platform target_client [''--leader-elect''] fresh_boot))
     (setup_order (manager_options () (default_flags\<lparr>enable_leader_election := True\<rparr>)))"
proof -
  obtain r b' where run: "main_process sample_platform target_client [''--leader-elect''] fresh_boot = (r, b')"
    by fastforce
  have "r = Ok ()" using sample_process run by simp
  with manager_set_up_in_order [OF run] run show ?thesis
    by (auto simp: sample_command_lines(1) simp del: parse_flags.simps)
qed

text \<open>
  C39. Unless an argument names the flag \<open>enable-http2\<close>, the TLS configurations of the
  webhook server and of the metrics server offer HTTP/1.1 only, whatever they were before.
\<close>

theorem http2_disabled_unless_asked:
  assumes "parse_flags P args default_flags = Parsed fl" and "\<And>a. a \<in> set args \<Longrightarrow> \<not> mentions ''enable-http2'' a"
  shows "fold (\<lambda>f c. f c) (mo_webhook_tls (manager_options s fl)) c = c\<lparr>next_protos := [''http/1.1'']\<rparr> \<and>
    fold (\<lambda>f c. f c) (metrics_tls (mo_metrics (manager_options s fl))) c = c\<lparr>next_protos := [''http/1.1'']\<rparr>"
proof -
  have "\<not> enable_http2 fl" using parse_keeps_http2 [OF assms] by (simp add: default_flags_def)
  then show ?thesis
    by (simp add: manager_options_def metrics_server_options_def tls_opts_def disable_http2_def Let_def)
qed

lemma http2_disabled_unless_asked_witness:
  "fold (\<lambda>f c. f c) (mo_webhook_tls (manager_options () (default_flags\<lparr>metrics_addr := '':8443''\<rparr>)))
     \<lparr>next_protos = [''h2'', ''http/1.1'']\<rparr> = \<lparr>next_protos = [''http/1.1'']\<rparr>"
proof -
  have "\<And>a. a \<in> set [''-metrics-bind-address'', '':8443''] \<Longrightarrow> \<not> mentions ''enable-http2'' a"
    by (auto simp: mentions_def split_flag_def flag_text_def)
  from http2_disabled_unless_asked [OF sample_command_lines(2) this, of "()" "\<lparr>next_protos = [''h2'', ''http/1.1'']\<rparr>"] show ?thesis by simp
qed

section \<open>What is stored is connected\<close>

text \<open>
  C40. The operator remembers new bundles only when their connections are in place: if a run
  stores a list of bundles under a name that did not hold it before, then its connections
  can be computed, and if there are any, the run sent an update of the MultiClusterNetwork
  resource that was accepted and whose edges are those of a resource the server returned and
  one for every connection.
\<close>

theorem stored_bundles_connected:
  assumes "link_api_spec L" and "\<And>n. fetched K n \<Longrightarrow> links_wf (mcn_links n)"
    and "reconcile C L K req s = (r, s')"
    and "sys_bundles s' name = Some bl" and "sys_bundles s name \<noteq> Some bl"
  shows "\<exists>tr ncs. sys_trace s' = sys_trace s @ tr \<and> get_network_connections bl = Ok ncs \<and>
    (ncs = [] \<or> (\<exists>n n'. (UpdateNetwork n', True) \<in> set tr \<and> fetched K n \<and>
       edges (mcn_links n') = edges (mcn_links n) \<union> connection_edge ` set ncs))"
proof -
  from run_specD [OF run_reconcile_bundles assms(3)] obtain tr q where
    tr: "sys_trace s' = sys_trace s @ tr" "bundles_after C L K req s q tr s'" by blast
  from new_bundles_registered [OF tr(2) assms(4,5)] obtain ncs where
    ncs: "get_network_connections bl = Ok ncs" "ncs \<noteq> [] \<longrightarrow> (\<exists>n n'. (UpdateNetwork n', True) \<in> set tr \<and>
      fetched K n \<and> mcn_links n' = register_links L ncs (mcn_links n))"
    unfolding links_registered_def by blast
  have "edges (register_links L ncs (mcn_links n)) = edges (mcn_links n) \<union> connection_edge ` set ncs"
    if "fetched K n" for n
    using links.register_table assms(1) assms(2) [OF that] by blast
  with tr(1) ncs show ?thesis by metis
qed

lemma stored_bundles_connected_witness:
  "\<exists>s ncs. sys_bundles (s :: (nat, unit) sys) = [''demo'' \<mapsto> [target_bundle]] \<and>
     get_network_connections [target_bundle] = Ok ncs"
proof -
  from target_run obtain s' where run:
    "reconcile sample_codec sample_lib target_client sample_request (initial_state ()) = (Ok Done, s')"
    and stored: "sys_bundles s' = [''demo'' \<mapsto> [target_bundle]]" by blast
  have fetched: "\<And>n. fetched target_client n \<Longrightarrow> links_wf (mcn_links n)"
    unfolding target_client_def by (rule sample_fetched)
  have new: "sys_bundles s' ''demo'' = Some [target_bundle]"
    "sys_bundles (initial_state () :: (nat, unit) sys) ''demo'' \<noteq> Some [target_bundle]"
    using stored by (simp_all add: initial_state_def)
  from stored_bundles_connected [OF sample_link_api fetched run new] stored show ?thesis by blast
qed

end
